(* ===== verification/Prelude.thy ===== *)
theory Prelude
  imports Main "HOL-Library.Word"
begin

text \<open>
  What every component of the development shares: the result type for code that can
  fail, the bounds-checked accesses of \<^verbatim>\<open>std::array\<close> and \<^verbatim>\<open>std::vector\<close>, and the model of
  \<^verbatim>\<open>std::remove_if\<close> / \<^verbatim>\<open>std::remove\<close>, with the lemma collections the component
  theories simplify with.

  The C++ code has no exceptions of its own: where it leaves defined behaviour (an
  index past the end, a null pointer, an inactive union member, a failed assertion)
  the model returns a \<open>fault\<close>, so every such path is a value of the model. A loop that may
  not end is a partial function, with the number of rounds that is enough for it.
\<close>

section \<open>Faults and results\<close>

datatype fault =
    OutOfBounds        \<comment> \<open>operator[] of an array or vector outside its range\<close>
  | NullDeref          \<comment> \<open>a null or dangling pointer is dereferenced\<close>
  | AssertFailed       \<comment> \<open>a failing \<open>assert\<close> of a debug build\<close>
  | InactiveUnionMember \<comment> \<open>a union member is used that was never constructed\<close>
  | ThreadTerminate    \<comment> \<open>\<open>std::terminate\<close> or a \<open>std::system_error\<close> of \<open>std::thread\<close>\<close>
  | Deadlock           \<comment> \<open>a thread waits for an event that can no longer happen\<close>
  | FloatToInt         \<comment> \<open>an infinite duration is converted to the integers of a sleep\<close>

type_synonym 'a res = "fault + 'a"

fun bindR :: "'a res \<Rightarrow> ('a \<Rightarrow> 'b res) \<Rightarrow> 'b res" where
  "bindR (Inl e) f = Inl e"
| "bindR (Inr x) f = f x"

definition is_ok :: "'a res \<Rightarrow> bool" where
  "is_ok r = (case r of Inl _ \<Rightarrow> False | Inr _ \<Rightarrow> True)"

named_theorems res_simps "results of fallible operations"
named_theorems wf_intros "operations that keep a component's well-formedness"
named_theorems frame_simps "fields an operation leaves alone"

lemma bindR_assoc: "bindR (bindR r f) g = bindR r (\<lambda>x. bindR (f x) g)"
  by (cases r) simp_all

lemma bindR_Inr_conv [res_simps]: "bindR r f = Inr y \<longleftrightarrow> (\<exists>x. r = Inr x \<and> f x = Inr y)"
  by (cases r) simp_all

lemma bindR_Inl_conv: "bindR r f = Inl e \<longleftrightarrow> r = Inl e \<or> (\<exists>x. r = Inr x \<and> f x = Inl e)"
  by (cases r) simp_all

lemma bindR_cong: "r = s \<Longrightarrow> (\<And>x. s = Inr x \<Longrightarrow> f x = g x) \<Longrightarrow> bindR r f = bindR s g"
  by (cases s) simp_all

lemma is_ok_simps [simp]: "is_ok (Inr x)" "\<not> is_ok (Inl e)"
  by (simp_all add: is_ok_def)

lemma is_ok_iff: "is_ok r \<longleftrightarrow> (\<exists>x. r = Inr x)"
  by (cases r) simp_all

lemma is_okE: "is_ok r \<Longrightarrow> (\<And>x. r = Inr x \<Longrightarrow> P) \<Longrightarrow> P"
  by (cases r) simp_all

section \<open>Element access of arrays and vectors\<close>

text \<open>
  \<^verbatim>\<open>operator[]\<close> of \<^verbatim>\<open>std::array\<close> and \<^verbatim>\<open>std::vector\<close> does not check its index; an index
  past the end is undefined behaviour, the fault \<open>OutOfBounds\<close> here.
\<close>

definition vec_at :: "'a list \<Rightarrow> nat \<Rightarrow> 'a res" where
  "vec_at xs i = (if i < length xs then Inr (xs ! i) else Inl OutOfBounds)"

definition vec_put :: "'a list \<Rightarrow> nat \<Rightarrow> 'a \<Rightarrow> 'a list res" where
  "vec_put xs i x = (if i < length xs then Inr (xs[i := x]) else Inl OutOfBounds)"

lemma vec_at_in [simp]: "i < length xs \<Longrightarrow> vec_at xs i = Inr (xs ! i)"
  by (simp add: vec_at_def)

lemma vec_at_out [simp]: "length xs \<le> i \<Longrightarrow> vec_at xs i = Inl OutOfBounds"
  by (simp add: vec_at_def)

lemma vec_put_in [simp]: "i < length xs \<Longrightarrow> vec_put xs i x = Inr (xs[i := x])"
  by (simp add: vec_put_def)

lemma vec_put_out [simp]: "length xs \<le> i \<Longrightarrow> vec_put xs i x = Inl OutOfBounds"
  by (simp add: vec_put_def)

lemma vec_at_Inr_iff: "vec_at xs i = Inr x \<longleftrightarrow> i < length xs \<and> x = xs ! i"
  by (auto simp: vec_at_def)

lemma vec_put_Inr_iff: "vec_put xs i x = Inr ys \<longleftrightarrow> i < length xs \<and> ys = xs[i := x]"
  by (auto simp: vec_put_def)

lemma vec_put_then_at:
  "vec_put xs i x = Inr ys \<Longrightarrow> vec_at ys j = (if i = j then Inr x else vec_at xs j)"
  by (auto simp: vec_put_def vec_at_def split: if_splits)

section \<open>The removing algorithms of the standard library\<close>

text \<open>
  \<^verbatim>\<open>std::remove_if(first, last, p)\<close> moves the elements that do not satisfy \<open>p\<close> to the
  front and returns the new logical end; it does not shorten the container.  The loop
  starts behind the first match and move-assigns every kept element to the next free
  place.  \<open>mv x\<close> is what a place holds after \<open>x\<close> was moved out of it: \<open>x\<close> itself for a
  raw pointer, the empty \<^verbatim>\<open>weak_ptr\<close> for a \<^verbatim>\<open>weak_ptr\<close>.
\<close>

function remove_if_from :: "('a \<Rightarrow> bool) \<Rightarrow> ('a \<Rightarrow> 'a) \<Rightarrow> nat \<Rightarrow> nat \<Rightarrow> 'a list \<Rightarrow> 'a list" where
  "remove_if_from p mv result i xs =
     (if i < length xs
      then if p (xs ! i) then remove_if_from p mv result (Suc i) xs
           else remove_if_from p mv (Suc result) (Suc i) (xs[result := xs ! i, i := mv (xs ! i)])
      else xs)"
  by pat_completeness auto
termination
  by (relation "measure (\<lambda>(p, mv, result, i, xs). length xs - i)") auto

declare remove_if_from.simps [simp del]

definition std_remove_if :: "('a \<Rightarrow> bool) \<Rightarrow> ('a \<Rightarrow> 'a) \<Rightarrow> 'a list \<Rightarrow> 'a list" where
  "std_remove_if p mv xs =
     (let first = length (takeWhile (\<lambda>x. \<not> p x) xs)
      in if first = length xs then xs else remove_if_from p mv first (Suc first) xs)"

lemma two_updates:
  "length F = r \<Longrightarrow> i = Suc (r + length M) \<Longrightarrow>
   (F @ a # M @ b # D)[r := x, i := y] = F @ x # M @ y # D"
  by (simp add: list_update_append)

text \<open>
  In closed form: the kept elements, then whatever the remaining places hold.  The loop
  invariant is the closed form for the prefix already visited.
\<close>

lemma remove_if_from_closed:
  assumes "i \<le> length ys" and "result < i" and "result = length (filter (\<lambda>x. \<not> p x) (take i ys))"
    and "xs = filter (\<lambda>x. \<not> p x) (take i ys) @
      map (\<lambda>x. if p x then x else mv x) (drop result (take i ys)) @ drop i ys"
  shows "remove_if_from p mv result i xs = filter (\<lambda>x. \<not> p x) ys @
      map (\<lambda>x. if p x then x else mv x) (drop (length (filter (\<lambda>x. \<not> p x) ys)) ys)"
  using assms
proof (induction "length ys - i" arbitrary: i result xs)
  case 0
  then show ?case by (subst remove_if_from.simps) simp
next
  case (Suc d)
  then have i: "i < length ys" and len: "length xs = length ys" and at: "xs ! i = ys ! i"
    by (simp_all add: nth_append min_def)
  have tk: "take (Suc i) ys = take i ys @ [ys ! i]" and dr: "drop i ys = ys ! i # drop (Suc i) ys"
    using i by (simp_all add: take_Suc_conv_app_nth Cons_nth_drop_Suc)
  let ?g = "\<lambda>x. if p x then x else mv x"
  have hd: "drop result (take i ys) = ys ! result # drop (Suc result) (take i ys)"
    using Suc.prems(2) i by (simp flip: Cons_nth_drop_Suc)
  show ?case
  proof (cases "p (ys ! i)")
    case True
    have "remove_if_from p mv result (Suc i) xs = filter (\<lambda>x. \<not> p x) ys @
        map ?g (drop (length (filter (\<lambda>x. \<not> p x) ys)) ys)"
      by (rule Suc.hyps(1)) (use Suc i True tk dr in simp_all)
    with i len at True show ?thesis by (subst remove_if_from.simps) simp
  next
    case False
    have "remove_if_from p mv (Suc result) (Suc i) (xs[result := ys ! i, i := mv (ys ! i)]) =
        filter (\<lambda>x. \<not> p x) ys @ map ?g (drop (length (filter (\<lambda>x. \<not> p x) ys)) ys)"
    proof (rule Suc.hyps(1))
      have r: "length (filter (\<lambda>x. \<not> p x) (take i ys)) = result" using Suc.prems(3) by simp
      have l: "i = Suc (result + length (map ?g (drop (Suc result) (take i ys))))"
        using Suc.prems(2) i by simp
      have "xs = filter (\<lambda>x. \<not> p x) (take i ys) @ ?g (ys ! result) #
          map ?g (drop (Suc result) (take i ys)) @ ys ! i # drop (Suc i) ys"
        using Suc.prems(4) hd dr by simp
      then have "xs[result := ys ! i, i := mv (ys ! i)] = filter (\<lambda>x. \<not> p x) (take i ys) @ ys ! i #
          map ?g (drop (Suc result) (take i ys)) @ mv (ys ! i) # drop (Suc i) ys"
        using two_updates [OF r l] by (simp only:)
      then show "xs[result := ys ! i, i := mv (ys ! i)] = filter (\<lambda>x. \<not> p x) (take (Suc i) ys) @
          map ?g (drop (Suc result) (take (Suc i) ys)) @ drop (Suc i) ys"
        using False Suc.prems(2) i by (simp add: tk)
    qed (use Suc i False tk in simp_all)
    with i len at False show ?thesis by (subst remove_if_from.simps) simp
  qed
qed

lemma std_remove_if_closed:
  "std_remove_if p mv xs = filter (\<lambda>x. \<not> p x) xs @
     map (\<lambda>x. if p x then x else mv x) (drop (length (filter (\<lambda>x. \<not> p x) xs)) xs)"
proof (cases "\<exists>x \<in> set xs. p x")
  case False
  then have k: "filter (\<lambda>x. \<not> p x) xs = xs" and t: "length (takeWhile (\<lambda>x. \<not> p x) xs) = length xs"
    by (auto simp: filter_id_conv takeWhile_eq_all_conv [THEN iffD2])
  have "std_remove_if p mv xs = xs" unfolding std_remove_if_def Let_def t by simp
  then show ?thesis by (simp add: k)
next
  case True
  let ?f = "length (takeWhile (\<lambda>x. \<not> p x) xs)"
  have f: "?f < length xs"
    using True by (metis length_takeWhile_le le_neq_implies_less set_takeWhileD
        takeWhile_eq_take take_all_iff order_refl)
  then have pf: "p (xs ! ?f)" using nth_length_takeWhile by blast
  have tk: "take (Suc ?f) xs = takeWhile (\<lambda>x. \<not> p x) xs @ [xs ! ?f]"
    using f by (simp add: take_Suc_conv_app_nth flip: takeWhile_eq_take)
  have fl: "filter (\<lambda>x. \<not> p x) (take (Suc ?f) xs) = takeWhile (\<lambda>x. \<not> p x) xs"
    using pf by (simp add: tk filter_id_conv) (metis set_takeWhileD)
  show ?thesis
    using f unfolding std_remove_if_def Let_def
    by (simp, intro remove_if_from_closed)
      (use f pf in \<open>simp_all add: fl\<close>, simp add: tk Cons_nth_drop_Suc flip: takeWhile_eq_take dropWhile_eq_drop)
qed

text \<open>For elements that survive a move, what follows the kept elements is the old tail.\<close>

lemma std_remove_if_copy:
  "std_remove_if p (\<lambda>x. x) xs = filter (\<lambda>x. \<not> p x) xs @
     drop (length (filter (\<lambda>x. \<not> p x) xs)) xs"
  by (simp add: std_remove_if_closed)

lemma length_std_remove_if [simp]: "length (std_remove_if p mv xs) = length xs"
  by (simp add: std_remove_if_closed)

section \<open>Loops that may not end\<close>

text \<open>
  \<^verbatim>\<open>do { body } while(!done)\<close>, where the body, in its \<open>k\<close>-th round, gives \<open>done\<close> and the next
  state. A loop that never ends is \<open>None\<close>; a fault in the body ends it.
\<close>

partial_function (option) do_until ::
  "(nat \<Rightarrow> 's \<Rightarrow> (bool \<times> 's) res) \<Rightarrow> nat \<Rightarrow> 's \<Rightarrow> 's res option" where
  "do_until body k s =
     (case body k s of
        Inl e \<Rightarrow> Some (Inl e)
      | Inr r \<Rightarrow> if fst r then Some (Inr (snd r)) else do_until body (Suc k) (snd r))"

text \<open>The same loop for at most \<open>n\<close> rounds.\<close>

fun until_fuel ::
  "nat \<Rightarrow> (nat \<Rightarrow> 's \<Rightarrow> (bool \<times> 's) res) \<Rightarrow> nat \<Rightarrow> 's \<Rightarrow> 's res option" where
  "until_fuel 0 body k s = None"
| "until_fuel (Suc n) body k s =
     (case body k s of
        Inl e \<Rightarrow> Some (Inl e)
      | Inr r \<Rightarrow> if fst r then Some (Inr (snd r)) else until_fuel n body (Suc k) (snd r))"

lemma do_until_rounds:
  "body k s = Inl e \<Longrightarrow> do_until body k s = Some (Inl e)"
  "body k s = Inr (True, s') \<Longrightarrow> do_until body k s = Some (Inr s')"
  "body k s = Inr (False, s') \<Longrightarrow> do_until body k s = do_until body (Suc k) s'"
  by (simp_all add: do_until.simps [of body k s])

lemma until_fuel_sound: "until_fuel n body k s = Some r \<Longrightarrow> do_until body k s = Some r"
  by (induction n body k s rule: until_fuel.induct)
    (auto simp: do_until_rounds split: sum.splits if_splits)

lemma until_fuel_mono:
  "until_fuel n body k s = Some r \<Longrightarrow> n \<le> n' \<Longrightarrow> until_fuel n' body k s = Some r"
proof (induction n body k s arbitrary: n' rule: until_fuel.induct)
  case (2 n body k s)
  from 2(3) obtain d where "n' = Suc d" "n \<le> d" by (cases n') auto
  with 2(1,2) show ?case by (auto split: sum.splits if_splits)
qed simp

lemma until_fuel_None: "do_until body k s = None \<Longrightarrow> until_fuel n body k s = None"
  using until_fuel_sound [of n body k s] by (cases "until_fuel n body k s") auto

text \<open>A state from which every round leads to another such state is left by no round.\<close>

lemma do_until_stuck:
  assumes "\<And>k s. stuck s \<Longrightarrow> \<exists>s'. body k s = Inr (False, s') \<and> stuck s'" and "stuck s"
  shows "do_until body k s = None"
proof -
  have "b = body \<longrightarrow> \<not> stuck s" if "do_until b k s = Some r" for b k s r
  proof (rule do_until.raw_induct [where P = "\<lambda>b k s r. b = body \<longrightarrow> \<not> stuck s", OF _ that],
      intro impI notI)
    fix f b k s r
    assume IH: "\<And>b k s r. f b k s = Some r \<Longrightarrow> b = body \<longrightarrow> \<not> stuck s"
      and r: "(case b k s of Inl e \<Rightarrow> Some (Inl e)
        | Inr r \<Rightarrow> if fst r then Some (Inr (snd r)) else f b (Suc k) (snd r)) = Some r"
      and b: "b = body" and "stuck s"
    then obtain s' where "body k s = Inr (False, s')" "stuck s'" using assms(1) by blast
    with r b IH [of b "Suc k" s' r] show False by simp
  qed
  with assms(2) show ?thesis by (cases "do_until body k s") auto
qed

text \<open>An invariant of the rounds: the loop has no fault, and holds it at its end.\<close>

lemma do_until_inv:
  assumes "\<And>k s. keep s \<Longrightarrow> \<exists>d s'. body k s = Inr (d, s') \<and> keep s'" and "keep s"
    and "do_until body k s = Some r"
  shows "\<exists>s'. r = Inr s' \<and> keep s'"
proof -
  have "b = body \<longrightarrow> keep s \<longrightarrow> (\<exists>s'. r = Inr s' \<and> keep s')" if "do_until b k s = Some r" for b k s r
  proof (rule do_until.raw_induct [where P = "\<lambda>b k s r. b = body \<longrightarrow> keep s \<longrightarrow>
      (\<exists>s'. r = Inr s' \<and> keep s')", OF _ that], intro impI)
    fix f b k s r
    assume IH: "\<And>b k s r. f b k s = Some r \<Longrightarrow> b = body \<longrightarrow> keep s \<longrightarrow> (\<exists>s'. r = Inr s' \<and> keep s')"
      and r: "(case b k s of Inl e \<Rightarrow> Some (Inl e)
        | Inr r \<Rightarrow> if fst r then Some (Inr (snd r)) else f b (Suc k) (snd r)) = Some r"
      and b: "b = body" and "keep s"
    then obtain d s' where "body k s = Inr (d, s')" "keep s'" using assms(1) by blast
    with r b IH [of b "Suc k" s' r] show "\<exists>s'. r = Inr s' \<and> keep s'" by (auto split: if_splits)
  qed
  with assms(2,3) show ?thesis by blast
qed

text \<open>
  Enough fuel: a loop whose rounds lower a measure, and that goes on for ever once it is zero
  and one round has not ended it, is the loop of as many rounds as the measure says and one.
\<close>

lemma do_until_bounded:
  assumes dec: "\<And>k s s'. body k s = Inr (False, s') \<Longrightarrow> 0 < m s \<Longrightarrow> m s' < m s"
    and stuck: "\<And>k s r. body k s = Inr r \<Longrightarrow> m s = 0 \<Longrightarrow> \<not> fst r \<and> stuck (snd r)"
    and going: "\<And>k s. stuck s \<Longrightarrow> \<exists>s'. body k s = Inr (False, s') \<and> stuck s'"
  shows "do_until body k s = until_fuel (Suc (m s)) body k s"
proof (induction "m s" arbitrary: k s rule: less_induct)
  case less
  show ?case
  proof (cases "body k s")
    case (Inr r)
    consider "fst r" | "\<not> fst r" "m s = 0" | "\<not> fst r" "0 < m s" by blast
    then show ?thesis
    proof cases
      case 2
      then have "do_until body (Suc k) (snd r) = None"
        using stuck [OF Inr] by (intro do_until_stuck [where stuck = stuck] going) auto
      with 2 Inr show ?thesis by (subst do_until.simps) simp
    next
      case 3
      then have "m (snd r) < m s" using dec [of k s "snd r"] Inr by (cases r) auto
      from less [OF this] have IH:
        "do_until body (Suc k) (snd r) = until_fuel (Suc (m (snd r))) body (Suc k) (snd r)" .
      have "do_until body (Suc k) (snd r) = until_fuel (m s) body (Suc k) (snd r)"
      proof (cases "do_until body (Suc k) (snd r)")
        case None
        then show ?thesis by (simp add: until_fuel_None)
      next
        case (Some x)
        with IH \<open>m (snd r) < m s\<close> show ?thesis
          using until_fuel_mono [of "Suc (m (snd r))" body "Suc k" "snd r" x "m s"] by simp
      qed
      with 3 Inr show ?thesis by (subst do_until.simps) simp
    qed (use Inr in \<open>subst do_until.simps, simp\<close>)
  qed (subst do_until.simps, simp)
qed

end
