(* ===== verification/Entries.thy ===== *)
theory Entries
  imports Prelude
begin

text \<open>
  The entry catalogue of \<^verbatim>\<open>RRegistry/include/RRegistry/Entries.hpp\<close>: the twelve registry types
  (\<^verbatim>\<open>enum class Type\<close>) and, per type, the scoped enumeration of its properties.
  Every enumeration keeps its \<^verbatim>\<open>_COUNT\<close> enumerator, and \<open>X_int\<close> is the
  \<^verbatim>\<open>static_cast\<close> of an enumerator of \<open>X\<close> to an integer.

  \<open>Type\<close> has the twelve proper enumerators; \<open>Type_of\<close> is the cast of a number to
  \<^verbatim>\<open>Type\<close>, where \<open>None\<close> stands for any value that is not one of the twelve (\<^verbatim>\<open>_COUNT\<close>
  and beyond), for which every \<^verbatim>\<open>switch\<close> of the code takes its default branch.
\<close>

section \<open>Registry types\<close>

datatype Type =
    Int8 | Int16 | Int32 | Int64
  | Uint8 | Uint16 | Uint32 | Uint64
  | Float | Double | Bool | String

fun Type_int :: "Type \<Rightarrow> nat" where
  "Type_int Int8 = 0"
| "Type_int Int16 = 1"
| "Type_int Int32 = 2"
| "Type_int Int64 = 3"
| "Type_int Uint8 = 4"
| "Type_int Uint16 = 5"
| "Type_int Uint32 = 6"
| "Type_int Uint64 = 7"
| "Type_int Float = 8"
| "Type_int Double = 9"
| "Type_int Bool = 10"
| "Type_int String = 11"

definition Type_COUNT :: nat where
  "Type_COUNT = 12"

definition all_types :: "Type list" where
  "all_types = [Int8, Int16, Int32, Int64, Uint8, Uint16, Uint32, Uint64,
     Float, Double, Bool, String]"

definition Type_of :: "nat \<Rightarrow> Type option" where
  "Type_of n = (if n < Type_COUNT then Some (all_types ! n) else None)"

lemma length_all_types [simp]: "length all_types = Type_COUNT"
  by (simp add: all_types_def Type_COUNT_def)

lemma set_all_types [simp]: "set all_types = UNIV"
proof -
  have "t \<in> set all_types" for t
    by (cases t) (simp_all add: all_types_def)
  then show ?thesis by blast
qed

lemma distinct_all_types [simp]: "distinct all_types"
  by (simp add: all_types_def)

lemma Type_int_less [simp]: "Type_int t < Type_COUNT"
  by (cases t) (simp_all add: Type_COUNT_def)

lemma all_types_nth [simp]: "all_types ! Type_int t = t"
  by (cases t) (simp_all add: all_types_def)

lemma Type_of_int [simp]: "Type_of (Type_int t) = Some t"
  by (simp add: Type_of_def)

lemma Type_int_all_types: "n < Type_COUNT \<Longrightarrow> Type_int (all_types ! n) = n"
proof -
  assume n: "n < Type_COUNT"
  have "all_types ! Type_int (all_types ! n) = all_types ! n" by simp
  with n show ?thesis
    using nth_eq_iff_index_eq [OF distinct_all_types, of "Type_int (all_types ! n)" n]
      Type_int_less [of "all_types ! n"] by simp
qed

lemma Type_of_Some_iff: "Type_of n = Some t \<longleftrightarrow> n = Type_int t"
proof
  assume "Type_of n = Some t"
  then have "n < Type_COUNT" and "all_types ! n = t"
    by (auto simp: Type_of_def split: if_splits)
  then show "n = Type_int t" by (metis Type_int_all_types)
qed simp

lemma Type_of_None_iff: "Type_of n = None \<longleftrightarrow> Type_COUNT \<le> n"
  by (simp add: Type_of_def)

lemma Type_int_inject [simp]: "Type_int s = Type_int t \<longleftrightarrow> s = t"
  by (metis Type_of_int option.inject)

text \<open>
  The types are ordered by their number, the order in which the code's loops visit
  them, and are a finite enumeration, so that statements over all types evaluate.
\<close>

instantiation Type :: linorder
begin

definition less_eq_Type :: "Type \<Rightarrow> Type \<Rightarrow> bool" where
  "less_eq_Type s t \<longleftrightarrow> Type_int s \<le> Type_int t"

definition less_Type :: "Type \<Rightarrow> Type \<Rightarrow> bool" where
  "less_Type s t \<longleftrightarrow> Type_int s < Type_int t"

instance
  by standard (auto simp: less_eq_Type_def less_Type_def)

end

instantiation Type :: enum
begin

definition enum_Type :: "Type list" where
  "enum_Type = all_types"

definition enum_all_Type :: "(Type \<Rightarrow> bool) \<Rightarrow> bool" where
  "enum_all_Type P = list_all P all_types"

definition enum_ex_Type :: "(Type \<Rightarrow> bool) \<Rightarrow> bool" where
  "enum_ex_Type P = list_ex P all_types"

instance
  by standard
    (simp_all add: enum_Type_def enum_all_Type_def enum_ex_Type_def
      list_all_iff list_ex_iff)

end

section \<open>The properties of each type\<close>

text \<open>
  \<^verbatim>\<open>typedef uint16_t EntryID\<close>; the underlying type of the scoped enumerations is
  \<^verbatim>\<open>int\<close>, so a property of the C++ interface is a 32-bit value.
\<close>

type_synonym EntryID = "16 word"
type_synonym property = "32 word"

datatype Int8 =
    Int8_COUNT

fun Int8_int :: "Int8 \<Rightarrow> nat" where
  "Int8_int Int8_COUNT = 0"

datatype Int16 =
    MVMT_STEER_DIRECTION
  | MVMT_FORWARD_VELOCITY
  | MVMT_MOTOR_PWM_FL
  | MVMT_MOTOR_PWM_FR
  | MVMT_MOTOR_PWM_RL
  | MVMT_MOTOR_PWM_RR
  | MVMT_SERVO_OUTPUT_PWM_FL
  | MVMT_SERVO_OUTPUT_PWM_FR
  | MVMT_SERVO_OUTPUT_PWM_RL
  | MVMT_SERVO_OUTPUT_PWM_RR
  | Int16_COUNT

fun Int16_int :: "Int16 \<Rightarrow> nat" where
  "Int16_int MVMT_STEER_DIRECTION = 0"
| "Int16_int MVMT_FORWARD_VELOCITY = 1"
| "Int16_int MVMT_MOTOR_PWM_FL = 2"
| "Int16_int MVMT_MOTOR_PWM_FR = 3"
| "Int16_int MVMT_MOTOR_PWM_RL = 4"
| "Int16_int MVMT_MOTOR_PWM_RR = 5"
| "Int16_int MVMT_SERVO_OUTPUT_PWM_FL = 6"
| "Int16_int MVMT_SERVO_OUTPUT_PWM_FR = 7"
| "Int16_int MVMT_SERVO_OUTPUT_PWM_RL = 8"
| "Int16_int MVMT_SERVO_OUTPUT_PWM_RR = 9"
| "Int16_int Int16_COUNT = 10"

datatype Int32 =
    GEOM_DISTANCE_ANGLE_POINT_CENTER_FL_X
  | GEOM_DISTANCE_ANGLE_POINT_CENTER_FL_Y
  | GEOM_DISTANCE_ANGLE_POINT_CENTER_FR_X
  | GEOM_DISTANCE_ANGLE_POINT_CENTER_FR_Y
  | GEOM_DISTANCE_ANGLE_POINT_CENTER_RL_X
  | GEOM_DISTANCE_ANGLE_POINT_CENTER_RL_Y
  | GEOM_DISTANCE_ANGLE_POINT_CENTER_RR_X
  | GEOM_DISTANCE_ANGLE_POINT_CENTER_RR_Y
  | Int32_COUNT

fun Int32_int :: "Int32 \<Rightarrow> nat" where
  "Int32_int GEOM_DISTANCE_ANGLE_POINT_CENTER_FL_X = 0"
| "Int32_int GEOM_DISTANCE_ANGLE_POINT_CENTER_FL_Y = 1"
| "Int32_int GEOM_DISTANCE_ANGLE_POINT_CENTER_FR_X = 2"
| "Int32_int GEOM_DISTANCE_ANGLE_POINT_CENTER_FR_Y = 3"
| "Int32_int GEOM_DISTANCE_ANGLE_POINT_CENTER_RL_X = 4"
| "Int32_int GEOM_DISTANCE_ANGLE_POINT_CENTER_RL_Y = 5"
| "Int32_int GEOM_DISTANCE_ANGLE_POINT_CENTER_RR_X = 6"
| "Int32_int GEOM_DISTANCE_ANGLE_POINT_CENTER_RR_Y = 7"
| "Int32_int Int32_COUNT = 8"

datatype Int64 =
    Int64_COUNT

fun Int64_int :: "Int64 \<Rightarrow> nat" where
  "Int64_int Int64_COUNT = 0"

datatype Uint8 =
    MVMT_MOTOR_FL_CURRENT_LEFT
  | MVMT_MOTOR_FL_CURRENT_RIGHT
  | MVMT_MOTOR_FR_CURRENT_LEFT
  | MVMT_MOTOR_FR_CURRENT_RIGHT
  | MVMT_MOTOR_RL_CURRENT_LEFT
  | MVMT_MOTOR_RL_CURRENT_RIGHT
  | MVMT_MOTOR_RR_CURRENT_LEFT
  | MVMT_MOTOR_RR_CURRENT_RIGHT
  | MVMT_SERVO_FL_POSITION
  | MVMT_SERVO_FR_POSITION
  | MVMT_SERVO_RL_POSITION
  | MVMT_SERVO_RR_POSITION
  | REGULATION_KERNEL_FREQUENCY
  | MVMT_SERVO_MAX_DELTA
  | MVMT_SERVO_MAX_VELOCITY
  | SENS_LIGHT_1
  | Uint8_COUNT

fun Uint8_int :: "Uint8 \<Rightarrow> nat" where
  "Uint8_int MVMT_MOTOR_FL_CURRENT_LEFT = 0"
| "Uint8_int MVMT_MOTOR_FL_CURRENT_RIGHT = 1"
| "Uint8_int MVMT_MOTOR_FR_CURRENT_LEFT = 2"
| "Uint8_int MVMT_MOTOR_FR_CURRENT_RIGHT = 3"
| "Uint8_int MVMT_MOTOR_RL_CURRENT_LEFT = 4"
| "Uint8_int MVMT_MOTOR_RL_CURRENT_RIGHT = 5"
| "Uint8_int MVMT_MOTOR_RR_CURRENT_LEFT = 6"
| "Uint8_int MVMT_MOTOR_RR_CURRENT_RIGHT = 7"
| "Uint8_int MVMT_SERVO_FL_POSITION = 8"
| "Uint8_int MVMT_SERVO_FR_POSITION = 9"
| "Uint8_int MVMT_SERVO_RL_POSITION = 10"
| "Uint8_int MVMT_SERVO_RR_POSITION = 11"
| "Uint8_int REGULATION_KERNEL_FREQUENCY = 12"
| "Uint8_int MVMT_SERVO_MAX_DELTA = 13"
| "Uint8_int MVMT_SERVO_MAX_VELOCITY = 14"
| "Uint8_int SENS_LIGHT_1 = 15"
| "Uint8_int Uint8_COUNT = 16"

datatype Uint16 =
    EEC_MOTORCURRENT_TO_SHUNTVOLTAGE_CALIBRATION_FL5
  | EEC_MOTORCURRENT_TO_SHUNTVOLTAGE_CALIBRATION_FR
  | EEC_MOTORCURRENT_TO_SHUNTVOLTAGE_CALIBRATION_RL
  | EEC_MOTORCURRENT_TO_SHUNTVOLTAGE_CALIBRATION_RR
  | EEC_MOTORCURRENT_TO_SHUNTVOLTAGE_CALIBRATION_FL_AUX
  | EEC_MOTORCURRENT_TO_SHUNTVOLTAGE_CALIBRATION_FR_AUX
  | EEC_MOTORCURRENT_TO_SHUNTVOLTAGE_CALIBRATION_RL_AUX
  | EEC_MOTORCURRENT_TO_SHUNTVOLTAGE_CALIBRATION_RR_AUX
  | Uint16_COUNT

fun Uint16_int :: "Uint16 \<Rightarrow> nat" where
  "Uint16_int EEC_MOTORCURRENT_TO_SHUNTVOLTAGE_CALIBRATION_FL5 = 0"
| "Uint16_int EEC_MOTORCURRENT_TO_SHUNTVOLTAGE_CALIBRATION_FR = 1"
| "Uint16_int EEC_MOTORCURRENT_TO_SHUNTVOLTAGE_CALIBRATION_RL = 2"
| "Uint16_int EEC_MOTORCURRENT_TO_SHUNTVOLTAGE_CALIBRATION_RR = 3"
| "Uint16_int EEC_MOTORCURRENT_TO_SHUNTVOLTAGE_CALIBRATION_FL_AUX = 4"
| "Uint16_int EEC_MOTORCURRENT_TO_SHUNTVOLTAGE_CALIBRATION_FR_AUX = 5"
| "Uint16_int EEC_MOTORCURRENT_TO_SHUNTVOLTAGE_CALIBRATION_RL_AUX = 6"
| "Uint16_int EEC_MOTORCURRENT_TO_SHUNTVOLTAGE_CALIBRATION_RR_AUX = 7"
| "Uint16_int Uint16_COUNT = 8"

datatype Uint32 =
    Uint32_COUNT

fun Uint32_int :: "Uint32 \<Rightarrow> nat" where
  "Uint32_int Uint32_COUNT = 0"

datatype Uint64 =
    Uint64_COUNT

fun Uint64_int :: "Uint64 \<Rightarrow> nat" where
  "Uint64_int Uint64_COUNT = 0"

datatype Float =
    MVMT_SPEED_MULTIPLIER
  | Float_COUNT

fun Float_int :: "Float \<Rightarrow> nat" where
  "Float_int MVMT_SPEED_MULTIPLIER = 0"
| "Float_int Float_COUNT = 1"

datatype Double =
    Double_COUNT

fun Double_int :: "Double \<Rightarrow> nat" where
  "Double_int Double_COUNT = 0"

datatype Bool =
    TEST_RBREAKOUT_COMMUNICATION
  | TEST_PIPE_COMMUNICATION
  | REDY_RBREAKOUT
  | MVMT_PARKBREAK
  | BRST_RBREAKOUT_MOVEMENT
  | PERS_ENABLE
  | PERS_ACTIVE
  | CTRL_RESET_SEQ_NUMBERS
  | Bool_COUNT

fun Bool_int :: "Bool \<Rightarrow> nat" where
  "Bool_int TEST_RBREAKOUT_COMMUNICATION = 0"
| "Bool_int TEST_PIPE_COMMUNICATION = 1"
| "Bool_int REDY_RBREAKOUT = 2"
| "Bool_int MVMT_PARKBREAK = 3"
| "Bool_int BRST_RBREAKOUT_MOVEMENT = 4"
| "Bool_int PERS_ENABLE = 5"
| "Bool_int PERS_ACTIVE = 6"
| "Bool_int CTRL_RESET_SEQ_NUMBERS = 7"
| "Bool_int Bool_COUNT = 8"

datatype String =
    VERS_ARDUINO_PROG
  | String_COUNT

fun String_int :: "String \<Rightarrow> nat" where
  "String_int VERS_ARDUINO_PROG = 0"
| "String_int String_COUNT = 1"

end
