(* ===== verification/TypeConverter.thy ===== *)
theory TypeConverter
  imports Entries
begin

unbundle bit_operations_syntax

text \<open>
  \<^verbatim>\<open>RRegistry/include/RRegistry/TypeConverter.hpp\<close>: the native value type of every registry
  type, the entry counts and the sizes.

  The templates of the code take a value whose static type is fixed by the entry class
  (\<^verbatim>\<open>GetValueTypeOfEntryClass<CLASS>::type\<close>). Here a value is an element of \<open>val\<close>, one
  constructor per native type, and \<open>vtype\<close> is the registry type it belongs to; the
  static typing of the code is the side condition \<open>vtype v = t\<close>. Integers are words of
  their width. A \<^verbatim>\<open>float\<close> and a \<^verbatim>\<open>double\<close> are their IEEE 754 bit patterns, so that the
  comparison \<^verbatim>\<open>==\<close> (never true for a NaN, true for the two zeros) is a function of the bits.
\<close>

section \<open>Values\<close>

datatype val =
    VInt8 "8 word" | VInt16 "16 word" | VInt32 "32 word" | VInt64 "64 word"
  | VUint8 "8 word" | VUint16 "16 word" | VUint32 "32 word" | VUint64 "64 word"
  | VFloat "32 word" | VDouble "64 word"
  | VBool bool
  | VString string

fun vtype :: "val \<Rightarrow> Type" where
  "vtype (VInt8 _) = Int8"
| "vtype (VInt16 _) = Int16"
| "vtype (VInt32 _) = Int32"
| "vtype (VInt64 _) = Int64"
| "vtype (VUint8 _) = Uint8"
| "vtype (VUint16 _) = Uint16"
| "vtype (VUint32 _) = Uint32"
| "vtype (VUint64 _) = Uint64"
| "vtype (VFloat _) = Float"
| "vtype (VDouble _) = Double"
| "vtype (VBool _) = Bool"
| "vtype (VString _) = String"

fun_cases vtype_eqE:
  "vtype v = Int8" "vtype v = Int16" "vtype v = Int32" "vtype v = Int64"
  "vtype v = Uint8" "vtype v = Uint16" "vtype v = Uint32" "vtype v = Uint64"
  "vtype v = Float" "vtype v = Double" "vtype v = Bool" "vtype v = String"

text \<open>IEEE 754 binary32 and binary64: NaN and the comparison \<^verbatim>\<open>==\<close>, on bit patterns.\<close>

definition float_is_nan :: "32 word \<Rightarrow> bool" where
  "float_is_nan x \<longleftrightarrow> x AND 0x7F800000 = 0x7F800000 \<and> x AND 0x007FFFFF \<noteq> 0"

definition double_is_nan :: "64 word \<Rightarrow> bool" where
  "double_is_nan x \<longleftrightarrow>
     x AND 0x7FF0000000000000 = 0x7FF0000000000000 \<and> x AND 0x000FFFFFFFFFFFFF \<noteq> 0"

definition float_eq :: "32 word \<Rightarrow> 32 word \<Rightarrow> bool" where
  "float_eq x y \<longleftrightarrow> \<not> float_is_nan x \<and> \<not> float_is_nan y \<and>
     (x = y \<or> x AND 0x7FFFFFFF = 0 \<and> y AND 0x7FFFFFFF = 0)"

definition double_eq :: "64 word \<Rightarrow> 64 word \<Rightarrow> bool" where
  "double_eq x y \<longleftrightarrow> \<not> double_is_nan x \<and> \<not> double_is_nan y \<and>
     (x = y \<or> x AND 0x7FFFFFFFFFFFFFFF = 0 \<and> y AND 0x7FFFFFFFFFFFFFFF = 0)"

text \<open>The comparison \<^verbatim>\<open>==\<close> of two values of the same native type.\<close>

fun val_eq :: "val \<Rightarrow> val \<Rightarrow> bool" where
  "val_eq (VFloat x) (VFloat y) = float_eq x y"
| "val_eq (VDouble x) (VDouble y) = double_eq x y"
| "val_eq v w = (v = w)"

fun is_floating :: "Type \<Rightarrow> bool" where
  "is_floating Float = True"
| "is_floating Double = True"
| "is_floating _ = False"

lemma val_eq_iff_eq: "\<not> is_floating (vtype v) \<Longrightarrow> val_eq v w \<longleftrightarrow> v = w"
  by (cases v; cases w) simp_all

lemma val_eq_vtype: "val_eq v w \<Longrightarrow> vtype v = vtype w"
  by (cases v; cases w) simp_all

lemma val_eq_sym: "val_eq v w \<Longrightarrow> val_eq w v"
  by (cases v; cases w) (auto simp: float_eq_def double_eq_def)

text \<open>Values that a program cannot tell apart with \<^verbatim>\<open>==\<close>, or that are the same.\<close>

definition alike :: "val \<Rightarrow> val \<Rightarrow> bool" where
  "alike x y \<longleftrightarrow> x = y \<or> val_eq x y"

lemma alike_refl [simp]: "alike x x"
  by (simp add: alike_def)

lemma val_eq_trans: "val_eq x y \<Longrightarrow> val_eq y z \<Longrightarrow> val_eq x z"
  by (cases x; cases y; cases z) (auto simp: float_eq_def double_eq_def)

lemma alike_trans [trans]: "alike x y \<Longrightarrow> alike y z \<Longrightarrow> alike x z"
  by (auto simp: alike_def intro: val_eq_trans)

text \<open>A value that compares equal to itself: everything but a NaN.\<close>

fun is_nan :: "val \<Rightarrow> bool" where
  "is_nan (VFloat x) = float_is_nan x"
| "is_nan (VDouble x) = double_is_nan x"
| "is_nan _ = False"

lemma val_eq_refl_iff: "val_eq v v \<longleftrightarrow> \<not> is_nan v"
  by (cases v) (auto simp: float_eq_def double_eq_def)

text \<open>
  The order of the native types: signed and unsigned integers, \<^verbatim>\<open>false < true\<close>, and the
  IEEE order of floating point numbers, where a set sign bit reverses the magnitude.
\<close>

fun val_key :: "val \<Rightarrow> int" where
  "val_key (VInt8 x) = sint x"
| "val_key (VInt16 x) = sint x"
| "val_key (VInt32 x) = sint x"
| "val_key (VInt64 x) = sint x"
| "val_key (VUint8 x) = uint x"
| "val_key (VUint16 x) = uint x"
| "val_key (VUint32 x) = uint x"
| "val_key (VUint64 x) = uint x"
| "val_key (VFloat x) = (if bit x 31 then - uint (x AND 0x7FFFFFFF) else uint x)"
| "val_key (VDouble x) = (if bit x 63 then - uint (x AND 0x7FFFFFFFFFFFFFFF) else uint x)"
| "val_key (VBool b) = of_bool b"
| "val_key (VString _) = 0"

definition val_le :: "val \<Rightarrow> val \<Rightarrow> bool" where
  "val_le v w \<longleftrightarrow> vtype v = vtype w \<and> vtype v \<noteq> String \<and> \<not> is_nan v \<and> \<not> is_nan w \<and>
     val_key v \<le> val_key w"

section \<open>The entry class of a property\<close>

text \<open>
  A property of any class: \<open>GetEnumTypeOfEntryClass\<close> is the compile-time map from the class
  to its \<open>Type\<close>, \<open>entry_int\<close> the cast of the enumerator to its number.
\<close>

datatype entry_class =
    EInt8 Entries.Int8 | EInt16 Entries.Int16 | EInt32 Entries.Int32 | EInt64 Entries.Int64
  | EUint8 Entries.Uint8 | EUint16 Entries.Uint16
  | EUint32 Entries.Uint32 | EUint64 Entries.Uint64
  | EFloat Entries.Float | EDouble Entries.Double
  | EBool Entries.Bool | EString Entries.String

fun GetEnumTypeOfEntryClass :: "entry_class \<Rightarrow> Type" where
  "GetEnumTypeOfEntryClass (EInt8 _) = Int8"
| "GetEnumTypeOfEntryClass (EInt16 _) = Int16"
| "GetEnumTypeOfEntryClass (EInt32 _) = Int32"
| "GetEnumTypeOfEntryClass (EInt64 _) = Int64"
| "GetEnumTypeOfEntryClass (EUint8 _) = Uint8"
| "GetEnumTypeOfEntryClass (EUint16 _) = Uint16"
| "GetEnumTypeOfEntryClass (EUint32 _) = Uint32"
| "GetEnumTypeOfEntryClass (EUint64 _) = Uint64"
| "GetEnumTypeOfEntryClass (EFloat _) = Float"
| "GetEnumTypeOfEntryClass (EDouble _) = Double"
| "GetEnumTypeOfEntryClass (EBool _) = Bool"
| "GetEnumTypeOfEntryClass (EString _) = String"

fun entry_int :: "entry_class \<Rightarrow> nat" where
  "entry_int (EInt8 e) = Int8_int e"
| "entry_int (EInt16 e) = Int16_int e"
| "entry_int (EInt32 e) = Int32_int e"
| "entry_int (EInt64 e) = Int64_int e"
| "entry_int (EUint8 e) = Uint8_int e"
| "entry_int (EUint16 e) = Uint16_int e"
| "entry_int (EUint32 e) = Uint32_int e"
| "entry_int (EUint64 e) = Uint64_int e"
| "entry_int (EFloat e) = Float_int e"
| "entry_int (EDouble e) = Double_int e"
| "entry_int (EBool e) = Bool_int e"
| "entry_int (EString e) = String_int e"

section \<open>The lists of types that the macros go through\<close>

definition CPPTYPELIST_INCLUDE_STRING :: "Type list" where
  "CPPTYPELIST_INCLUDE_STRING = [Int8, Int16, Int32, Int64, Uint8, Uint16, Uint32, Uint64,
     Float, Double, Bool, String]"

definition CPPTYPELIST :: "Type list" where
  "CPPTYPELIST = [Int8, Int16, Int32, Int64, Uint8, Uint16, Uint32, Uint64, Float, Double, Bool]"

lemma CPPTYPELIST_INCLUDE_STRING_eq: "CPPTYPELIST_INCLUDE_STRING = all_types"
  by (simp add: CPPTYPELIST_INCLUDE_STRING_def all_types_def)

lemma set_CPPTYPELIST [simp]: "t \<in> set CPPTYPELIST \<longleftrightarrow> t \<noteq> String"
  by (cases t) (simp_all add: CPPTYPELIST_def)

section \<open>Entry counts and sizes\<close>

definition GetEntryCountTypes :: "nat list" where
  "GetEntryCountTypes =
     [Int8_int Int8_COUNT, Int16_int Int16_COUNT, Int32_int Int32_COUNT,
      Int64_int Int64_COUNT, Uint8_int Uint8_COUNT, Uint16_int Uint16_COUNT,
      Uint32_int Uint32_COUNT, Uint64_int Uint64_COUNT, Float_int Float_COUNT,
      Double_int Double_COUNT, Bool_int Bool_COUNT, String_int String_COUNT]"

definition GetEntryCount :: "Type \<Rightarrow> nat" where
  "GetEntryCount t = GetEntryCountTypes ! Type_int t"

text \<open>The same table read at any number, as code that computes the type's number does.\<close>

definition GetEntryCount_at :: "nat \<Rightarrow> nat res" where
  "GetEntryCount_at n = vec_at GetEntryCountTypes n"

fun GetSizeOfType :: "Type \<Rightarrow> nat" where
  "GetSizeOfType Int8 = 1"
| "GetSizeOfType Int16 = 2"
| "GetSizeOfType Int32 = 4"
| "GetSizeOfType Int64 = 8"
| "GetSizeOfType Uint8 = 1"
| "GetSizeOfType Uint16 = 2"
| "GetSizeOfType Uint32 = 4"
| "GetSizeOfType Uint64 = 8"
| "GetSizeOfType Float = 4"
| "GetSizeOfType Double = 8"
| "GetSizeOfType Bool = 1"
| "GetSizeOfType String = 8"

lemma length_GetEntryCountTypes [simp]: "length GetEntryCountTypes = Type_COUNT"
  by (simp add: GetEntryCountTypes_def Type_COUNT_def)

lemma GetEntryCount_simps [simp]:
  "GetEntryCount Int8 = 0" "GetEntryCount Int16 = 10" "GetEntryCount Int32 = 8"
  "GetEntryCount Int64 = 0" "GetEntryCount Uint8 = 16" "GetEntryCount Uint16 = 8"
  "GetEntryCount Uint32 = 0" "GetEntryCount Uint64 = 0" "GetEntryCount Float = 1"
  "GetEntryCount Double = 0" "GetEntryCount Bool = 8" "GetEntryCount String = 1"
  by (simp_all add: GetEntryCount_def GetEntryCountTypes_def)

lemma GetEntryCount_at_Type [simp]: "GetEntryCount_at (Type_int t) = Inr (GetEntryCount t)"
  by (simp add: GetEntryCount_at_def GetEntryCount_def)

lemma GetEntryCount_at_out [simp]: "Type_COUNT \<le> n \<Longrightarrow> GetEntryCount_at n = Inl OutOfBounds"
  by (simp add: GetEntryCount_at_def)

lemma GetEntryCount_le: "GetEntryCount t \<le> 16"
  by (cases t) simp_all

text \<open>
  The index the code computes from a property, \<^verbatim>\<open>static_cast<uint16_t>(property)\<close>: the
  low 16 bits of the 32-bit enumeration value.
\<close>

definition prop_index :: "property \<Rightarrow> nat" where
  "prop_index p = unat (ucast p :: EntryID)"

definition prop_of_id :: "EntryID \<Rightarrow> property" where
  "prop_of_id i = ucast i"

definition prop_of_int :: "nat \<Rightarrow> property" where
  "prop_of_int n = word_of_nat n"

lemma prop_index_of_id [simp]: "prop_index (prop_of_id i) = unat i"
proof -
  have "ucast (ucast i :: property) = i"
    by (rule ucast_up_ucast_id) (simp add: is_up)
  then show ?thesis by (simp add: prop_index_def prop_of_id_def)
qed

lemma prop_index_of_int: "prop_index (prop_of_int n) = n mod 65536"
  by (simp add: prop_index_def prop_of_int_def unsigned_ucast_eq
      unsigned_of_nat take_bit_eq_mod mod_mod_cancel)

lemma prop_index_of_int_small [simp]: "n < 65536 \<Longrightarrow> prop_index (prop_of_int n) = n"
  by (simp add: prop_index_of_int)

lemma prop_index_less: "prop_index p < 65536"
  using unsigned_less [of "ucast p :: EntryID", where ?'a = nat]
  by (simp add: prop_index_def)

text \<open>A property of type \<open>t\<close> that the catalogue names.\<close>

definition valid_prop :: "Type \<Rightarrow> nat \<Rightarrow> bool" where
  "valid_prop t i \<longleftrightarrow> i < GetEntryCount t"

end
