(* ===== verification/SubscriptionMap.thy ===== *)
theory SubscriptionMap
  imports TypeConverter
begin

text \<open>
  \<^verbatim>\<open>RRegistry/include/RRegistry/SubscriptionMap.hpp\<close>: an array with one vector per registry
  type and one element per entry of the type.  It carries the subscriptions of an adapter
  (\<^verbatim>\<open>bool\<close>) and the sequence records of the lossy dropper.

  The locale \<open>entry_map\<close> is the interface that the map offers its clients, an element per
  catalogue entry; the registry's own value arrays offer the same interface
  (theory \<open>Registry\<close>), and the facts proved once in the locale serve both.
\<close>

section \<open>The map\<close>

type_synonym 'a SubscriptionMap = "'a list list"

text \<open>
  \<^verbatim>\<open>std::make_unique\<close> gives twelve empty vectors; the loop assigns to each as many copies
  of the default as the type has entries.
\<close>

definition InitSubscriptionMap :: "'a \<Rightarrow> 'a SubscriptionMap" where
  "InitSubscriptionMap defaultValue =
     foldl (\<lambda>m i. m[i := replicate (GetEntryCountTypes ! i) defaultValue])
       (replicate Type_COUNT []) [0..<Type_COUNT]"

definition sub_at :: "'a SubscriptionMap \<Rightarrow> nat \<Rightarrow> nat \<Rightarrow> 'a res" where
  "sub_at m ty i = bindR (vec_at m ty) (\<lambda>v. vec_at v i)"

definition sub_put :: "'a SubscriptionMap \<Rightarrow> nat \<Rightarrow> nat \<Rightarrow> 'a \<Rightarrow> 'a SubscriptionMap res" where
  "sub_put m ty i x =
     bindR (vec_at m ty) (\<lambda>v. bindR (vec_put v i x) (\<lambda>v'. vec_put m ty v'))"

text \<open>The shape every map of the code has: made by \<open>InitSubscriptionMap\<close>, never resized.\<close>

definition wf_map :: "'a SubscriptionMap \<Rightarrow> bool" where
  "wf_map m \<longleftrightarrow> map length m = GetEntryCountTypes"

lemma wf_map_length: "wf_map m \<Longrightarrow> length m = Type_COUNT"
  unfolding wf_map_def by (metis length_GetEntryCountTypes length_map)

lemma wf_map_row: "wf_map m \<Longrightarrow> length (m ! Type_int t) = GetEntryCount t"
  unfolding wf_map_def GetEntryCount_def
  by (metis Type_int_less length_GetEntryCountTypes length_map nth_map)

lemma InitSubscriptionMap_eq:
  "InitSubscriptionMap d = map (\<lambda>n. replicate n d) GetEntryCountTypes"
  by (simp add: InitSubscriptionMap_def Type_COUNT_def GetEntryCountTypes_def upt_rec
      numeral_eq_Suc)

lemma wf_InitSubscriptionMap [wf_intros, simp]: "wf_map (InitSubscriptionMap d)"
  by (simp add: wf_map_def InitSubscriptionMap_eq comp_def)

lemma sub_at_wf:
  "wf_map m \<Longrightarrow>
   sub_at m (Type_int t) i =
     (if valid_prop t i then Inr (m ! Type_int t ! i) else Inl OutOfBounds)"
  by (simp add: sub_at_def wf_map_length wf_map_row valid_prop_def)

lemma sub_put_wf:
  "wf_map m \<Longrightarrow>
   sub_put m (Type_int t) i x =
     (if valid_prop t i then Inr (m[Type_int t := (m ! Type_int t)[i := x]])
      else Inl OutOfBounds)"
  by (simp add: sub_put_def wf_map_length wf_map_row valid_prop_def)

lemma wf_map_update: "wf_map m \<Longrightarrow> wf_map (m[n := (m ! n)[i := x]])"
proof (cases "n < length m")
  case True
  then have "map length (m[n := (m ! n)[i := x]]) = map length m"
    by (simp add: map_update list_update_same_conv)
  then show "wf_map m \<Longrightarrow> ?thesis" by (simp add: wf_map_def)
qed (simp add: list_update_beyond)

lemma wf_map_map [wf_intros]: "wf_map m \<Longrightarrow> wf_map (map (map f) m)"
  by (simp add: wf_map_def comp_def)

lemma sub_put_wf_map [wf_intros]: "sub_put m ty i x = Inr m' \<Longrightarrow> wf_map m \<Longrightarrow> wf_map m'"
  by (auto simp: sub_put_def res_simps vec_at_Inr_iff vec_put_Inr_iff wf_map_update)

lemma sub_at_Init [simp]:
  "sub_at (InitSubscriptionMap d) (Type_int t) i =
     (if valid_prop t i then Inr d else Inl OutOfBounds)"
proof -
  have "InitSubscriptionMap d ! Type_int t = replicate (GetEntryCount t) d"
    by (simp add: InitSubscriptionMap_eq GetEntryCount_def)
  then show ?thesis by (simp add: sub_at_wf valid_prop_def)
qed

section \<open>The interface: one element per entry\<close>

locale entry_map =
  fixes rd :: "'m \<Rightarrow> Type \<Rightarrow> nat \<Rightarrow> 'v res"
    and wr :: "'m \<Rightarrow> Type \<Rightarrow> nat \<Rightarrow> 'v \<Rightarrow> 'm res"
    and inv :: "'m \<Rightarrow> bool"
    and ok_val :: "Type \<Rightarrow> 'v \<Rightarrow> bool"
  assumes rd_ok: "inv m \<Longrightarrow> is_ok (rd m t i) \<longleftrightarrow> valid_prop t i"
    and wr_ok: "inv m \<Longrightarrow> is_ok (wr m t i v) \<longleftrightarrow> valid_prop t i"
    and rd_val: "inv m \<Longrightarrow> rd m t i = Inr v \<Longrightarrow> ok_val t v"
    and inv_wr: "inv m \<Longrightarrow> ok_val t v \<Longrightarrow> wr m t i v = Inr m' \<Longrightarrow> inv m'"
    and rd_wr: "inv m \<Longrightarrow> ok_val t v \<Longrightarrow> wr m t i v = Inr m' \<Longrightarrow>
      rd m' s j = (if s = t \<and> j = i then Inr v else rd m s j)"
begin

text \<open>The map as a partial function of the entries.\<close>

definition contents :: "'m \<Rightarrow> (Type \<times> nat) \<rightharpoonup> 'v" where
  "contents m = (\<lambda>(t, i). case rd m t i of Inr v \<Rightarrow> Some v | Inl _ \<Rightarrow> None)"

lemma contents_eq_Some [simp]: "contents m (t, i) = Some v \<longleftrightarrow> rd m t i = Inr v"
  by (simp add: contents_def split: sum.splits)

lemma dom_contents: "inv m \<Longrightarrow> dom (contents m) = {(t, i). valid_prop t i}"
  by (auto simp: dom_def simp flip: rd_ok is_ok_iff)

lemma contents_wr:
  assumes "inv m" and "ok_val t v" and "wr m t i v = Inr m'"
  shows "contents m' = (contents m)((t, i) \<mapsto> v)"
proof
  fix e :: "Type \<times> nat"
  obtain s j where "e = (s, j)" by fastforce
  then show "contents m' e = ((contents m)((t, i) \<mapsto> v)) e"
    using rd_wr [OF assms, of s j] by (auto simp: contents_def split: sum.splits)
qed

lemma rd_total: "inv m \<Longrightarrow> valid_prop t i \<Longrightarrow> \<exists>v. rd m t i = Inr v \<and> ok_val t v"
  using rd_ok rd_val is_ok_iff by metis

lemma wr_total:
  "inv m \<Longrightarrow> valid_prop t i \<Longrightarrow> ok_val t v \<Longrightarrow> \<exists>m'. wr m t i v = Inr m' \<and> inv m'"
  using wr_ok inv_wr is_ok_iff by metis

text \<open>A sequence of writes, in order: the map sees them as updates of a partial function.\<close>

fun wr_all :: "'m \<Rightarrow> (Type \<times> nat \<times> 'v) list \<Rightarrow> 'm res" where
  "wr_all m [] = Inr m"
| "wr_all m ((t, i, v) # us) = bindR (wr m t i v) (\<lambda>m'. wr_all m' us)"

lemma wr_all_contents:
  "inv m \<Longrightarrow> \<forall>(t, i, v) \<in> set us. valid_prop t i \<and> ok_val t v \<Longrightarrow>
   \<exists>m'. wr_all m us = Inr m' \<and> inv m' \<and>
     contents m' = foldl (\<lambda>f (t, i, v). f((t, i) \<mapsto> v)) (contents m) us"
proof (induction us arbitrary: m)
  case Nil
  then show ?case by simp
next
  case (Cons u us)
  obtain t i v where u: "u = (t, i, v)" by (cases u)
  with Cons.prems obtain m1 where m1: "wr m t i v = Inr m1" "inv m1" and "ok_val t v"
    using wr_total [of m t i v] by auto
  with Cons.prems(1) have "contents m1 = (contents m)((t, i) \<mapsto> v)"
    by (intro contents_wr) auto
  with Cons.IH [OF m1(2)] Cons.prems(2) u m1 show ?case by (simp del: fun_upd_apply)
qed

end

text \<open>The subscription map provides the interface, for any element type.\<close>

interpretation sub_map: entry_map
  "\<lambda>m t i. sub_at m (Type_int t) i" "\<lambda>m t i v. sub_put m (Type_int t) i v" wf_map "\<lambda>_ _. True"
proof unfold_locales
  fix m :: "'a SubscriptionMap" and t s i j v m'
  assume m: "wf_map m"
  show "is_ok (sub_at m (Type_int t) i) \<longleftrightarrow> valid_prop t i"
    and "is_ok (sub_put m (Type_int t) i v) \<longleftrightarrow> valid_prop t i"
    using m by (simp_all add: sub_at_wf sub_put_wf)
  assume put: "sub_put m (Type_int t) i v = Inr m'"
  with m show m': "wf_map m'" by (blast intro: sub_put_wf_map)
  have "valid_prop t i" and "m' = m[Type_int t := (m ! Type_int t)[i := v]]"
    using put m by (auto simp: sub_put_wf split: if_splits)
  then show "sub_at m' (Type_int s) j =
      (if s = t \<and> j = i then Inr v else sub_at m (Type_int s) j)"
    using m m' by (auto simp: sub_at_wf wf_map_length wf_map_row nth_list_update valid_prop_def)
qed simp

end
