(* ===== verification/Dropper.thy ===== *)
theory Dropper
  imports SubscriptionMap
begin

unbundle bit_operations_syntax

text \<open>
  \<^verbatim>\<open>RComm/include/RComm/LiteCommDropper.hpp\<close>: the policies an adapter asks whether a received
  update is to be dropped.  The base policy drops nothing; the lossy policy keeps the
  sequence number and the adapter of the last accepted update of every entry and drops
  what looks delayed.

  The \<^verbatim>\<open>unique_ptr\<close> to the abstract class is the datatype \<open>dropper\<close>; the call of the virtual
  method is \<open>shouldBeDropped\<close>, which returns the verdict and the policy's new state.  The
  locale \<open>dropper_policy\<close> is the contract of the virtual method.
\<close>

section \<open>The lossy policy\<close>

record EntryRecord =
  er_sequentNumber :: "16 word"
  er_adapterId :: "16 word"

definition EntryRecord_init :: "16 word \<Rightarrow> EntryRecord" where
  "EntryRecord_init i = \<lparr>er_sequentNumber = i, er_adapterId = i\<rparr>"

type_synonym records = "EntryRecord SubscriptionMap"

definition Lossy_init :: records where
  "Lossy_init = InitSubscriptionMap (EntryRecord_init 0)"

text \<open>\<^verbatim>\<open>abs(static_cast<int16_t>(seq_number) - static_cast<int16_t>(entry.sequentNumber))\<close>.\<close>

definition seq_distance :: "16 word \<Rightarrow> 16 word \<Rightarrow> int" where
  "seq_distance a b = \<bar>sint a - sint b\<bar>"

definition is_reset_entry :: "8 word \<Rightarrow> 16 word \<Rightarrow> bool" where
  "is_reset_entry ty pid \<longleftrightarrow>
     ty = word_of_nat (Type_int Bool) \<and> pid = word_of_nat (Bool_int CTRL_RESET_SEQ_NUMBERS)"

definition reset_records :: "records \<Rightarrow> records" where
  "reset_records rs = map (map (\<lambda>r. r\<lparr>er_sequentNumber := 0, er_adapterId := 0\<rparr>)) rs"

definition Lossy_shouldBeDropped ::
  "records \<Rightarrow> bool \<Rightarrow> 8 word \<Rightarrow> 16 word \<Rightarrow> 16 word \<Rightarrow> 32 word \<Rightarrow> (bool \<times> records) res" where
  "Lossy_shouldBeDropped rs reliable ty pid seq_number adapterId =
     bindR (sub_at rs (unat ty) (unat pid)) (\<lambda>entry.
       if is_reset_entry ty pid then Inr (True, reset_records rs)
       else if er_sequentNumber entry \<le> seq_number then
         bindR (sub_put rs (unat ty) (unat pid) (entry\<lparr>er_sequentNumber := seq_number\<rparr>))
           (\<lambda>rs'. Inr (False, rs'))
       else if 50 < seq_distance seq_number (er_sequentNumber entry) then
         bindR (sub_put rs (unat ty) (unat pid) (entry\<lparr>er_sequentNumber := 0\<rparr>))
           (\<lambda>rs'. Inr (False, rs'))
       else if uint (er_adapterId entry) \<noteq> sint adapterId then
         bindR (sub_put rs (unat ty) (unat pid)
             (entry\<lparr>er_adapterId := ucast adapterId, er_sequentNumber := seq_number\<rparr>))
           (\<lambda>rs'. Inr (False, rs'))
       else Inr (True, rs))"

section \<open>The policy of an adapter\<close>

datatype dropper =
    NoPolicy            \<comment> \<open>a null \<open>LiteCommDropperPolicyPtr\<close>\<close>
  | BasePolicy          \<comment> \<open>\<open>LiteCommDropperPolicy\<close>\<close>
  | LossyPolicy records \<comment> \<open>\<open>LiteCommDropperLossyPolicy\<close> with its records\<close>

definition Base_shouldBeDropped ::
  "bool \<Rightarrow> 8 word \<Rightarrow> 16 word \<Rightarrow> 16 word \<Rightarrow> 32 word \<Rightarrow> bool" where
  "Base_shouldBeDropped reliable ty pid seq_number adapterId = False"

text \<open>\<^verbatim>\<open>if(m_dropperPolicy) { if(m_dropperPolicy->shouldBeDropped(...)) ... }\<close>.\<close>

fun shouldBeDropped ::
  "dropper \<Rightarrow> bool \<Rightarrow> 8 word \<Rightarrow> 16 word \<Rightarrow> 16 word \<Rightarrow> 32 word \<Rightarrow> (bool \<times> dropper) res" where
  "shouldBeDropped NoPolicy reliable ty pid sn aid = Inr (False, NoPolicy)"
| "shouldBeDropped BasePolicy reliable ty pid sn aid =
     Inr (Base_shouldBeDropped reliable ty pid sn aid, BasePolicy)"
| "shouldBeDropped (LossyPolicy rs) reliable ty pid sn aid =
     bindR (Lossy_shouldBeDropped rs reliable ty pid sn aid) (\<lambda>(d, rs'). Inr (d, LossyPolicy rs'))"

fun wf_dropper :: "dropper \<Rightarrow> bool" where
  "wf_dropper (LossyPolicy rs) = wf_map rs"
| "wf_dropper _ = True"

section \<open>Well-formedness and totality\<close>

lemma wf_reset_records [wf_intros]: "wf_map rs \<Longrightarrow> wf_map (reset_records rs)"
  unfolding reset_records_def by (rule wf_map_map)

lemma sub_put_after_at:
  "sub_at m ty i = Inr x \<Longrightarrow> sub_put m ty i y = Inr (m[ty := (m ! ty)[i := y]])"
  by (auto simp: sub_at_def sub_put_def res_simps vec_at_Inr_iff)

text \<open>
  The decision about one entry: the verdict and the entry's new record, as a function of
  the record alone.  The policy applies it to the addressed entry and keeps the others.
\<close>

definition decide :: "EntryRecord \<Rightarrow> 16 word \<Rightarrow> 32 word \<Rightarrow> bool \<times> EntryRecord" where
  "decide e sn aid =
     (if er_sequentNumber e \<le> sn then (False, e\<lparr>er_sequentNumber := sn\<rparr>)
      else if 50 < seq_distance sn (er_sequentNumber e) then (False, e\<lparr>er_sequentNumber := 0\<rparr>)
      else if uint (er_adapterId e) \<noteq> sint aid
      then (False, e\<lparr>er_adapterId := ucast aid, er_sequentNumber := sn\<rparr>)
      else (True, e))"

lemma sub_at_unchanged: "sub_at m ty i = Inr x \<Longrightarrow> m[ty := (m ! ty)[i := x]] = m"
  by (auto simp: sub_at_def res_simps vec_at_Inr_iff)

lemma Lossy_decide:
  "sub_at rs (unat ty) (unat pid) = Inr e \<Longrightarrow>
   Lossy_shouldBeDropped rs reliable ty pid sn aid =
     Inr (if is_reset_entry ty pid then (True, reset_records rs)
          else (fst (decide e sn aid),
            rs[unat ty := (rs ! unat ty)[unat pid := snd (decide e sn aid)]]))"
  by (simp add: Lossy_shouldBeDropped_def decide_def sub_put_after_at sub_at_unchanged)

lemma Lossy_total:
  "sub_at rs (unat ty) (unat pid) = Inr e \<Longrightarrow>
   \<exists>d rs'. Lossy_shouldBeDropped rs reliable ty pid sn aid = Inr (d, rs')"
  by (drule Lossy_decide [of _ _ _ _ reliable sn aid]) (metis surj_pair)

lemma Lossy_wf [wf_intros]:
  "Lossy_shouldBeDropped rs reliable ty pid sn aid = Inr (d, rs') \<Longrightarrow> wf_map rs \<Longrightarrow> wf_map rs'"
  by (auto simp: Lossy_shouldBeDropped_def res_simps split: if_splits
      intro: wf_reset_records sub_put_wf_map)

text \<open>A dropped update leaves the records alone, unless it is the reset entry.\<close>

lemma Lossy_dropped_frame:
  "Lossy_shouldBeDropped rs reliable ty pid sn aid = Inr (True, rs') \<Longrightarrow>
   rs' = (if is_reset_entry ty pid then reset_records rs else rs)"
  by (auto simp: Lossy_shouldBeDropped_def res_simps split: if_splits)

section \<open>The contract of the virtual method\<close>

text \<open>
  What the adapter relies on: asked about an entry of the catalogue the policy answers, it
  keeps its own well-formedness, and for an entry other than the reset entry a dropped
  update changes nothing.
\<close>

locale dropper_policy =
  fixes ask :: "'d \<Rightarrow> bool \<Rightarrow> 8 word \<Rightarrow> 16 word \<Rightarrow> 16 word \<Rightarrow> 32 word \<Rightarrow> (bool \<times> 'd) res"
    and inv :: "'d \<Rightarrow> bool"
  assumes answers: "inv d \<Longrightarrow> Type_of (unat ty) = Some t \<Longrightarrow> valid_prop t (unat pid) \<Longrightarrow>
      \<exists>b d'. ask d reliable ty pid sn aid = Inr (b, d')"
    and keeps_inv: "inv d \<Longrightarrow> ask d reliable ty pid sn aid = Inr (b, d') \<Longrightarrow> inv d'"
    and drop_frame: "ask d reliable ty pid sn aid = Inr (True, d') \<Longrightarrow>
      \<not> is_reset_entry ty pid \<Longrightarrow> d' = d"
begin

text \<open>A sequence of received sequence numbers of one entry; the accepted ones are kept.\<close>

fun accepted :: "'d \<Rightarrow> 8 word \<Rightarrow> 16 word \<Rightarrow> 32 word \<Rightarrow> (bool \<times> 16 word) list \<Rightarrow>
    ((bool \<times> 16 word) list \<times> 'd) res" where
  "accepted d ty pid aid [] = Inr ([], d)"
| "accepted d ty pid aid ((r, sn) # ms) =
     bindR (ask d r ty pid sn aid) (\<lambda>(dropped, d1).
       bindR (accepted d1 ty pid aid ms) (\<lambda>(ms', d2).
         Inr (if dropped then ms' else (r, sn) # ms', d2)))"

lemma accepted_total:
  assumes "Type_of (unat ty) = Some t" and "valid_prop t (unat pid)"
  shows "inv d \<Longrightarrow> \<exists>ms' d'. accepted d ty pid aid ms = Inr (ms', d') \<and> inv d' \<and>
    set ms' \<subseteq> set ms \<and> length ms' \<le> length ms"
proof (induction ms arbitrary: d)
  case Nil
  then show ?case by simp
next
  case (Cons m ms)
  obtain r sn where m: "m = (r, sn)" by (cases m)
  obtain b d1 where ask: "ask d r ty pid sn aid = Inr (b, d1)"
    using answers [OF Cons.prems assms] by blast
  from keeps_inv [OF Cons.prems ask] Cons.IH obtain ms' d' where
    "accepted d1 ty pid aid ms = Inr (ms', d')" "inv d'" "set ms' \<subseteq> set ms"
    "length ms' \<le> length ms" by blast
  with ask m show ?case by auto
qed

end

interpretation lossy: dropper_policy Lossy_shouldBeDropped wf_map
proof unfold_locales
  show "\<exists>b rs'. Lossy_shouldBeDropped rs reliable ty pid sn aid = Inr (b, rs')"
    if "wf_map rs" and "Type_of (unat ty) = Some t" and "valid_prop t (unat pid)"
    for rs ty t pid reliable sn aid
  proof (rule Lossy_total)
    show "sub_at rs (unat ty) (unat pid) = Inr (rs ! unat ty ! unat pid)"
      using that sub_at_wf [OF that(1), of t "unat pid"] by (simp add: Type_of_Some_iff)
  qed
  show "Lossy_shouldBeDropped rs reliable ty pid sn aid = Inr (b, rs') \<Longrightarrow> wf_map rs'"
    if "wf_map rs" for rs ty pid reliable sn aid b rs'
    using that by (rule Lossy_wf [rotated])
  show "Lossy_shouldBeDropped rs reliable ty pid sn aid = Inr (True, rs') \<Longrightarrow>
      \<not> is_reset_entry ty pid \<Longrightarrow> rs' = rs" for rs reliable ty pid sn aid rs'
    by (drule Lossy_dropped_frame) simp
qed

lemma shouldBeDropped_LossyE:
  assumes "shouldBeDropped (LossyPolicy rs) reliable ty pid sn aid = Inr (b, d')"
  obtains rs' where "d' = LossyPolicy rs'"
    and "Lossy_shouldBeDropped rs reliable ty pid sn aid = Inr (b, rs')"
  using assms by (auto simp: bindR_Inr_conv)

interpretation policy: dropper_policy shouldBeDropped wf_dropper
proof unfold_locales
  show "\<exists>b d'. shouldBeDropped d reliable ty pid sn aid = Inr (b, d')"
    if "wf_dropper d" and "Type_of (unat ty) = Some t" and "valid_prop t (unat pid)"
    for d ty t pid reliable sn aid
  proof (cases d)
    case (LossyPolicy rs)
    with that lossy.answers [of rs ty t pid reliable sn aid] show ?thesis by auto
  qed auto
  show "shouldBeDropped d reliable ty pid sn aid = Inr (b, d') \<Longrightarrow> wf_dropper d'"
    if "wf_dropper d" for d ty pid reliable sn aid b d'
    using that by (cases d) (auto elim!: shouldBeDropped_LossyE simp del: shouldBeDropped.simps(3)
      dest: Lossy_wf)
  show "shouldBeDropped d reliable ty pid sn aid = Inr (True, d') \<Longrightarrow>
      \<not> is_reset_entry ty pid \<Longrightarrow> d' = d" for d reliable ty pid sn aid d'
    by (cases d) (auto elim!: shouldBeDropped_LossyE simp del: shouldBeDropped.simps(3)
      simp: Base_shouldBeDropped_def dest: lossy.drop_frame)
qed

section \<open>Properties\<close>

lemma sint_16:
  "sint (w :: 16 word) = (if unat w < 32768 then int (unat w) else int (unat w) - 65536)"
proof -
  have u: "uint w < 65536" "0 \<le> uint w"
    using unsigned_less [of w, where ?'a = int] unsigned_greater_eq [of w, where ?'a = int]
    by simp_all
  have "bit (uint w) 15 \<longleftrightarrow> 32768 \<le> uint w"
  proof (cases "uint w < 32768")
    case False
    then have "uint w div 32768 = 1"
      using u by (intro int_div_pos_eq [where r = "uint w - 32768"]) simp_all
    with False show ?thesis by (simp add: bit_iff_odd)
  qed (use u in \<open>simp add: bit_iff_odd\<close>)
  moreover have "sint w = uint w - 65536 * of_bool (bit (uint w) 15)"
    using u by (simp add: sint_uint signed_take_bit_eq_take_bit_minus take_bit_int_eq_self)
  moreover have "unat w < 32768 \<longleftrightarrow> uint w < 32768"
    using of_nat_less_iff [of "unat w" 32768, where ?'a = int] by simp
  ultimately show ?thesis by simp
qed

text \<open>The sequence numbers that the distance test calls delayed with respect to \<open>q\<close>.\<close>

definition delayed :: "16 word \<Rightarrow> 16 word \<Rightarrow> bool" where
  "delayed q s \<longleftrightarrow> unat s < unat q \<and>
     (if unat s < 32768 \<and> 32768 \<le> unat q then unat s + 65536 \<le> unat q + 50
      else unat q \<le> unat s + 50)"

lemma delayed_iff: "delayed q s \<longleftrightarrow> s < q \<and> seq_distance s q \<le> 50"
  using unsigned_less [of q, where ?'a = nat]
  by (auto simp: delayed_def seq_distance_def sint_16 word_less_nat_alt simp del: of_nat_unat)

lemma decide_drop_iff:
  "fst (decide e sn aid) \<longleftrightarrow>
   delayed (er_sequentNumber e) sn \<and> uint (er_adapterId e) = sint aid"
  by (auto simp: decide_def delayed_iff)

text \<open>The lossy policy drops an update of an entry other than the reset entry exactly
  when it comes from the adapter on record and its sequence number is at most 50 below the
  last one, in the signed 16-bit distance of the code: a distance that is measured within the
  same half of the number range, or around the wrap from 65535 to 0.\<close>

theorem Lossy_drops_iff:
  assumes "sub_at rs (unat ty) (unat pid) = Inr e" and "\<not> is_reset_entry ty pid"
  shows "(\<exists>rs'. Lossy_shouldBeDropped rs reliable ty pid sn aid = Inr (True, rs')) =
     (delayed (er_sequentNumber e) sn \<and> uint (er_adapterId e) = sint aid)"
  using assms by (auto simp: Lossy_decide simp flip: decide_drop_iff)

theorem Lossy_drops_iff_witness:
  "(\<exists>rs'. Lossy_shouldBeDropped Lossy_init False 1 1 7 0 = Inr (True, rs')) =
     (delayed (er_sequentNumber (EntryRecord_init 0)) 7 \<and>
      uint (er_adapterId (EntryRecord_init 0)) = sint (0 :: 32 word))"
proof (rule Lossy_drops_iff)
  show "sub_at Lossy_init (unat 1) (unat 1) = Inr (EntryRecord_init 0)"
    using sub_at_Init [of "EntryRecord_init 0" Int16 1] by (simp add: Lossy_init_def valid_prop_def)
  show "\<not> is_reset_entry 1 1" by (simp add: is_reset_entry_def)
qed

text \<open>The specification of a stream of one entry: keep an update unless a newer one was kept.\<close>

fun newest :: "nat \<Rightarrow> (bool \<times> 16 word) list \<Rightarrow> (bool \<times> 16 word) list" where
  "newest m [] = []"
| "newest m ((r, sn) # ms) =
     (if m \<le> unat sn then (r, sn) # newest (unat sn) ms else newest m ms)"

lemma newest_ge: "x \<in> set (newest m ms) \<Longrightarrow> m \<le> unat (snd x)"
  by (induction m ms rule: newest.induct) (fastforce split: if_splits)+

lemma newest_sorted: "sorted (map (unat \<circ> snd) (newest m ms))"
  by (induction m ms rule: newest.induct) (auto dest: newest_ge)

lemma newest_all: "sorted (m # map (unat \<circ> snd) ms) \<Longrightarrow> newest m ms = ms"
  by (induction m ms rule: newest.induct) auto

lemma sub_at_updated:
  "sub_at m ty i = Inr x \<Longrightarrow> sub_at (m[ty := (m ! ty)[i := y]]) ty i = Inr y"
  by (auto simp: sub_at_def res_simps vec_at_Inr_iff)

text \<open>
  A stream of updates of one entry goes through the entry's record only: the policy accepts
  what the decision, run over the stream, accepts.
\<close>

fun decide_run :: "EntryRecord \<Rightarrow> 32 word \<Rightarrow> (bool \<times> 16 word) list \<Rightarrow> (bool \<times> 16 word) list" where
  "decide_run e aid [] = []"
| "decide_run e aid ((r, sn) # ms) =
     (if fst (decide e sn aid) then decide_run (snd (decide e sn aid)) aid ms
      else (r, sn) # decide_run (snd (decide e sn aid)) aid ms)"

lemma Lossy_accepted_run:
  assumes "\<not> is_reset_entry ty pid" and "sub_at rs (unat ty) (unat pid) = Inr e"
  shows "\<exists>rs'. lossy.accepted rs ty pid aid ms = Inr (decide_run e aid ms, rs')"
  using assms(2)
proof (induction ms arbitrary: rs e)
  case Nil
  then show ?case by simp
next
  case (Cons m ms)
  obtain r sn where m: "m = (r, sn)" by (cases m)
  from Cons.IH [OF sub_at_updated [OF Cons.prems, of "snd (decide e sn aid)"]] m assms(1) Cons.prems
  show ?case by (auto simp: Lossy_decide)
qed

lemma decide_newer: "er_sequentNumber e \<le> sn \<Longrightarrow> decide e sn aid = (False, e\<lparr>er_sequentNumber := sn\<rparr>)"
  by (simp add: decide_def)

lemma decide_late:
  "delayed (er_sequentNumber e) sn \<Longrightarrow> uint (er_adapterId e) = sint aid \<Longrightarrow>
   decide e sn aid = (True, e)"
  using decide_drop_iff [of e sn aid] by (auto simp: decide_def split: if_splits)

lemma decide_run_in_order:
  "sorted (unat (er_sequentNumber e) # map (unat \<circ> snd) ms) \<Longrightarrow> decide_run e aid ms = ms"
  by (induction e aid ms rule: decide_run.induct) (simp_all add: decide_newer word_le_nat_alt)

lemma decide_run_newest:
  assumes "lo + 50 < 32768 \<or> 32768 \<le> lo"
  shows "uint (er_adapterId e) = sint aid \<Longrightarrow>
    \<forall>q \<in> insert (er_sequentNumber e) (snd ` set ms). lo \<le> unat q \<and> unat q \<le> lo + 50 \<Longrightarrow>
    decide_run e aid ms = newest (unat (er_sequentNumber e)) ms"
proof (induction e aid ms rule: decide_run.induct)
  case (1 e aid)
  then show ?case by simp
next
  case (2 e aid r sn ms)
  show ?case
  proof (cases "er_sequentNumber e \<le> sn")
    case True
    with "2" show ?thesis by (simp add: decide_newer word_le_nat_alt)
  next
    case False
    with "2.prems"(2) assms have "delayed (er_sequentNumber e) sn"
      by (auto simp: delayed_def word_le_nat_alt)
    with False "2" show ?thesis by (simp add: decide_late word_le_nat_alt)
  qed
qed

text \<open>Updates of an entry that arrive in the order of their sequence numbers are all
  accepted, from whatever adapter and whatever the gaps.\<close>

theorem Lossy_in_order_accepted:
  assumes "\<not> is_reset_entry ty pid" and "sub_at rs (unat ty) (unat pid) = Inr e"
    and "sorted (unat (er_sequentNumber e) # map (unat \<circ> snd) ms)"
  shows "\<exists>rs'. lossy.accepted rs ty pid aid ms = Inr (ms, rs')"
  using Lossy_accepted_run [OF assms(1,2), of aid ms] decide_run_in_order [OF assms(3)] by simp

theorem Lossy_in_order_accepted_witness:
  "\<exists>rs'. lossy.accepted Lossy_init 1 1 5 [(False, 3), (False, 3), (True, 9000)] =
     Inr ([(False, 3), (False, 3), (True, 9000)], rs')"
proof (rule Lossy_in_order_accepted)
  show "\<not> is_reset_entry 1 1" by (simp add: is_reset_entry_def)
  show "sub_at Lossy_init (unat 1) (unat 1) = Inr (EntryRecord_init 0)"
    using sub_at_Init [of "EntryRecord_init 0" Int16 1] by (simp add: Lossy_init_def valid_prop_def)
qed (simp add: EntryRecord_init_def)

text \<open>Property C24.  A stream of updates of one entry, not \<^verbatim>\<open>CTRL_RESET_SEQ_NUMBERS\<close>, is delivered as
  the specification says, if it comes from the adapter that is on record for the entry, and its
  sequence numbers and the one on record stay within 50 of each other and all on the same side
  of 32768: exactly the updates are delivered that are not older than the record or one delivered
  before, in ascending order.  Outside these conditions it is not, also for an adapter that is
  not on record (\<open>Lossy_holes\<close> below).\<close>

theorem Lossy_delivers_newest:
  assumes "\<not> is_reset_entry ty pid" and "sub_at rs (unat ty) (unat pid) = Inr e"
    and "uint (er_adapterId e) = sint aid"
    and "\<forall>q \<in> insert (er_sequentNumber e) (snd ` set ms). lo \<le> unat q \<and> unat q \<le> lo + 50"
    and "lo + 50 < 32768 \<or> 32768 \<le> lo"
  shows "\<exists>rs'. lossy.accepted rs ty pid aid ms =
       Inr (newest (unat (er_sequentNumber e)) ms, rs') \<and>
     sorted (map (unat \<circ> snd) (newest (unat (er_sequentNumber e)) ms))"
  using Lossy_accepted_run [OF assms(1,2), of aid ms] decide_run_newest [OF assms(5,3,4)]
    newest_sorted by simp

theorem Lossy_delivers_newest_witness:
  "\<exists>rs'. lossy.accepted Lossy_init 1 1 0 [(False, 20), (False, 30), (False, 25), (False, 40)] =
       Inr (newest (unat (er_sequentNumber (EntryRecord_init 0)))
         [(False, 20), (False, 30), (False, 25), (False, 40)], rs') \<and>
     sorted (map (unat \<circ> snd) (newest (unat (er_sequentNumber (EntryRecord_init 0)))
         [(False, 20), (False, 30), (False, 25), (False, 40)]))"
proof (rule Lossy_delivers_newest [where lo = 0])
  show "\<not> is_reset_entry 1 1" by (simp add: is_reset_entry_def)
  show "sub_at Lossy_init (unat 1) (unat 1) = Inr (EntryRecord_init 0)"
    using sub_at_Init [of "EntryRecord_init 0" Int16 1] by (simp add: Lossy_init_def valid_prop_def)
qed (simp_all add: EntryRecord_init_def)

text \<open>The update of \<^verbatim>\<open>Bool::CTRL_RESET_SEQ_NUMBERS\<close> is always dropped, and it puts
  the records of every entry back to their initial state.\<close>

theorem Lossy_reset:
  assumes "wf_map rs"
  shows "Lossy_shouldBeDropped rs reliable (word_of_nat (Type_int Bool))
      (word_of_nat (Bool_int CTRL_RESET_SEQ_NUMBERS)) sn aid = Inr (True, Lossy_init)"
proof -
  have "reset_records rs = Lossy_init"
  proof -
    have "(\<lambda>r :: EntryRecord. r\<lparr>er_sequentNumber := 0, er_adapterId := 0\<rparr>) =
        (\<lambda>_. EntryRecord_init 0)"
      by (rule ext, rule EntryRecord.equality) (simp_all add: EntryRecord_init_def)
    then have "reset_records rs = map (\<lambda>v. replicate v (EntryRecord_init 0)) (map length rs)"
      by (simp add: reset_records_def map_replicate_const comp_def)
    with assms show ?thesis
      by (simp add: Lossy_init_def InitSubscriptionMap_eq wf_map_def)
  qed
  moreover have "sub_at rs (Type_int Bool) 7 = Inr (rs ! Type_int Bool ! 7)"
    using assms by (subst sub_at_wf) (simp_all add: valid_prop_def)
  ultimately show ?thesis
    by (simp add: Lossy_decide is_reset_entry_def)
qed

theorem Lossy_reset_witness:
  "Lossy_shouldBeDropped Lossy_init True (word_of_nat (Type_int Bool))
      (word_of_nat (Bool_int CTRL_RESET_SEQ_NUMBERS)) 99 3 = Inr (True, Lossy_init)"
  by (rule Lossy_reset) (simp add: Lossy_init_def)

text \<open>The filter has holes.  A delayed update across the middle of the number range is
  accepted and sets the record to 0, after which any older one is accepted too; after the wrap
  from 65535 the first 50 fresh updates are dropped; and the first delayed update of an adapter
  that is not on record is accepted, although its predecessors went through the same record.\<close>

theorem Lossy_holes:
  assumes "Type_of (unat ty) = Some t" and "valid_prop t (unat pid)" and "\<not> is_reset_entry ty pid"
  shows "(\<exists>rs'. lossy.accepted
        (InitSubscriptionMap \<lparr>er_sequentNumber = 32768, er_adapterId = 0\<rparr>)
        ty pid 0 [(r, 32767), (r, 5)] = Inr ([(r, 32767), (r, 5)], rs')) \<and>
    (\<exists>rs'. lossy.accepted
        (InitSubscriptionMap \<lparr>er_sequentNumber = 65535, er_adapterId = 0\<rparr>)
        ty pid 0 (map (Pair r \<circ> word_of_nat) [0..<51]) = Inr ([(r, 50)], rs')) \<and>
    (\<exists>rs'. lossy.accepted Lossy_init ty pid 5 [(r, 30), (r, 29), (r, 28)] =
        Inr ([(r, 30), (r, 29)], rs'))"
proof -
  have at: "sub_at (InitSubscriptionMap e) (unat ty) (unat pid) = Inr e" for e :: EntryRecord
    using assms(1,2) sub_at_Init [of e t "unat pid"] by (simp add: Type_of_Some_iff)
  have run: "\<exists>rs'. lossy.accepted (InitSubscriptionMap e) ty pid aid ms =
      Inr (decide_run e aid ms, rs')" for e aid ms
    by (rule Lossy_accepted_run [OF assms(3) at])
  have "decide_run \<lparr>er_sequentNumber = 32768, er_adapterId = 0\<rparr> 0 [(r, 32767), (r, 5)] =
      [(r, 32767), (r, 5)]"
    by (simp add: decide_def seq_distance_def)
  moreover have "decide_run \<lparr>er_sequentNumber = 65535, er_adapterId = 0\<rparr> 0
      (map (Pair r \<circ> word_of_nat) [0..<51]) = [(r, 50)]"
    by (simp add: decide_def seq_distance_def upt_rec word_le_nat_alt)
  moreover have "decide_run (EntryRecord_init 0) 5 [(r, 30), (r, 29), (r, 28)] =
      [(r, 30), (r, 29)]"
    by (simp add: decide_def seq_distance_def EntryRecord_init_def)
  ultimately show ?thesis unfolding Lossy_init_def by (metis run)
qed

theorem Lossy_holes_witness:
  "(\<exists>rs'. lossy.accepted
        (InitSubscriptionMap \<lparr>er_sequentNumber = 32768, er_adapterId = 0\<rparr>)
        1 1 0 [(False, 32767), (False, 5)] = Inr ([(False, 32767), (False, 5)], rs')) \<and>
    (\<exists>rs'. lossy.accepted
        (InitSubscriptionMap \<lparr>er_sequentNumber = 65535, er_adapterId = 0\<rparr>)
        1 1 0 (map (Pair False \<circ> word_of_nat) [0..<51]) = Inr ([(False, 50)], rs')) \<and>
    (\<exists>rs'. lossy.accepted Lossy_init 1 1 5 [(False, 30), (False, 29), (False, 28)] =
        Inr ([(False, 30), (False, 29)], rs'))"
  by (rule Lossy_holes [where t = Int16])
    (simp_all add: is_reset_entry_def valid_prop_def Type_of_def Type_COUNT_def all_types_def)

end
