(* ===== verification/Reliability.thy ===== *)
theory Reliability
  imports "HOL-Library.Word"
begin

unbundle bit_operations_syntax

text \<open>
  \<^verbatim>\<open>RComm/include/RComm/LiteCommReliability.hpp\<close>: the delivery flags of a transmission, a set of
  bits in an \<^verbatim>\<open>int\<close>-sized enumeration.
\<close>

type_synonym Reliability = "32 word"

definition BasicDelivery :: Reliability where "BasicDelivery = push_bit 0 1"
definition Ordered :: Reliability where "Ordered = push_bit 1 1"
definition Acknowledged :: Reliability where "Acknowledged = push_bit 2 1"

definition reliability_or :: "Reliability \<Rightarrow> Reliability \<Rightarrow> Reliability" where
  "reliability_or a b = a OR b"

definition DefaultReliability :: Reliability where
  "DefaultReliability = BasicDelivery"

text \<open>Both flags are cut to \<^verbatim>\<open>uint8_t\<close> before the comparison.\<close>

definition reliability_contains :: "Reliability \<Rightarrow> Reliability \<Rightarrow> bool" where
  "reliability_contains hay needle \<longleftrightarrow> (ucast hay :: 8 word) AND ucast needle \<noteq> 0"

lemmas reliability_defs = BasicDelivery_def Ordered_def Acknowledged_def reliability_or_def
  DefaultReliability_def

lemma reliability_contains_or:
  "reliability_contains (reliability_or a b) c \<longleftrightarrow>
   reliability_contains a c \<or> reliability_contains b c"
proof -
  have "(ucast (a OR b) :: 8 word) AND ucast c =
      ((ucast a :: 8 word) AND ucast c) OR (ucast b AND ucast c)"
    by (simp add: unsigned_or_eq bit.conj_disj_distrib2)
  then show ?thesis
    by (simp add: reliability_contains_def reliability_or_def or_eq_0_iff)
qed

lemma reliability_contains_flags [simp]:
  "\<not> reliability_contains DefaultReliability Acknowledged"
  "\<not> reliability_contains BasicDelivery Acknowledged"
  "\<not> reliability_contains Ordered Acknowledged"
  "reliability_contains Acknowledged Acknowledged"
  by (simp_all add: reliability_contains_def reliability_defs)

end
