(* ===== verification/Adapter.thy ===== *)
theory Adapter
  imports Dropper Reliability
begin

text \<open>
  \<^verbatim>\<open>RComm/include/RComm/LiteCommAdapter.hpp\<close>: one end of a connection, as far as it does not call
  the registry (the handler of received messages is in theory \<open>LiteComm\<close>).

  The RCore library that serialises and parses messages is not part of the repository. What
  the adapter uses of it is the argument \<open>env\<close>: the result of a call on the transmit buffer
  (from the calls made before), the numbering of message types, and the decoding of received
  bytes for each native type. The transmit buffer is the sequence of the calls made on it.
  A C callback pointer is a number.
\<close>

section \<open>The environment\<close>

datatype rcore_event =
    LRT_RCORE_OK
  | LRT_RCORE_NOT_ACCEPTED
  | LRT_RCORE_NOT_SUBSCRIBED
  | LRT_RCORE_OTHER nat

datatype message_type =
    MSG_UPDATE | MSG_REQUEST | MSG_SUBSCRIBE | MSG_UNSUBSCRIBE | MSG_OTHER nat

type_synonym bytes = "8 word list"

text \<open>\<open>lrt_rcore_transmit_buffer_send_CLASS\<close> and \<open>lrt_rcore_transmit_buffer_send_ctrl\<close>.\<close>

datatype tb_call =
    TbSend "8 word" "16 word" val bool
  | TbCtrl "8 word" "16 word" message_type bool

record rcore =
  NDEBUG :: bool
  tb_result :: "tb_call list \<Rightarrow> tb_call \<Rightarrow> rcore_event"
  message_type_to_num :: "message_type \<Rightarrow> nat"
  MESSAGE_TYPE_COUNT :: nat
  Int8_from_data :: "bytes \<Rightarrow> nat \<Rightarrow> 8 word"
  Int16_from_data :: "bytes \<Rightarrow> nat \<Rightarrow> 16 word"
  Int32_from_data :: "bytes \<Rightarrow> nat \<Rightarrow> 32 word"
  Int64_from_data :: "bytes \<Rightarrow> nat \<Rightarrow> 64 word"
  Uint8_from_data :: "bytes \<Rightarrow> nat \<Rightarrow> 8 word"
  Uint16_from_data :: "bytes \<Rightarrow> nat \<Rightarrow> 16 word"
  Uint32_from_data :: "bytes \<Rightarrow> nat \<Rightarrow> 32 word"
  Uint64_from_data :: "bytes \<Rightarrow> nat \<Rightarrow> 64 word"
  Float_from_data :: "bytes \<Rightarrow> nat \<Rightarrow> 32 word"
  Double_from_data :: "bytes \<Rightarrow> nat \<Rightarrow> 64 word"
  Bool_from_data :: "bytes \<Rightarrow> nat \<Rightarrow> bool"

text \<open>
  \<^verbatim>\<open>lrt_librcp_CLASS_from_data(entry->data->s, sizeof(CLASS))\<close>; \<open>None\<close> for a string, which the
  code does not decode.
\<close>

fun decode_data :: "rcore \<Rightarrow> Type \<Rightarrow> bytes \<Rightarrow> val option" where
  "decode_data env Int8 s = Some (VInt8 (Int8_from_data env s (GetSizeOfType Int8)))"
| "decode_data env Int16 s = Some (VInt16 (Int16_from_data env s (GetSizeOfType Int16)))"
| "decode_data env Int32 s = Some (VInt32 (Int32_from_data env s (GetSizeOfType Int32)))"
| "decode_data env Int64 s = Some (VInt64 (Int64_from_data env s (GetSizeOfType Int64)))"
| "decode_data env Uint8 s = Some (VUint8 (Uint8_from_data env s (GetSizeOfType Uint8)))"
| "decode_data env Uint16 s = Some (VUint16 (Uint16_from_data env s (GetSizeOfType Uint16)))"
| "decode_data env Uint32 s = Some (VUint32 (Uint32_from_data env s (GetSizeOfType Uint32)))"
| "decode_data env Uint64 s = Some (VUint64 (Uint64_from_data env s (GetSizeOfType Uint64)))"
| "decode_data env Float s = Some (VFloat (Float_from_data env s (GetSizeOfType Float)))"
| "decode_data env Double s = Some (VDouble (Double_from_data env s (GetSizeOfType Double)))"
| "decode_data env Bool s = Some (VBool (Bool_from_data env s (GetSizeOfType Bool)))"
| "decode_data env String s = None"

text \<open>
  The code passes the size of the type and never looks at the length of the data: with fewer
  bytes than that the decoder reads past their end, and there is no value.
\<close>

definition enough_data :: "Type \<Rightarrow> bytes \<Rightarrow> bool" where
  "enough_data t s \<longleftrightarrow> GetSizeOfType t \<le> length s"

definition from_data :: "rcore \<Rightarrow> Type \<Rightarrow> bytes \<Rightarrow> val option" where
  "from_data env t s = (if enough_data t s then decode_data env t s else None)"

lemma decode_data_type: "decode_data env t s = Some v \<Longrightarrow> vtype v = t \<and> t \<noteq> String"
  by (cases t) auto

lemma decode_data_None: "decode_data env t s = None \<longleftrightarrow> t = String"
  by (cases t) auto

lemma from_data_type: "from_data env t s = Some v \<Longrightarrow> vtype v = t \<and> t \<noteq> String"
  by (auto simp: from_data_def dest: decode_data_type split: if_splits)

lemma from_data_None: "from_data env t s = None \<longleftrightarrow> t = String \<or> \<not> enough_data t s"
  by (simp add: from_data_def decode_data_None)

text \<open>A received entry of the transmit buffer.\<close>

record tb_entry =
  e_type :: "8 word"
  e_property :: "16 word"
  e_message_type :: message_type
  e_seq_number :: "16 word"
  e_reliable :: bool
  e_data :: "bytes option"

section \<open>The adapter\<close>

record adapter =
  m_registry :: bool                  \<comment> \<open>whether the \<open>shared_ptr\<close> is not null\<close>
  m_acceptProperty :: bool
  m_adapterName :: string
  m_subscriptions :: "bool SubscriptionMap"
  m_subscriptionsRemote :: "bool SubscriptionMap"
  m_adapterId :: "32 word"
  m_messageCallback :: "nat option list"
  m_dropperPolicy :: dropper
  m_transmit_buffer :: "tb_call list"
  m_currentReliability :: Reliability
  m_hadUpdate :: bool

text \<open>
  The constructor; \<open>m_currentReliability\<close> is not initialised, so its first value is an
  argument.
\<close>

definition adapter_init :: "rcore \<Rightarrow> Reliability \<Rightarrow> bool \<Rightarrow> bool \<Rightarrow> string \<Rightarrow> 32 word \<Rightarrow> adapter" where
  "adapter_init env rel0 registry subscribed name aid =
     \<lparr>m_registry = registry, m_acceptProperty = True, m_adapterName = name,
      m_subscriptions = InitSubscriptionMap subscribed,
      m_subscriptionsRemote = InitSubscriptionMap False, m_adapterId = aid,
      m_messageCallback = replicate (MESSAGE_TYPE_COUNT env) None,
      m_dropperPolicy = BasePolicy, m_transmit_buffer = [],
      m_currentReliability = rel0, m_hadUpdate = False\<rparr>"

text \<open>The callback that hands a serialised entry to the child class's \<^verbatim>\<open>send\<close>.\<close>

definition data_ready ::
  "rcore \<Rightarrow> (tb_entry option \<Rightarrow> Reliability \<Rightarrow> 'r res) \<Rightarrow> adapter \<Rightarrow> tb_entry option \<Rightarrow>
     'r res" where
  "data_ready env send a entry =
     (if \<not> NDEBUG env \<and> (case entry of None \<Rightarrow> True | Some e \<Rightarrow> e_data e = None)
      then Inl AssertFailed
      else send entry (m_currentReliability a))"

definition setDropperPolicy :: "adapter \<Rightarrow> dropper \<Rightarrow> adapter" where
  "setDropperPolicy a policy = a\<lparr>m_dropperPolicy := policy\<rparr>"

definition hadUpdate :: "adapter \<Rightarrow> bool" where
  "hadUpdate a = m_hadUpdate a"

definition resetHadUpdate :: "adapter \<Rightarrow> adapter" where
  "resetHadUpdate a = a\<lparr>m_hadUpdate := False\<rparr>"

text \<open>
  \<^verbatim>\<open>set\<close>, for every class but \<^verbatim>\<open>String\<close> the template; the specialisation for \<^verbatim>\<open>String\<close> only
  asserts \<^verbatim>\<open>false\<close>, which a release build compiles away.
\<close>

definition tb_do :: "rcore \<Rightarrow> adapter \<Rightarrow> tb_call \<Rightarrow> rcore_event \<times> adapter" where
  "tb_do env a c = (tb_result env (m_transmit_buffer a) c,
     a\<lparr>m_transmit_buffer := m_transmit_buffer a @ [c]\<rparr>)"

definition set_String :: "rcore \<Rightarrow> adapter \<Rightarrow> (rcore_event \<times> adapter) res" where
  [simp]: "set_String env a = (if NDEBUG env then Inr (LRT_RCORE_OK, a) else Inl AssertFailed)"

definition adapter_set ::
  "rcore \<Rightarrow> adapter \<Rightarrow> property \<Rightarrow> val \<Rightarrow> Reliability \<Rightarrow> (rcore_event \<times> adapter) res" where
  "adapter_set env a pid v reliability =
     (if vtype v = String then set_String env a
      else if \<not> m_acceptProperty a then Inr (LRT_RCORE_NOT_ACCEPTED, a)
      else bindR (sub_at (m_subscriptions a) (Type_int (vtype v)) (prop_index pid)) (\<lambda>subscribed.
        if \<not> subscribed then Inr (LRT_RCORE_NOT_SUBSCRIBED, a)
        else Inr (tb_do env (a\<lparr>m_currentReliability := reliability\<rparr>)
               (TbSend (word_of_nat (Type_int (vtype v))) (ucast pid) v
                  (reliability_contains reliability Acknowledged)))))"

definition sendRequestSubscribeUpdate ::
  "rcore \<Rightarrow> adapter \<Rightarrow> Type \<Rightarrow> property \<Rightarrow> message_type \<Rightarrow> Reliability \<Rightarrow> rcore_event \<times> adapter" where
  "sendRequestSubscribeUpdate env a t pid mt reliability =
     tb_do env (a\<lparr>m_currentReliability := reliability\<rparr>)
       (TbCtrl (word_of_nat (Type_int t)) (ucast pid) mt
          (reliability_contains reliability Acknowledged))"

definition request ::
  "rcore \<Rightarrow> adapter \<Rightarrow> Type \<Rightarrow> property \<Rightarrow> Reliability \<Rightarrow> rcore_event \<times> adapter" where
  "request env a t pid reliability =
     sendRequestSubscribeUpdate env a t pid MSG_REQUEST reliability"

text \<open>\<^verbatim>\<open>static_cast<std::size_t>(property)\<close>: the signed 32-bit enumeration value, extended.\<close>

definition prop_size :: "property \<Rightarrow> nat" where
  "prop_size pid = unat (scast pid :: 64 word)"

definition subscribe ::
  "rcore \<Rightarrow> adapter \<Rightarrow> Type \<Rightarrow> property \<Rightarrow> Reliability \<Rightarrow> (rcore_event \<times> adapter) res" where
  "subscribe env a t pid reliability =
     bindR (sub_put (m_subscriptionsRemote a) (Type_int t) (prop_size pid) True) (\<lambda>m.
       Inr (sendRequestSubscribeUpdate env (a\<lparr>m_subscriptionsRemote := m\<rparr>) t pid
              MSG_SUBSCRIBE reliability))"

definition unsubscribe ::
  "rcore \<Rightarrow> adapter \<Rightarrow> Type \<Rightarrow> property \<Rightarrow> Reliability \<Rightarrow> (rcore_event \<times> adapter) res" where
  "unsubscribe env a t pid reliability =
     bindR (sub_put (m_subscriptionsRemote a) (Type_int t) (prop_size pid) False) (\<lambda>m.
       Inr (sendRequestSubscribeUpdate env (a\<lparr>m_subscriptionsRemote := m\<rparr>) t pid
              MSG_UNSUBSCRIBE reliability))"

definition requestByTypeVal :: "rcore \<Rightarrow> adapter \<Rightarrow> Type option \<Rightarrow> 16 word \<Rightarrow> adapter" where
  "requestByTypeVal env a ty pid =
     (case ty of None \<Rightarrow> a
      | Some t \<Rightarrow> snd (request env a t (prop_of_id pid) DefaultReliability))"

definition subscribeByTypeVal :: "rcore \<Rightarrow> adapter \<Rightarrow> Type option \<Rightarrow> 16 word \<Rightarrow> adapter res" where
  "subscribeByTypeVal env a ty pid =
     (case ty of None \<Rightarrow> Inr a
      | Some t \<Rightarrow> bindR (subscribe env a t (prop_of_id pid) DefaultReliability) (\<lambda>r. Inr (snd r)))"

definition unsubscribeByTypeVal :: "rcore \<Rightarrow> adapter \<Rightarrow> Type option \<Rightarrow> 16 word \<Rightarrow> adapter res" where
  "unsubscribeByTypeVal env a ty pid =
     (case ty of None \<Rightarrow> Inr a
      | Some t \<Rightarrow> bindR (unsubscribe env a t (prop_of_id pid) DefaultReliability)
          (\<lambda>r. Inr (snd r)))"

definition isSubscribed :: "adapter \<Rightarrow> Type \<Rightarrow> property \<Rightarrow> bool res" where
  "isSubscribed a t pid = sub_at (m_subscriptions a) (Type_int t) (unat pid)"

definition setSubscribed :: "adapter \<Rightarrow> Type \<Rightarrow> property \<Rightarrow> bool \<Rightarrow> adapter res" where
  "setSubscribed a t pid subscribed =
     bindR (sub_put (m_subscriptions a) (Type_int t) (unat pid) subscribed) (\<lambda>m.
       Inr (a\<lparr>m_subscriptions := m\<rparr>))"

definition isSubscribedTo :: "adapter \<Rightarrow> Type \<Rightarrow> property \<Rightarrow> bool res" where
  "isSubscribedTo a t pid = sub_at (m_subscriptionsRemote a) (Type_int t) (unat pid)"

definition setMessageCallback :: "rcore \<Rightarrow> adapter \<Rightarrow> message_type \<Rightarrow> nat option \<Rightarrow> adapter res" where
  "setMessageCallback env a mt cb =
     bindR (vec_put (m_messageCallback a) (message_type_to_num env mt) cb) (\<lambda>cbs.
       Inr (a\<lparr>m_messageCallback := cbs\<rparr>))"

text \<open>A call of a message callback: the function, and the arguments it gets.\<close>

record callback_call =
  cb_function :: nat
  cb_name :: string
  cb_message_type :: message_type
  cb_type :: Type
  cb_property :: "16 word"
  cb_registry :: bool

definition callMessageCallback ::
  "rcore \<Rightarrow> adapter \<Rightarrow> message_type \<Rightarrow> Type \<Rightarrow> 16 word \<Rightarrow> callback_call list res" where
  "callMessageCallback env a mt t pid =
     bindR (vec_at (m_messageCallback a) (message_type_to_num env mt)) (\<lambda>cb.
       case cb of
         None \<Rightarrow> Inr []
       | Some f \<Rightarrow> Inr [\<lparr>cb_function = f, cb_name = m_adapterName a, cb_message_type = mt,
           cb_type = t, cb_property = pid, cb_registry = m_registry a\<rparr>])"

definition setAdapterName :: "adapter \<Rightarrow> string \<Rightarrow> adapter" where
  "setAdapterName a name = a\<lparr>m_adapterName := name\<rparr>"

definition setAdapterId :: "adapter \<Rightarrow> 32 word \<Rightarrow> adapter" where
  "setAdapterId a aid = a\<lparr>m_adapterId := aid\<rparr>"

definition adapterName :: "adapter \<Rightarrow> string" where
  "adapterName a = m_adapterName a"

definition adapterId :: "adapter \<Rightarrow> 32 word" where
  "adapterId a = m_adapterId a"

text \<open>
  \<^verbatim>\<open>for(auto type : *m_subscriptions) for(auto entry : type) entry = false;\<close>. The outer loop
  variable is a copy of the row: the assignments go to the copy, which is dropped.
\<close>

definition remoteUnsubscribeFromAll :: "adapter \<Rightarrow> adapter" where
  "remoteUnsubscribeFromAll a =
     fst (foldl (\<lambda>(a, _) row. (a, map (\<lambda>entry. False) row)) (a, []) (m_subscriptions a))"

definition setAcceptProperty :: "adapter \<Rightarrow> bool \<Rightarrow> adapter" where
  "setAcceptProperty a accept = a\<lparr>m_acceptProperty := accept\<rparr>"

text \<open>\<^verbatim>\<open>setBack\<close>: send the registry's current value; \<open>get\<close> is the registry's.\<close>

definition setBack ::
  "rcore \<Rightarrow> (Type \<Rightarrow> property \<Rightarrow> val res) \<Rightarrow> adapter \<Rightarrow> Type \<Rightarrow> property \<Rightarrow> (rcore_event \<times> adapter) res"
  where
  "setBack env get a t pid =
     (if \<not> m_registry a then Inl NullDeref
      else bindR (get t pid) (\<lambda>v. adapter_set env a pid v DefaultReliability))"

section \<open>Well-formedness\<close>

definition wf_adapter :: "rcore \<Rightarrow> adapter \<Rightarrow> bool" where
  "wf_adapter env a \<longleftrightarrow> wf_map (m_subscriptions a) \<and> wf_map (m_subscriptionsRemote a) \<and>
     wf_dropper (m_dropperPolicy a) \<and> length (m_messageCallback a) = MESSAGE_TYPE_COUNT env"

lemma wf_adapter_init [wf_intros]: "wf_adapter env (adapter_init env rel0 r s name aid)"
  by (simp add: wf_adapter_def adapter_init_def)

lemma wf_adapter_cong:
  "wf_adapter env a \<Longrightarrow> m_subscriptions b = m_subscriptions a \<Longrightarrow>
   m_subscriptionsRemote b = m_subscriptionsRemote a \<Longrightarrow> m_dropperPolicy b = m_dropperPolicy a \<Longrightarrow>
   m_messageCallback b = m_messageCallback a \<Longrightarrow> wf_adapter env b"
  by (simp add: wf_adapter_def)

text \<open>The numbers of the catalogue are small: no cast changes them.\<close>

lemma prop_small:
  assumes "valid_prop t (unat p)"
  shows "prop_index p = unat p" and "prop_size p = unat p"
proof -
  have "unat p < 16" using assms GetEntryCount_le [of t] by (simp add: valid_prop_def)
  then have "unat p \<in> set [0..<16]" by simp
  moreover have "\<forall>i \<in> set [0..<16]. prop_index (word_of_nat i) = i \<and> prop_size (word_of_nat i) = i"
    by (simp add: upt_rec prop_index_def prop_size_def)
  ultimately have "prop_index (word_of_nat (unat p)) = unat p \<and> prop_size (word_of_nat (unat p)) = unat p"
    by blast
  then show "prop_index p = unat p" and "prop_size p = unat p" by simp_all
qed

lemma prop_size_id: "valid_prop t (unat p) \<Longrightarrow> prop_size (prop_of_id p) = unat p"
proof -
  have "unat p < 2 ^ 16" using unsigned_less [of p, where ?'a = nat] by simp
  then have "unat (prop_of_id p) = unat p"
    by (simp add: prop_of_id_def unsigned_ucast_eq take_bit_nat_eq_self)
  then show "valid_prop t (unat p) \<Longrightarrow> ?thesis" using prop_small(2) [of t "prop_of_id p"] by simp
qed

section \<open>What the operations do\<close>

text \<open>Whether an entry is subscribed, for an entry of the catalogue.\<close>

definition subscribed_at :: "adapter \<Rightarrow> Type \<Rightarrow> nat \<Rightarrow> bool" where
  "subscribed_at a t i \<longleftrightarrow> sub_at (m_subscriptions a) (Type_int t) i = Inr True"

definition accepts :: "adapter \<Rightarrow> val \<Rightarrow> property \<Rightarrow> bool" where
  "accepts a v pid \<longleftrightarrow> vtype v \<noteq> String \<and> m_acceptProperty a \<and>
     subscribed_at a (vtype v) (prop_index pid)"

definition value_call :: "property \<Rightarrow> val \<Rightarrow> Reliability \<Rightarrow> tb_call" where
  "value_call pid v rel = TbSend (word_of_nat (Type_int (vtype v))) (ucast pid) v
     (reliability_contains rel Acknowledged)"

text \<open>The adapter after a \<^verbatim>\<open>set\<close>.\<close>

definition adapter_put :: "property \<Rightarrow> val \<Rightarrow> Reliability \<Rightarrow> adapter \<Rightarrow> adapter" where
  "adapter_put pid v rel a =
     (if accepts a v pid
      then a\<lparr>m_currentReliability := rel,
             m_transmit_buffer := m_transmit_buffer a @ [value_call pid v rel]\<rparr>
      else a)"

definition adapter_event :: "rcore \<Rightarrow> adapter \<Rightarrow> property \<Rightarrow> val \<Rightarrow> Reliability \<Rightarrow> rcore_event" where
  "adapter_event env a pid v rel =
     (if vtype v = String then LRT_RCORE_OK
      else if \<not> m_acceptProperty a then LRT_RCORE_NOT_ACCEPTED
      else if \<not> subscribed_at a (vtype v) (prop_index pid) then LRT_RCORE_NOT_SUBSCRIBED
      else tb_result env (m_transmit_buffer a) (value_call pid v rel))"

lemma adapter_set_eq:
  assumes "wf_map (m_subscriptions a)" and "valid_prop (vtype v) (prop_index pid)"
    and "vtype v \<noteq> String \<or> NDEBUG env"
  shows "adapter_set env a pid v rel = Inr (adapter_event env a pid v rel, adapter_put pid v rel a)"
  using assms sub_map.rd_total [OF assms(1,2)]
  by (auto simp: adapter_set_def adapter_event_def adapter_put_def accepts_def subscribed_at_def
      tb_do_def value_call_def)

lemma adapter_put_frame [simp]:
  "m_registry (adapter_put pid v rel a) = m_registry a"
  "m_acceptProperty (adapter_put pid v rel a) = m_acceptProperty a"
  "m_adapterName (adapter_put pid v rel a) = m_adapterName a"
  "m_subscriptions (adapter_put pid v rel a) = m_subscriptions a"
  "m_subscriptionsRemote (adapter_put pid v rel a) = m_subscriptionsRemote a"
  "m_adapterId (adapter_put pid v rel a) = m_adapterId a"
  "m_messageCallback (adapter_put pid v rel a) = m_messageCallback a"
  "m_dropperPolicy (adapter_put pid v rel a) = m_dropperPolicy a"
  "m_hadUpdate (adapter_put pid v rel a) = m_hadUpdate a"
  by (simp_all add: adapter_put_def)

lemma accepts_put [simp]: "accepts (adapter_put p w r a) v pid = accepts a v pid"
  by (simp add: accepts_def subscribed_at_def)

lemma wf_adapter_put [wf_intros]: "wf_adapter env a \<Longrightarrow> wf_adapter env (adapter_put pid v rel a)"
  by (erule wf_adapter_cong) simp_all

lemma transmit_buffer_put:
  "m_transmit_buffer (adapter_put pid v rel a) =
     m_transmit_buffer a @ (if accepts a v pid then [value_call pid v rel] else [])"
  by (simp add: adapter_put_def)

text \<open>\<^verbatim>\<open>set\<close> on a well-formed adapter for an entry that is no string: it hands exactly one
  value message to the transmit buffer when the adapter accepts properties and the entry is
  subscribed, and reports the buffer's result; otherwise it changes nothing and says why. The
  message carries the entry, the value and the acknowledge flag of the reliability.\<close>

theorem adapter_set_outcome:
  assumes "wf_adapter env a" and "valid_prop (vtype v) (prop_index pid)" and "vtype v \<noteq> String"
  shows "\<exists>ev a'. adapter_set env a pid v rel = Inr (ev, a') \<and>
    (if m_acceptProperty a
     then if subscribed_at a (vtype v) (prop_index pid)
          then m_transmit_buffer a' = m_transmit_buffer a @
                 [TbSend (word_of_nat (Type_int (vtype v))) (ucast pid) v
                    (rel AND Acknowledged \<noteq> 0)] \<and>
               ev = tb_result env (m_transmit_buffer a) (last (m_transmit_buffer a')) \<and>
               m_currentReliability a' = rel
          else ev = LRT_RCORE_NOT_SUBSCRIBED \<and> a' = a
     else ev = LRT_RCORE_NOT_ACCEPTED \<and> a' = a)"
proof -
  have ack: "reliability_contains rel Acknowledged \<longleftrightarrow> rel AND Acknowledged \<noteq> 0"
  proof -
    have "Acknowledged = 4" and "(ucast Acknowledged :: 8 word) = 4"
      by (simp_all add: Acknowledged_def)
    then show ?thesis
      using and_exp_eq_0_iff_not_bit [of rel 2]
        and_exp_eq_0_iff_not_bit [of "ucast rel :: 8 word" 2]
      by (simp add: reliability_contains_def bit_ucast_iff)
  qed
  show ?thesis
    using assms adapter_set_eq [of a v pid env rel]
    by (simp add: wf_adapter_def adapter_event_def adapter_put_def accepts_def value_call_def ack)
qed

text \<open>\<^verbatim>\<open>remoteUnsubscribeFromAll\<close> unsubscribes nothing: it works on copies.\<close>

theorem remoteUnsubscribeFromAll_noop: "remoteUnsubscribeFromAll a = a"
proof -
  have "fst (foldl (\<lambda>(a, _) row. (a, map (\<lambda>entry. False) row)) (b, ys) m) = b"
    for b :: adapter and ys and m :: "bool list list"
    by (induction m arbitrary: ys) simp_all
  then show ?thesis by (simp add: remoteUnsubscribeFromAll_def)
qed

text \<open>A concrete environment, for the witnesses: values travel in little-endian byte order.\<close>

definition le_nat :: "bytes \<Rightarrow> nat \<Rightarrow> nat" where
  "le_nat s n = foldr (\<lambda>b x. unat b + 256 * x) (take n s) 0"

definition example_rcore :: rcore where
  "example_rcore =
     \<lparr>NDEBUG = True, tb_result = \<lambda>_ _. LRT_RCORE_OK,
      message_type_to_num = (\<lambda>mt. case mt of MSG_UPDATE \<Rightarrow> 0 | MSG_REQUEST \<Rightarrow> 1
        | MSG_SUBSCRIBE \<Rightarrow> 2 | MSG_UNSUBSCRIBE \<Rightarrow> 3 | MSG_OTHER n \<Rightarrow> 4),
      MESSAGE_TYPE_COUNT = 5,
      Int8_from_data = \<lambda>s n. word_of_nat (le_nat s n),
      Int16_from_data = \<lambda>s n. word_of_nat (le_nat s n),
      Int32_from_data = \<lambda>s n. word_of_nat (le_nat s n),
      Int64_from_data = \<lambda>s n. word_of_nat (le_nat s n),
      Uint8_from_data = \<lambda>s n. word_of_nat (le_nat s n),
      Uint16_from_data = \<lambda>s n. word_of_nat (le_nat s n),
      Uint32_from_data = \<lambda>s n. word_of_nat (le_nat s n),
      Uint64_from_data = \<lambda>s n. word_of_nat (le_nat s n),
      Float_from_data = \<lambda>s n. word_of_nat (le_nat s n),
      Double_from_data = \<lambda>s n. word_of_nat (le_nat s n),
      Bool_from_data = \<lambda>s n. le_nat s n \<noteq> 0\<rparr>"

definition example_adapter :: adapter where
  "example_adapter = adapter_init example_rcore 0 True True ''adapter'' 1"

lemma wf_example_adapter [simp]: "wf_adapter example_rcore example_adapter"
  unfolding example_adapter_def by (rule wf_adapter_init)

theorem adapter_set_outcome_witness:
  "\<exists>ev a'. adapter_set example_rcore example_adapter 2 (VInt16 7) Acknowledged = Inr (ev, a') \<and>
    (if m_acceptProperty example_adapter
     then if subscribed_at example_adapter (vtype (VInt16 7)) (prop_index 2)
          then m_transmit_buffer a' = m_transmit_buffer example_adapter @
                 [TbSend (word_of_nat (Type_int (vtype (VInt16 7)))) (ucast (2 :: property)) (VInt16 7)
                    (Acknowledged AND Acknowledged \<noteq> 0)] \<and>
               ev = tb_result example_rcore (m_transmit_buffer example_adapter)
                 (last (m_transmit_buffer a')) \<and>
               m_currentReliability a' = Acknowledged
          else ev = LRT_RCORE_NOT_SUBSCRIBED \<and> a' = example_adapter
     else ev = LRT_RCORE_NOT_ACCEPTED \<and> a' = example_adapter)"
  by (rule adapter_set_outcome) (simp_all add: valid_prop_def prop_index_def)

end
