(* ===== verification/Detail.thy ===== *)
theory Detail
  imports TypeConverter
begin

text \<open>
  \<^verbatim>\<open>RRegistry/include/RRegistry/Detail.hpp\<close>: the traits and descriptions of the types, the
  table of every entry (name, texts, default, minimum, maximum), the lookup of entries by
  name, and the continuous numbering of all entries of all types.

  A \<^verbatim>\<open>const char*\<close> is the list of the characters before its terminator; the degree sign of
  the source is its two UTF-8 bytes.  Where a function switches over a \<^verbatim>\<open>Type\<close> with a
  default branch, its argument is a \<open>Type option\<close> and \<open>None\<close> takes the default.
\<close>

section \<open>Type traits\<close>

type_synonym TypeTraits = "32 word"

definition Trait_None :: TypeTraits where "Trait_None = 0"
definition Trait_Numeric :: TypeTraits where "Trait_Numeric = push_bit 1 1"
definition Trait_Integer :: TypeTraits where "Trait_Integer = push_bit 2 1"
definition Trait_Signed :: TypeTraits where "Trait_Signed = push_bit 3 1"
definition Trait_Unsigned :: TypeTraits where "Trait_Unsigned = push_bit 4 1"
definition Trait_Boolean :: TypeTraits where "Trait_Boolean = push_bit 5 1"
definition Trait_FloatingPoint :: TypeTraits where "Trait_FloatingPoint = push_bit 6 1"
definition Trait_String :: TypeTraits where "Trait_String = push_bit 7 1"
definition Trait_Long :: TypeTraits where "Trait_Long = push_bit 8 1"

definition traits_or :: "TypeTraits \<Rightarrow> TypeTraits \<Rightarrow> TypeTraits" where
  "traits_or a b = a OR b"

definition traits_and :: "TypeTraits \<Rightarrow> TypeTraits \<Rightarrow> bool" where
  "traits_and a b \<longleftrightarrow> a AND b \<noteq> 0"

lemmas trait_defs = Trait_None_def Trait_Numeric_def Trait_Integer_def Trait_Signed_def
  Trait_Unsigned_def Trait_Boolean_def Trait_FloatingPoint_def Trait_String_def Trait_Long_def
  traits_or_def traits_and_def

record TypeDetail_t =
  td_name :: string
  td_description :: string
  td_sqlType :: string
  td_traits :: TypeTraits
  td_type :: Type

definition TypeDetail :: "TypeDetail_t list" where
  "TypeDetail = [
    \<lparr>td_name = ''Int8'', td_description = ''8 bit wide signed integer.'', td_sqlType = ''INT'',
     td_traits = traits_or (traits_or Trait_Numeric Trait_Signed) Trait_Integer,
     td_type = Int8\<rparr>,
    \<lparr>td_name = ''Int16'', td_description = ''16 bit wide signed integer.'', td_sqlType = ''INT'',
     td_traits = traits_or (traits_or Trait_Numeric Trait_Signed) Trait_Integer,
     td_type = Int16\<rparr>,
    \<lparr>td_name = ''Int32'', td_description = ''32 bit wide signed integer.'', td_sqlType = ''INT'',
     td_traits = traits_or (traits_or Trait_Numeric Trait_Signed) Trait_Integer,
     td_type = Int32\<rparr>,
    \<lparr>td_name = ''Int64'', td_description = ''64 bit wide signed integer.'', td_sqlType = ''INT'',
     td_traits = traits_or (traits_or (traits_or Trait_Numeric Trait_Signed) Trait_Integer)
       Trait_Long,
     td_type = Int64\<rparr>,
    \<lparr>td_name = ''Uint8'', td_description = ''8 bit wide unsigned integer.'', td_sqlType = ''INT'',
     td_traits = traits_or (traits_or Trait_Numeric Trait_Unsigned) Trait_Integer,
     td_type = Uint8\<rparr>,
    \<lparr>td_name = ''Uint16'', td_description = ''16 bit wide unsigned integer.'', td_sqlType = ''INT'',
     td_traits = traits_or (traits_or Trait_Numeric Trait_Unsigned) Trait_Integer,
     td_type = Uint16\<rparr>,
    \<lparr>td_name = ''Uint32'', td_description = ''32 bit wide unsigned integer.'', td_sqlType = ''INT'',
     td_traits = traits_or (traits_or Trait_Numeric Trait_Unsigned) Trait_Integer,
     td_type = Uint32\<rparr>,
    \<lparr>td_name = ''Uint64'', td_description = ''64 bit wide unsigned integer.'', td_sqlType = ''INT'',
     td_traits = traits_or (traits_or (traits_or Trait_Numeric Trait_Unsigned) Trait_Integer)
       Trait_Long,
     td_type = Uint64\<rparr>,
    \<lparr>td_name = ''Float'', td_description = ''32 bit wide floating point number.'',
     td_sqlType = ''REAL'',
     td_traits = traits_or (traits_or Trait_Numeric Trait_FloatingPoint) Trait_Signed,
     td_type = Float\<rparr>,
    \<lparr>td_name = ''Double'', td_description = ''64 bit wide floating point number.'',
     td_sqlType = ''REAL'',
     td_traits = traits_or (traits_or Trait_Numeric Trait_FloatingPoint) Trait_Signed,
     td_type = Double\<rparr>,
    \<lparr>td_name = ''Bool'', td_description = ''Binary true/false value.'', td_sqlType = ''INT'',
     td_traits = traits_or Trait_Numeric Trait_Boolean,
     td_type = Bool\<rparr>,
    \<lparr>td_name = ''String'', td_description = ''String containing multiple letters.'',
     td_sqlType = ''TEXT'',
     td_traits = Trait_String,
     td_type = String\<rparr>]"

definition GetTypeDetail :: "Type \<Rightarrow> TypeDetail_t" where
  "GetTypeDetail t = TypeDetail ! Type_int t"

lemma length_TypeDetail [simp]: "length TypeDetail = Type_COUNT"
  by (simp add: TypeDetail_def Type_COUNT_def)

section \<open>The entry tables\<close>

record 'v EntryDetail =
  ed_name :: string
  ed_brief :: string
  ed_detailed :: string
  ed_def :: 'v
  ed_min :: 'v
  ed_max :: 'v

record EntryDetailLite =
  el_name :: string
  el_brief :: string
  el_detailed :: string

definition Int8Detail :: "(8 word) EntryDetail list" where
  "Int8Detail = []"

definition Int16Detail :: "(16 word) EntryDetail list" where
  "Int16Detail = [
    \<lparr>ed_name = ''MVMT_STEER_DIRECTION'',
     ed_brief = ''Direct steering direction.'',
     ed_detailed = '''',
     ed_def = 0, ed_min = - 32767, ed_max = 32767\<rparr>,
    \<lparr>ed_name = ''MVMT_FORWARD_VELOCITY'',
     ed_brief = ''Direct movement velocity.'',
     ed_detailed = '''',
     ed_def = 0, ed_min = - 32767, ed_max = 32767\<rparr>,
    \<lparr>ed_name = ''MVMT_MOTOR_PWM_FL'',
     ed_brief = ''Feedback value of RBreakout'',
     ed_detailed = ''This gives the operator a detailed feedback about the '' @
       ''arduino-calculated desired march speed. Note: A value of -255 does '' @
       ''NOT correspond with a pwm-value of 255, as the signal levels in '' @
       ''reverse-direction-mode have to be reversed as the other side of the '' @
       ''complementary halfbridge is now conducting.'',
     ed_def = 0, ed_min = - 255, ed_max = 255\<rparr>,
    \<lparr>ed_name = ''MVMT_MOTOR_PWM_FR'',
     ed_brief = ''Feedback value of RBreakout'',
     ed_detailed = ''This gives the operator a detailed feedback about the '' @
       ''arduino-calculated desired march speed. Note: A value of -255 does '' @
       ''NOT correspond with a pwm-value of 255, as the signal levels in '' @
       ''reverse-direction-mode have to be reversed as the other side of the '' @
       ''complementary halfbridge is now conducting.'',
     ed_def = 0, ed_min = - 255, ed_max = 255\<rparr>,
    \<lparr>ed_name = ''MVMT_MOTOR_PWM_RL'',
     ed_brief = ''Feedback value of RBreakout'',
     ed_detailed = ''This gives the operator a detailed feedback about the '' @
       ''arduino-calculated desired march speed. Note: A value of -255 does '' @
       ''NOT correspond with a pwm-value of 255, as the signal levels in '' @
       ''reverse-direction-mode have to be reversed as the other side of the '' @
       ''complementary halfbridge is now conducting.'',
     ed_def = 0, ed_min = - 255, ed_max = 255\<rparr>,
    \<lparr>ed_name = ''MVMT_MOTOR_PWM_RR'',
     ed_brief = ''Feedback value of RBreakout'',
     ed_detailed = ''This gives the operator a detailed feedback about the '' @
       ''arduino-calculated desired march speed. Note: A value of -255 does '' @
       ''NOT correspond with a pwm-value of 255, as the signal levels in '' @
       ''reverse-direction-mode have to be reversed as the other side of the '' @
       ''complementary halfbridge is now conducting.'',
     ed_def = 0, ed_min = - 255, ed_max = 255\<rparr>,
    \<lparr>ed_name = ''MVMT_SERVO_OUTPUT_PWM_FL'',
     ed_brief = ''Real PWM output of the servo routines.'',
     ed_detailed = '''',
     ed_def = 0, ed_min = - 550, ed_max = 550\<rparr>,
    \<lparr>ed_name = ''MVMT_SERVO_OUTPUT_PWM_FR'',
     ed_brief = ''Real PWM output of the servo routines.'',
     ed_detailed = '''',
     ed_def = 0, ed_min = - 550, ed_max = 550\<rparr>,
    \<lparr>ed_name = ''MVMT_SERVO_OUTPUT_PWM_RL'',
     ed_brief = ''Real PWM output of the servo routines.'',
     ed_detailed = '''',
     ed_def = 0, ed_min = - 550, ed_max = 550\<rparr>,
    \<lparr>ed_name = ''MVMT_SERVO_OUTPUT_PWM_RR'',
     ed_brief = ''Real PWM output of the servo routines.'',
     ed_detailed = '''',
     ed_def = 0, ed_min = - 550, ed_max = 550\<rparr>]"

definition Int32Detail :: "(32 word) EntryDetail list" where
  "Int32Detail = [
    \<lparr>ed_name = ''GEOM_DISTANCE_ANGLE_POINT_CENTER_FL_X'',
     ed_brief = ''Position of Servo, (top) X-Component'',
     ed_detailed = ''Distance between rover center and servo drive side axis in flat view '' @
       ''and in main moving direction, unit mm.'',
     ed_def = 350, ed_min = 1, ed_max = 5000\<rparr>,
    \<lparr>ed_name = ''GEOM_DISTANCE_ANGLE_POINT_CENTER_FL_Y'',
     ed_brief = ''Position of Servo, (top) Y-Component'',
     ed_detailed = ''Distance between rover center and servo drive side axis in flat view '' @
       ''and +90'' @ [CHR 0xC2, CHR 0xB0] @ '' to main moving direction, unit mm.'',
     ed_def = 300, ed_min = 1, ed_max = 5000\<rparr>,
    \<lparr>ed_name = ''GEOM_DISTANCE_ANGLE_POINT_CENTER_FR_X'',
     ed_brief = ''Position of Servo, (top) X-Component'',
     ed_detailed = ''Distance between rover center and servo drive side axis in flat view '' @
       ''and in main moving direction, unit mm.'',
     ed_def = 350, ed_min = 1, ed_max = 5000\<rparr>,
    \<lparr>ed_name = ''GEOM_DISTANCE_ANGLE_POINT_CENTER_FR_Y'',
     ed_brief = ''Position of Servo, (top) Y-Component'',
     ed_detailed = ''Distance between rover center and servo drive side axis in flat view '' @
       ''and +90'' @ [CHR 0xC2, CHR 0xB0] @ '' to main moving direction, unit mm.'',
     ed_def = 300, ed_min = 1, ed_max = 5000\<rparr>,
    \<lparr>ed_name = ''GEOM_DISTANCE_ANGLE_POINT_CENTER_RL_X'',
     ed_brief = ''Position of Servo, (top) X-Component'',
     ed_detailed = ''Distance between rover center and servo drive side axis in flat view '' @
       ''and in main moving direction, unit mm.'',
     ed_def = 350, ed_min = 1, ed_max = 5000\<rparr>,
    \<lparr>ed_name = ''GEOM_DISTANCE_ANGLE_POINT_CENTER_RL_Y'',
     ed_brief = ''Position of Servo, (top) Y-Component'',
     ed_detailed = ''Distance between rover center and servo drive side axis in flat view '' @
       ''and +90'' @ [CHR 0xC2, CHR 0xB0] @ '' to main moving direction, unit mm.'',
     ed_def = 300, ed_min = 1, ed_max = 5000\<rparr>,
    \<lparr>ed_name = ''GEOM_DISTANCE_ANGLE_POINT_CENTER_RR_X'',
     ed_brief = ''Position of Servo, (top) X-Component'',
     ed_detailed = ''Distance between rover center and servo drive side axis in flat view '' @
       ''and in main moving direction, unit mm.'',
     ed_def = 350, ed_min = 1, ed_max = 5000\<rparr>,
    \<lparr>ed_name = ''GEOM_DISTANCE_ANGLE_POINT_CENTER_RR_Y'',
     ed_brief = ''Position of Servo, (top) Y-Component'',
     ed_detailed = ''Distance between rover center and servo drive side axis in flat view '' @
       ''and +90'' @ [CHR 0xC2, CHR 0xB0] @ '' to main moving direction, unit mm.'',
     ed_def = 300, ed_min = 1, ed_max = 5000\<rparr>]"

definition Int64Detail :: "(64 word) EntryDetail list" where
  "Int64Detail = []"

definition Uint8Detail :: "(8 word) EntryDetail list" where
  "Uint8Detail = [
    \<lparr>ed_name = ''MVMT_MOTOR_FL_CURRENT_LEFT'',
     ed_brief = ''Measured Voltage above sensFET current shunt FL-left.'',
     ed_detailed = '''',
     ed_def = 0, ed_min = 0, ed_max = 255\<rparr>,
    \<lparr>ed_name = ''MVMT_MOTOR_FL_CURRENT_RIGHT'',
     ed_brief = ''Measured Voltage above sensFET current shunt FL-right.'',
     ed_detailed = '''',
     ed_def = 0, ed_min = 0, ed_max = 255\<rparr>,
    \<lparr>ed_name = ''MVMT_MOTOR_FR_CURRENT_LEFT'',
     ed_brief = ''Measured Voltage above sensFET current shunt FR-left.'',
     ed_detailed = '''',
     ed_def = 0, ed_min = 0, ed_max = 255\<rparr>,
    \<lparr>ed_name = ''MVMT_MOTOR_FR_CURRENT_RIGHT'',
     ed_brief = ''Measured Voltage above sensFET current shunt FR-right.'',
     ed_detailed = '''',
     ed_def = 0, ed_min = 0, ed_max = 255\<rparr>,
    \<lparr>ed_name = ''MVMT_MOTOR_RL_CURRENT_LEFT'',
     ed_brief = ''Measured Voltage above sensFET current shunt RL-left.'',
     ed_detailed = '''',
     ed_def = 0, ed_min = 0, ed_max = 255\<rparr>,
    \<lparr>ed_name = ''MVMT_MOTOR_RL_CURRENT_RIGHT'',
     ed_brief = ''Measured Voltage above sensFET current shunt RL-right.'',
     ed_detailed = '''',
     ed_def = 0, ed_min = 0, ed_max = 255\<rparr>,
    \<lparr>ed_name = ''MVMT_MOTOR_RR_CURRENT_LEFT'',
     ed_brief = ''Measured Voltage above sensFET current shunt RR-left.'',
     ed_detailed = '''',
     ed_def = 0, ed_min = 0, ed_max = 255\<rparr>,
    \<lparr>ed_name = ''MVMT_MOTOR_RR_CURRENT_RIGHT'',
     ed_brief = ''Measured Voltage above sensFET current shunt RR-right.'',
     ed_detailed = '''',
     ed_def = 0, ed_min = 0, ed_max = 255\<rparr>,
    \<lparr>ed_name = ''MVMT_SERVO_FL_POSITION'',
     ed_brief = ''PWM command for Servo control'',
     ed_detailed = ''Value zero corresponds to 1ms of pulse width, moving servo to '' @
       ''position 0'' @ [CHR 0xC2, CHR 0xB0] @ '', whereas a value of 255 moves to servo maximum angle.'',
     ed_def = 128, ed_min = 0, ed_max = 255\<rparr>,
    \<lparr>ed_name = ''MVMT_SERVO_FR_POSITION'',
     ed_brief = ''PWM command for Servo control'',
     ed_detailed = ''Value zero corresponds to 1ms of pulse width, moving servo to '' @
       ''position 0'' @ [CHR 0xC2, CHR 0xB0] @ '', whereas a value of 255 moves to servo maximum angle.'',
     ed_def = 128, ed_min = 0, ed_max = 255\<rparr>,
    \<lparr>ed_name = ''MVMT_SERVO_RL_POSITION'',
     ed_brief = ''PWM command for Servo control'',
     ed_detailed = ''Value zero corresponds to 1ms of pulse width, moving servo to '' @
       ''position 0'' @ [CHR 0xC2, CHR 0xB0] @ '', whereas a value of 255 moves to servo maximum angle.'',
     ed_def = 128, ed_min = 0, ed_max = 255\<rparr>,
    \<lparr>ed_name = ''MVMT_SERVO_RR_POSITION'',
     ed_brief = ''PWM command for Servo control'',
     ed_detailed = ''Value zero corresponds to 1ms of pulse width, moving servo to '' @
       ''position 0'' @ [CHR 0xC2, CHR 0xB0] @ '', whereas a value of 255 moves to servo maximum angle.'',
     ed_def = 128, ed_min = 0, ed_max = 255\<rparr>,
    \<lparr>ed_name = ''REGULATION_KERNEL_FREQUENCY'',
     ed_brief = ''Frequency of the Regulation Kernel in Hz.'',
     ed_detailed = ''The frequency determines, how often the main loop in the regulation '' @
       ''kernel is run through in one second. Higher frequencies generally '' @
       ''mean higher accuracy but also higher system load.'',
     ed_def = 60, ed_min = 0, ed_max = 255\<rparr>,
    \<lparr>ed_name = ''MVMT_SERVO_MAX_DELTA'',
     ed_brief = ''Maximal change for servo position in one timestep.'',
     ed_detailed = '''',
     ed_def = 5, ed_min = 1, ed_max = 30\<rparr>,
    \<lparr>ed_name = ''MVMT_SERVO_MAX_VELOCITY'',
     ed_brief = ''Maximal speed of servo position change.'',
     ed_detailed = '''',
     ed_def = 20, ed_min = 1, ed_max = 50\<rparr>,
    \<lparr>ed_name = ''SENS_LIGHT_1'',
     ed_brief = ''Light sensor 1 reading.'',
     ed_detailed = '''',
     ed_def = 0, ed_min = 0, ed_max = 255\<rparr>]"

definition Uint16Detail :: "(16 word) EntryDetail list" where
  "Uint16Detail = [
    \<lparr>ed_name = ''EEC_MOTORCURRENT_TO_SHUNTVOLTAGE_CALIBRATION_FL'',
     ed_brief = ''Ratio current through main Highside-FET to ADC-Voltage'',
     ed_detailed = ''This is a constant value, yet it has to be calibrated at first startup'',
     ed_def = 138, ed_min = 0, ed_max = 65535\<rparr>,
    \<lparr>ed_name = ''EEC_MOTORCURRENT_TO_SHUNTVOLTAGE_CALIBRATION_FR'',
     ed_brief = ''Ratio current through main Highside-FET to ADC-Voltage'',
     ed_detailed = ''This is a constant value, yet it has to be calibrated at first startup'',
     ed_def = 138, ed_min = 0, ed_max = 65535\<rparr>,
    \<lparr>ed_name = ''EEC_MOTORCURRENT_TO_SHUNTVOLTAGE_CALIBRATION_RL'',
     ed_brief = ''Ratio current through main Highside-FET to ADC-Voltage'',
     ed_detailed = ''This is a constant value, yet it has to be calibrated at first startup'',
     ed_def = 138, ed_min = 0, ed_max = 65535\<rparr>,
    \<lparr>ed_name = ''EEC_MOTORCURRENT_TO_SHUNTVOLTAGE_CALIBRATION_RR'',
     ed_brief = ''Ratio current through main Highside-FET to ADC-Voltage'',
     ed_detailed = ''This is a constant value, yet it has to be calibrated at first startup'',
     ed_def = 138, ed_min = 0, ed_max = 65535\<rparr>,
    \<lparr>ed_name = ''EEC_MOTORCURRENT_TO_SHUNTVOLTAGE_CALIBRATION_FL_AUX'',
     ed_brief = ''Ratio current through auxiliary Highside-FET to ADC-Voltage'',
     ed_detailed = ''This is a constant value, yet it has to be calibrated at first '' @
       ''startup. There may not be a butterworth filtering element'',
     ed_def = 138, ed_min = 0, ed_max = 65535\<rparr>,
    \<lparr>ed_name = ''EEC_MOTORCURRENT_TO_SHUNTVOLTAGE_CALIBRATION_FR_AUX'',
     ed_brief = ''Ratio current through auxiliary Highside-FET to ADC-Voltage'',
     ed_detailed = ''This is a constant value, yet it has to be calibrated at first '' @
       ''startup. There may not be a butterworth filtering element'',
     ed_def = 138, ed_min = 0, ed_max = 65535\<rparr>,
    \<lparr>ed_name = ''EEC_MOTORCURRENT_TO_SHUNTVOLTAGE_CALIBRATION_RL_AUX'',
     ed_brief = ''Ratio current through auxiliary Highside-FET to ADC-Voltage'',
     ed_detailed = ''This is a constant value, yet it has to be calibrated at first '' @
       ''startup. There may not be a butterworth filtering element'',
     ed_def = 138, ed_min = 0, ed_max = 65535\<rparr>,
    \<lparr>ed_name = ''EEC_MOTORCURRENT_TO_SHUNTVOLTAGE_CALIBRATION_RR_AUX'',
     ed_brief = ''Ratio current through auxiliary Highside-FET to ADC-Voltage'',
     ed_detailed = ''This is a constant value, yet it has to be calibrated at first '' @
       ''startup. There may not be a butterworth filtering element'',
     ed_def = 138, ed_min = 0, ed_max = 65535\<rparr>]"

definition Uint32Detail :: "(32 word) EntryDetail list" where
  "Uint32Detail = []"

definition Uint64Detail :: "(64 word) EntryDetail list" where
  "Uint64Detail = []"

definition FloatDetail :: "(32 word) EntryDetail list" where
  "FloatDetail = [
    \<lparr>ed_name = ''MVMT_SPEED_MULTIPLIER'',
     ed_brief = ''Factor for general movement speed.'',
     ed_detailed = '''',
     ed_def = 0x3F800000, ed_min = 0x00000000, ed_max = 0x42C80000\<rparr>]"

definition DoubleDetail :: "(64 word) EntryDetail list" where
  "DoubleDetail = []"

definition BoolDetail :: "(bool) EntryDetail list" where
  "BoolDetail = [
    \<lparr>ed_name = ''TEST_RBREAKOUT_COMMUNICATION'',
     ed_brief = ''Test the communication channel between RMaster and RBrreakout.'',
     ed_detailed = '''',
     ed_def = False, ed_min = False, ed_max = True\<rparr>,
    \<lparr>ed_name = ''TEST_PIPE_COMMUNICATION'',
     ed_brief = ''Test the communication to and from pipe connections.'',
     ed_detailed = '''',
     ed_def = False, ed_min = False, ed_max = True\<rparr>,
    \<lparr>ed_name = ''REDY_RBREAKOUT'',
     ed_brief = ''Mark RBreakout as ready, should be received from RBreakout.'',
     ed_detailed = '''',
     ed_def = False, ed_min = False, ed_max = True\<rparr>,
    \<lparr>ed_name = ''MVMT_PARKBREAK'',
     ed_brief = ''Parkbreak status'',
     ed_detailed = ''True means that all halfbridges short to ground, generating a '' @
       ''low-impedance eddy current break.'',
     ed_def = False, ed_min = False, ed_max = True\<rparr>,
    \<lparr>ed_name = ''BRST_RBREAKOUT_MOVEMENT'',
     ed_brief = ''Send movement updates as a burst package to RBReakout'',
     ed_detailed = '''',
     ed_def = False, ed_min = False, ed_max = True\<rparr>,
    \<lparr>ed_name = ''PERS_ENABLE'',
     ed_brief = ''Enable persistency policy for the registry.'',
     ed_detailed = '''',
     ed_def = False, ed_min = False, ed_max = True\<rparr>,
    \<lparr>ed_name = ''PERS_ACTIVE'',
     ed_brief = ''Marks the state (active or inactive) of the registry persistency '' @
       ''policy.'',
     ed_detailed = '''',
     ed_def = False, ed_min = False, ed_max = True\<rparr>,
    \<lparr>ed_name = ''CTRL_RESET_SEQ_NUMBERS'',
     ed_brief = ''Reset sequence numbers on all clients and hosts, so that messages can '' @
       ''be received again.'',
     ed_detailed = '''',
     ed_def = False, ed_min = False, ed_max = True\<rparr>]"

definition StringDetail :: "EntryDetailLite list" where
  "StringDetail = [
    \<lparr>el_name = ''VERS_ARDUINO_PROG'',
     el_brief = ''Arduino version (Git Hash)'',
     el_detailed = ''The Git hash of the installed version on the Arduino.''\<rparr>]"

lemmas detail_defs = Int8Detail_def Int16Detail_def Int32Detail_def Int64Detail_def
  Uint8Detail_def Uint16Detail_def Uint32Detail_def Uint64Detail_def
  FloatDetail_def DoubleDetail_def BoolDetail_def StringDetail_def

text \<open>
  The columns of the tables, selected by the type as the macros of the code select the
  table \<^verbatim>\<open>CLASS##Detail\<close>.
\<close>

fun entry_names :: "Type \<Rightarrow> string list" where
  "entry_names Int8 = map ed_name Int8Detail"
| "entry_names Int16 = map ed_name Int16Detail"
| "entry_names Int32 = map ed_name Int32Detail"
| "entry_names Int64 = map ed_name Int64Detail"
| "entry_names Uint8 = map ed_name Uint8Detail"
| "entry_names Uint16 = map ed_name Uint16Detail"
| "entry_names Uint32 = map ed_name Uint32Detail"
| "entry_names Uint64 = map ed_name Uint64Detail"
| "entry_names Float = map ed_name FloatDetail"
| "entry_names Double = map ed_name DoubleDetail"
| "entry_names Bool = map ed_name BoolDetail"
| "entry_names String = map el_name StringDetail"

fun entry_briefs :: "Type \<Rightarrow> string list" where
  "entry_briefs Int8 = map ed_brief Int8Detail"
| "entry_briefs Int16 = map ed_brief Int16Detail"
| "entry_briefs Int32 = map ed_brief Int32Detail"
| "entry_briefs Int64 = map ed_brief Int64Detail"
| "entry_briefs Uint8 = map ed_brief Uint8Detail"
| "entry_briefs Uint16 = map ed_brief Uint16Detail"
| "entry_briefs Uint32 = map ed_brief Uint32Detail"
| "entry_briefs Uint64 = map ed_brief Uint64Detail"
| "entry_briefs Float = map ed_brief FloatDetail"
| "entry_briefs Double = map ed_brief DoubleDetail"
| "entry_briefs Bool = map ed_brief BoolDetail"
| "entry_briefs String = map el_brief StringDetail"

fun entry_detailed :: "Type \<Rightarrow> string list" where
  "entry_detailed Int8 = map ed_detailed Int8Detail"
| "entry_detailed Int16 = map ed_detailed Int16Detail"
| "entry_detailed Int32 = map ed_detailed Int32Detail"
| "entry_detailed Int64 = map ed_detailed Int64Detail"
| "entry_detailed Uint8 = map ed_detailed Uint8Detail"
| "entry_detailed Uint16 = map ed_detailed Uint16Detail"
| "entry_detailed Uint32 = map ed_detailed Uint32Detail"
| "entry_detailed Uint64 = map ed_detailed Uint64Detail"
| "entry_detailed Float = map ed_detailed FloatDetail"
| "entry_detailed Double = map ed_detailed DoubleDetail"
| "entry_detailed Bool = map ed_detailed BoolDetail"
| "entry_detailed String = map el_detailed StringDetail"

text \<open>The defaults as values; strings have no default in the table.\<close>

fun entry_defaults :: "Type \<Rightarrow> val list" where
  "entry_defaults Int8 = map (VInt8 \<circ> ed_def) Int8Detail"
| "entry_defaults Int16 = map (VInt16 \<circ> ed_def) Int16Detail"
| "entry_defaults Int32 = map (VInt32 \<circ> ed_def) Int32Detail"
| "entry_defaults Int64 = map (VInt64 \<circ> ed_def) Int64Detail"
| "entry_defaults Uint8 = map (VUint8 \<circ> ed_def) Uint8Detail"
| "entry_defaults Uint16 = map (VUint16 \<circ> ed_def) Uint16Detail"
| "entry_defaults Uint32 = map (VUint32 \<circ> ed_def) Uint32Detail"
| "entry_defaults Uint64 = map (VUint64 \<circ> ed_def) Uint64Detail"
| "entry_defaults Float = map (VFloat \<circ> ed_def) FloatDetail"
| "entry_defaults Double = map (VDouble \<circ> ed_def) DoubleDetail"
| "entry_defaults Bool = map (VBool \<circ> ed_def) BoolDetail"
| "entry_defaults String = []"

lemma length_entry_names [simp]: "length (entry_names t) = GetEntryCount t"
  by (cases t) (simp_all add: detail_defs)

lemma length_entry_briefs [simp]: "length (entry_briefs t) = GetEntryCount t"
  by (cases t) (simp_all add: detail_defs)

lemma length_entry_detailed [simp]: "length (entry_detailed t) = GetEntryCount t"
  by (cases t) (simp_all add: detail_defs)

lemma length_entry_defaults [simp]:
  "t \<noteq> String \<Longrightarrow> length (entry_defaults t) = GetEntryCount t"
  by (cases t) (simp_all add: detail_defs)

lemma vtype_entry_defaults: "v \<in> set (entry_defaults t) \<Longrightarrow> vtype v = t"
  by (cases t) auto

lemma entry_defaults_not_nan: "v \<in> set (entry_defaults t) \<Longrightarrow> \<not> is_nan v"
  by (cases t) (auto simp: FloatDetail_def DoubleDetail_def float_is_nan_def)

lemma distinct_entry_names: "distinct (entry_names t)"
  by (cases t) (simp_all add: detail_defs)

text \<open>The range of an entry, for the numeric types: minimum, default, maximum.\<close>

fun entry_ranges :: "Type \<Rightarrow> (val \<times> val \<times> val) list" where
  "entry_ranges Int8 = map (\<lambda>d. (VInt8 (ed_min d), VInt8 (ed_def d), VInt8 (ed_max d))) Int8Detail"
| "entry_ranges Int16 =
     map (\<lambda>d. (VInt16 (ed_min d), VInt16 (ed_def d), VInt16 (ed_max d))) Int16Detail"
| "entry_ranges Int32 =
     map (\<lambda>d. (VInt32 (ed_min d), VInt32 (ed_def d), VInt32 (ed_max d))) Int32Detail"
| "entry_ranges Int64 =
     map (\<lambda>d. (VInt64 (ed_min d), VInt64 (ed_def d), VInt64 (ed_max d))) Int64Detail"
| "entry_ranges Uint8 =
     map (\<lambda>d. (VUint8 (ed_min d), VUint8 (ed_def d), VUint8 (ed_max d))) Uint8Detail"
| "entry_ranges Uint16 =
     map (\<lambda>d. (VUint16 (ed_min d), VUint16 (ed_def d), VUint16 (ed_max d))) Uint16Detail"
| "entry_ranges Uint32 =
     map (\<lambda>d. (VUint32 (ed_min d), VUint32 (ed_def d), VUint32 (ed_max d))) Uint32Detail"
| "entry_ranges Uint64 =
     map (\<lambda>d. (VUint64 (ed_min d), VUint64 (ed_def d), VUint64 (ed_max d))) Uint64Detail"
| "entry_ranges Float =
     map (\<lambda>d. (VFloat (ed_min d), VFloat (ed_def d), VFloat (ed_max d))) FloatDetail"
| "entry_ranges Double =
     map (\<lambda>d. (VDouble (ed_min d), VDouble (ed_def d), VDouble (ed_max d))) DoubleDetail"
| "entry_ranges Bool = map (\<lambda>d. (VBool (ed_min d), VBool (ed_def d), VBool (ed_max d))) BoolDetail"
| "entry_ranges String = []"

section \<open>Properties\<close>

text \<open>Every default of the entry tables lies between the entry's minimum and maximum,
  in the order of its native type, and is not a NaN.  The range of
  \<^verbatim>\<open>REGULATION_KERNEL_FREQUENCY\<close>, which the regulation loop divides by, starts at 0.\<close>

theorem entry_defaults_in_range:
  "list_all (\<lambda>(lo, d, hi). val_le lo d \<and> val_le d hi \<and> \<not> is_nan d) (entry_ranges t) \<and>
   fst (entry_ranges Uint8 ! Uint8_int REGULATION_KERNEL_FREQUENCY) = VUint8 0"
proof
  show "list_all (\<lambda>(lo, d, hi). val_le lo d \<and> val_le d hi \<and> \<not> is_nan d) (entry_ranges t)"
    by (cases t) (simp_all add: detail_defs val_le_def float_is_nan_def)
  show "fst (entry_ranges Uint8 ! Uint8_int REGULATION_KERNEL_FREQUENCY) = VUint8 0"
    by (simp add: Uint8Detail_def)
qed

text \<open>The type table agrees with the type system: row \<open>t\<close> describes \<open>t\<close>; \<^verbatim>\<open>Integer\<close> holds
  of exactly the integer types and \<^verbatim>\<open>Long\<close> of those of 8 bytes; \<^verbatim>\<open>FloatingPoint\<close> of the types
  stored as \<^verbatim>\<open>REAL\<close>, \<^verbatim>\<open>String\<close> of the one stored as \<^verbatim>\<open>TEXT\<close>; nothing is signed and unsigned.\<close>

theorem TypeDetail_consistent:
  "td_type (GetTypeDetail t) = t \<and>
   traits_and (td_traits (GetTypeDetail t)) Trait_Integer =
     (t \<in> {Int8, Int16, Int32, Int64, Uint8, Uint16, Uint32, Uint64}) \<and>
   traits_and (td_traits (GetTypeDetail t)) Trait_Long =
     (traits_and (td_traits (GetTypeDetail t)) Trait_Integer \<and> GetSizeOfType t = 8) \<and>
   traits_and (td_traits (GetTypeDetail t)) Trait_FloatingPoint =
     (td_sqlType (GetTypeDetail t) = ''REAL'') \<and>
   traits_and (td_traits (GetTypeDetail t)) Trait_String =
     (td_sqlType (GetTypeDetail t) = ''TEXT'') \<and>
   \<not> (traits_and (td_traits (GetTypeDetail t)) Trait_Signed \<and>
      traits_and (td_traits (GetTypeDetail t)) Trait_Unsigned)"
  by (cases t) (simp_all add: GetTypeDetail_def TypeDetail_def trait_defs)

end
