(* ===== verification/DetailFunctions.thy ===== *)
theory DetailFunctions
  imports Detail
begin

text \<open>
  The functions of \<^verbatim>\<open>RRegistry/include/RRegistry/Detail.hpp\<close> over the tables of theory
  \<open>Detail\<close>: name lookup, the texts of an entry, and the continuous numbering that counts
  all entries of all types from 0.

  The numbering loops compute in \<^verbatim>\<open>int\<close> after a detour through \<^verbatim>\<open>size_t\<close>; as every count is
  at most 16 and a count is only subtracted from a non-negative number, the value is the
  mathematical difference.
\<close>

section \<open>Lookup by name\<close>

function GetValueOfName_loop :: "string \<Rightarrow> string list \<Rightarrow> nat \<Rightarrow> nat \<Rightarrow> nat" where
  "GetValueOfName_loop nm names count i =
     (if i < count then (if nm = names ! i then i else GetValueOfName_loop nm names count (Suc i))
      else count)"
  by pat_completeness auto
termination
  by (relation "measure (\<lambda>(nm, names, count, i). count - i)") auto

declare GetValueOfName_loop.simps [simp del]

definition GetValueOfNameClass :: "Type \<Rightarrow> string \<Rightarrow> nat" where
  "GetValueOfNameClass t nm = GetValueOfName_loop nm (entry_names t) (GetEntryCount t) 0"

definition GetValueOfName :: "Type option \<Rightarrow> string \<Rightarrow> int" where
  "GetValueOfName ty nm = (case ty of Some t \<Rightarrow> int (GetValueOfNameClass t nm) | None \<Rightarrow> 0)"

definition GetNameOfEntryClass :: "Type option \<Rightarrow> 32 word \<Rightarrow> string res" where
  "GetNameOfEntryClass ty p =
     (case ty of Some t \<Rightarrow> vec_at (entry_names t) (unat p) | None \<Rightarrow> Inr '''')"

definition GetBriefDescriptionOfEntryClass :: "Type option \<Rightarrow> 32 word \<Rightarrow> string res" where
  "GetBriefDescriptionOfEntryClass ty p =
     (case ty of Some t \<Rightarrow> vec_at (entry_briefs t) (unat p) | None \<Rightarrow> Inr '''')"

text \<open>The code's \<^verbatim>\<open>GetDetailedDescriptionOfEntryClass\<close> reads the member \<^verbatim>\<open>brief\<close>.\<close>

definition GetDetailedDescriptionOfEntryClass :: "Type option \<Rightarrow> 32 word \<Rightarrow> string res" where
  "GetDetailedDescriptionOfEntryClass ty p =
     (case ty of Some t \<Rightarrow> vec_at (entry_briefs t) (unat p) | None \<Rightarrow> Inr '''')"

definition GetEntryDetail :: "'v EntryDetail list \<Rightarrow> property \<Rightarrow> 'v EntryDetail res" where
  "GetEntryDetail details p = vec_at details (unat p)"

lemma GetValueOfName_loop_found:
  assumes "i \<le> j" and "j < count" and "names ! j = nm"
    and "\<And>k. i \<le> k \<Longrightarrow> k < j \<Longrightarrow> names ! k \<noteq> nm"
  shows "GetValueOfName_loop nm names count i = j"
  using assms
proof (induction nm names count i rule: GetValueOfName_loop.induct)
  case (1 nm names count i)
  show ?case
  proof (cases "i = j")
    case True
    with "1.prems" show ?thesis by (subst GetValueOfName_loop.simps) simp
  next
    case False
    with "1.prems"(1) have "i < j" by simp
    with "1.prems"(4) [of i] have "nm \<noteq> names ! i" by auto
    with "1" \<open>i < j\<close> show ?thesis by (simp add: GetValueOfName_loop.simps [of nm names count i])
  qed
qed

lemma GetValueOfName_loop_absent:
  "(\<And>k. i \<le> k \<Longrightarrow> k < count \<Longrightarrow> names ! k \<noteq> nm) \<Longrightarrow>
   GetValueOfName_loop nm names count i = count"
proof (induction nm names count i rule: GetValueOfName_loop.induct)
  case (1 nm names count i)
  show ?case
  proof (cases "i < count")
    case True
    with "1.prems" [of i] have "nm \<noteq> names ! i" by auto
    with True "1" show ?thesis by (simp add: GetValueOfName_loop.simps [of nm names count i])
  next
    case False
    then show ?thesis by (simp add: GetValueOfName_loop.simps)
  qed
qed

lemma GetValueOfNameClass_nth:
  assumes "i < GetEntryCount t"
  shows "GetValueOfNameClass t (entry_names t ! i) = i"
proof -
  have "entry_names t ! k \<noteq> entry_names t ! i" if "k < i" for k
    using that assms distinct_entry_names [of t] by (simp add: nth_eq_iff_index_eq)
  with assms show ?thesis
    unfolding GetValueOfNameClass_def by (intro GetValueOfName_loop_found) auto
qed

lemma GetValueOfNameClass_absent:
  "nm \<notin> set (entry_names t) \<Longrightarrow> GetValueOfNameClass t nm = GetEntryCount t"
  unfolding GetValueOfNameClass_def
  by (rule GetValueOfName_loop_absent) (metis length_entry_names nth_mem)

lemma GetValueOfNameClass_less_iff:
  "GetValueOfNameClass t nm < GetEntryCount t \<longleftrightarrow> nm \<in> set (entry_names t)"
  using GetValueOfNameClass_absent GetValueOfNameClass_nth by (metis in_set_conv_nth
      length_entry_names less_irrefl)

section \<open>The continuous numbering\<close>

definition GetFullEntryCount :: nat where
  "GetFullEntryCount = foldl (\<lambda>total i. total + GetEntryCountTypes ! i) 0 [0..<Type_COUNT]"

lemma GetFullEntryCount_eq: "GetFullEntryCount = 52"
  by (simp add: GetFullEntryCount_def Type_COUNT_def GetEntryCountTypes_def upt_rec)

lemma bindR_fundef_cong [fundef_cong]:
  "r = s \<Longrightarrow> (\<And>x. s = Inr x \<Longrightarrow> f x = g x) \<Longrightarrow> bindR r f = bindR s g"
  by (rule bindR_cong)

text \<open>
  \<^verbatim>\<open>while(i >= 0) { i -= GetEntryCount(type); if(i >= 0) ++type; }\<close>: nothing stops \<open>type\<close>
  at \<^verbatim>\<open>_COUNT\<close>, so a number past the last entry reads the count table out of range.
\<close>

function GetType_loop :: "nat \<Rightarrow> int \<Rightarrow> nat res" where
  "GetType_loop ty i =
     (if 0 \<le> i
      then bindR (GetEntryCount_at ty)
             (\<lambda>c. let i' = i - int c
                  in if 0 \<le> i' then GetType_loop (Suc ty) i' else GetType_loop ty i')
      else Inr ty)"
  by pat_completeness auto
termination
  by (relation "measure (\<lambda>(ty, i). 2 * (Type_COUNT - ty) + (if 0 \<le> i then 1 else 0))")
    (auto simp: GetEntryCount_at_def vec_at_Inr_iff)

declare GetType_loop.simps [simp del]

definition GetTypeFromContinousNumber :: "int \<Rightarrow> Type res" where
  "GetTypeFromContinousNumber i = bindR (GetType_loop 0 i) (vec_at all_types)"

definition NormalizeContinousNumber :: "int \<Rightarrow> 64 word res" where
  "NormalizeContinousNumber i =
     bindR (GetTypeFromContinousNumber i)
       (\<lambda>t. Inr (word_of_int
          (foldl (\<lambda>i n. i - int (GetEntryCountTypes ! n)) i [0..<Type_int t])))"

text \<open>
  The entries in the order of the numbering, as a list: the specification of the two
  functions above.
\<close>

definition all_entries :: "(Type \<times> nat) list" where
  "all_entries = concat (map (\<lambda>t. map (Pair t) [0..<GetEntryCount t]) all_types)"

lemma set_all_entries: "set all_entries = {(t, i). valid_prop t i}"
  by (auto simp: all_entries_def valid_prop_def image_iff)

lemma distinct_all_entries: "distinct all_entries"
  unfolding all_entries_def by code_simp

lemma length_all_entries: "length all_entries = GetFullEntryCount"
  unfolding all_entries_def GetFullEntryCount_eq by code_simp

lemma GetType_loop_past:
  "int (sum_list (map (\<lambda>n. GetEntryCountTypes ! n) [ty..<Type_COUNT])) \<le> i \<Longrightarrow>
   GetType_loop ty i = Inl OutOfBounds"
proof (induction ty i rule: GetType_loop.induct)
  case (1 ty i)
  have "0 \<le> i" using "1.prems" by linarith
  show ?case
  proof (cases "ty < Type_COUNT")
    case True
    then have at: "GetEntryCount_at ty = Inr (GetEntryCountTypes ! ty)"
      and upt: "[ty..<Type_COUNT] = ty # [Suc ty..<Type_COUNT]"
      by (simp_all add: GetEntryCount_at_def upt_conv_Cons)
    have "GetType_loop (Suc ty) (i - int (GetEntryCountTypes ! ty)) = Inl OutOfBounds"
      using "1.prems" \<open>0 \<le> i\<close> upt by (intro "1.IH" (1) [OF _ at refl]) auto
    then show ?thesis
      using \<open>0 \<le> i\<close> at "1.prems" upt
      by (subst GetType_loop.simps) (auto simp: Let_def)
  next
    case False
    with \<open>0 \<le> i\<close> show ?thesis by (subst GetType_loop.simps) simp
  qed
qed

lemma sum_counts: "sum_list (map (\<lambda>n. GetEntryCountTypes ! n) [0..<Type_COUNT]) = 52"
  by (simp add: Type_COUNT_def GetEntryCountTypes_def upt_rec)

lemma GetTypeFromContinousNumber_past:
  "int GetFullEntryCount \<le> i \<Longrightarrow> GetTypeFromContinousNumber i = Inl OutOfBounds"
  using GetType_loop_past [of 0 i]
  by (simp add: GetTypeFromContinousNumber_def GetFullEntryCount_eq sum_counts)

lemma GetTypeFromContinousNumber_negative:
  "i < 0 \<Longrightarrow> GetTypeFromContinousNumber i = Inr Int8"
  by (simp add: GetTypeFromContinousNumber_def GetType_loop.simps Type_COUNT_def all_types_def)

lemma GetType_table:
  "list_all (\<lambda>n. GetTypeFromContinousNumber (int n) = Inr (fst (all_entries ! n))) [0..<52]"
  by code_simp

lemma Normalize_table:
  "list_all (\<lambda>n. foldl (\<lambda>i n. i - int (GetEntryCountTypes ! n)) (int n)
     [0..<Type_int (fst (all_entries ! n))] = int (snd (all_entries ! n))) [0..<52]"
  by code_simp

lemma GetTypeFromContinousNumber_nth:
  "n < GetFullEntryCount \<Longrightarrow> GetTypeFromContinousNumber (int n) = Inr (fst (all_entries ! n))"
  using GetType_table by (simp add: list_all_iff GetFullEntryCount_eq)

lemma NormalizeContinousNumber_nth:
  assumes "n < GetFullEntryCount"
  shows "NormalizeContinousNumber (int n) = Inr (word_of_nat (snd (all_entries ! n)))"
proof -
  have "foldl (\<lambda>i n. i - int (GetEntryCountTypes ! n)) (int n)
     [0..<Type_int (fst (all_entries ! n))] = int (snd (all_entries ! n))"
    using assms Normalize_table by (simp add: list_all_iff GetFullEntryCount_eq)
  then show ?thesis
    by (simp add: NormalizeContinousNumber_def GetTypeFromContinousNumber_nth [OF assms])
qed

lemma NormalizeContinousNumber_past:
  "GetFullEntryCount \<le> n \<Longrightarrow> NormalizeContinousNumber (int n) = Inl OutOfBounds"
  by (simp add: NormalizeContinousNumber_def GetTypeFromContinousNumber_past)

lemma NormalizeContinousNumber_Inr_less:
  "NormalizeContinousNumber (int n) = Inr w \<Longrightarrow> n < GetFullEntryCount"
  by (metis NormalizeContinousNumber_past Inl_Inr_False not_less)

text \<open>
  The inverse searches upwards from 0.  It can only stop at a match or by running past the
  last entry.
\<close>

function GetContinuousNumber_loop :: "Type \<Rightarrow> 32 word \<Rightarrow> nat \<Rightarrow> nat res" where
  "GetContinuousNumber_loop ty p i =
     bindR (NormalizeContinousNumber (int i))
       (\<lambda>n. if ucast p \<noteq> n then GetContinuousNumber_loop ty p (Suc i)
            else bindR (GetTypeFromContinousNumber (int i))
              (\<lambda>t. if ty \<noteq> t then GetContinuousNumber_loop ty p (Suc i) else Inr i))"
  by pat_completeness auto
termination
  by (relation "measure (\<lambda>(ty, p, i). GetFullEntryCount - i)")
    (auto dest: NormalizeContinousNumber_Inr_less)

declare GetContinuousNumber_loop.simps [simp del]

definition GetContinuousNumberFromPropertyType :: "Type \<Rightarrow> 32 word \<Rightarrow> nat res" where
  "GetContinuousNumberFromPropertyType ty p = GetContinuousNumber_loop ty p 0"

lemma all_entries_snd_small: "n < GetFullEntryCount \<Longrightarrow> snd (all_entries ! n) < 16"
proof -
  assume "n < GetFullEntryCount"
  then have "all_entries ! n \<in> set all_entries" by (simp add: length_all_entries)
  then have "valid_prop (fst (all_entries ! n)) (snd (all_entries ! n))"
    by (auto simp: set_all_entries split_beta)
  then show ?thesis
    using GetEntryCount_le [of "fst (all_entries ! n)"] by (simp add: valid_prop_def)
qed

lemma unat_ucast_up: "unat (ucast (p :: 32 word) :: 64 word) = unat p"
  by transfer (simp add: take_bit_eq_mod nat_mod_distrib)

lemma ucast_eq_word_of_nat_iff:
  "m < 16 \<Longrightarrow> (ucast (p :: 32 word) = (word_of_nat m :: 64 word)) \<longleftrightarrow> unat p = m"
proof -
  assume m: "m < 16"
  have "unat (ucast p :: 64 word) = unat p"
    by (rule unat_ucast_up)
  moreover have "unat (word_of_nat m :: 64 word) = m"
    using m by (simp add: unsigned_of_nat take_bit_nat_eq_self_iff)
  ultimately show ?thesis by (metis word_unat_eq_iff)
qed

lemma GetContinuousNumber_loop_step:
  "i < GetFullEntryCount \<Longrightarrow>
   GetContinuousNumber_loop ty p i =
     (if all_entries ! i = (ty, unat p) then Inr i else GetContinuousNumber_loop ty p (Suc i))"
  by (subst GetContinuousNumber_loop.simps)
    (auto simp: NormalizeContinousNumber_nth GetTypeFromContinousNumber_nth
      ucast_eq_word_of_nat_iff all_entries_snd_small prod_eq_iff)

lemma GetContinuousNumber_loop_past:
  "GetFullEntryCount \<le> i \<Longrightarrow> GetContinuousNumber_loop ty p i = Inl OutOfBounds"
  by (subst GetContinuousNumber_loop.simps) (simp add: NormalizeContinousNumber_past)

lemma GetContinuousNumber_loop_found:
  assumes "i \<le> n" and "n < GetFullEntryCount" and "all_entries ! n = (ty, unat p)"
  shows "GetContinuousNumber_loop ty p i = Inr n"
  using assms
proof (induction "n - i" arbitrary: i)
  case 0
  then show ?case by (simp add: GetContinuousNumber_loop_step)
next
  case (Suc d)
  then have "all_entries ! i \<noteq> all_entries ! n"
    by (subst nth_eq_iff_index_eq [OF distinct_all_entries]) (auto simp: length_all_entries)
  with Suc show ?case by (simp add: GetContinuousNumber_loop_step)
qed

lemma GetContinuousNumber_loop_absent:
  "(ty, unat p) \<notin> set all_entries \<Longrightarrow> GetContinuousNumber_loop ty p i = Inl OutOfBounds"
proof (induction "GetFullEntryCount - i" arbitrary: i)
  case 0
  then show ?case by (simp add: GetContinuousNumber_loop_past)
next
  case (Suc d)
  then have "i < GetFullEntryCount" by simp
  then have "all_entries ! i \<noteq> (ty, unat p)"
    using Suc.prems by (metis length_all_entries nth_mem)
  with Suc \<open>i < GetFullEntryCount\<close> show ?case by (simp add: GetContinuousNumber_loop_step)
qed

section \<open>Properties\<close>

text \<open>Name lookup and name table are inverse to each other: for every type, a name
  looks up to an in-range number exactly when that number's entry has the name; any other name
  gives the type's \<^verbatim>\<open>_COUNT\<close>.\<close>

theorem GetValueOfName_iff:
  "(GetValueOfName (Some t) nm = int (GetEntryCount t)) = (nm \<notin> set (entry_names t)) \<and>
   (unat p < GetEntryCount t \<and> GetValueOfName (Some t) nm = int (unat p)) =
     (GetNameOfEntryClass (Some t) p = Inr nm)"
proof
  show "(GetValueOfName (Some t) nm = int (GetEntryCount t)) = (nm \<notin> set (entry_names t))"
    using GetValueOfNameClass_absent [of nm t] GetValueOfNameClass_less_iff [of t nm]
    by (auto simp: GetValueOfName_def)
  have "GetValueOfNameClass t nm = unat p \<longleftrightarrow> nm = entry_names t ! unat p"
    if "unat p < GetEntryCount t"
    using that GetValueOfNameClass_nth GetValueOfNameClass_less_iff [of t nm]
    by (metis in_set_conv_nth length_entry_names)
  then show "(unat p < GetEntryCount t \<and> GetValueOfName (Some t) nm = int (unat p)) =
     (GetNameOfEntryClass (Some t) p = Inr nm)"
    by (auto simp: GetValueOfName_def GetNameOfEntryClass_def vec_at_Inr_iff simp del: of_nat_unat)
qed

text \<open>The continuous numbering is a bijection between \<open>0..51\<close> and the entries: splitting
  an in-range number into type and property and numbering the pair gives the number back, and
  the pair is the one at that place of the list of all entries.\<close>

theorem continuous_number_roundtrip:
  assumes "n < GetFullEntryCount"
  shows "\<exists>t p. GetTypeFromContinousNumber (int n) = Inr t \<and>
           NormalizeContinousNumber (int n) = Inr (ucast p) \<and>
           valid_prop t (unat p) \<and> all_entries ! n = (t, unat p) \<and>
           GetContinuousNumberFromPropertyType t p = Inr n"
proof -
  obtain t i where ti: "all_entries ! n = (t, i)" by fastforce
  define p :: "32 word" where "p = word_of_nat i"
  have i: "i < 16" using all_entries_snd_small [OF assms] ti by simp
  then have up: "unat p = i"
    by (simp add: p_def unsigned_of_nat take_bit_nat_eq_self_iff)
  then have "ucast p = (word_of_nat i :: 64 word)"
    using ucast_eq_word_of_nat_iff [OF i] by blast
  moreover have "valid_prop t i"
    using assms ti set_all_entries nth_mem [of n all_entries] by (auto simp: length_all_entries)
  ultimately show ?thesis
    using assms ti up
    by (auto intro!: exI [of _ t] exI [of _ p] GetContinuousNumber_loop_found
        simp: GetTypeFromContinousNumber_nth NormalizeContinousNumber_nth
          GetContinuousNumberFromPropertyType_def)
qed

theorem continuous_number_roundtrip_witness:
  "\<exists>t p. GetTypeFromContinousNumber (int 35) = Inr t \<and>
           NormalizeContinousNumber (int 35) = Inr (ucast p) \<and>
           valid_prop t (unat p) \<and> all_entries ! 35 = (t, unat p) \<and>
           GetContinuousNumberFromPropertyType t p = Inr 35"
  by (rule continuous_number_roundtrip) (simp add: GetFullEntryCount_eq)

text \<open>\<^verbatim>\<open>GetContinuousNumberFromPropertyType\<close> returns a number for exactly the entries of
  the catalogue, a number below the full count; on any other pair its search runs past the
  last entry and reads out of range.\<close>

theorem GetContinuousNumber_total:
  "GetContinuousNumberFromPropertyType t p =
     (if valid_prop t (unat p)
      then Inr (length (takeWhile (\<lambda>e. e \<noteq> (t, unat p)) all_entries))
      else Inl OutOfBounds)"
proof (cases "valid_prop t (unat p)")
  case True
  let ?n = "length (takeWhile (\<lambda>e. e \<noteq> (t, unat p)) all_entries)"
  have mem: "(t, unat p) \<in> set all_entries" using True by (simp add: set_all_entries)
  then have less: "?n < length all_entries"
    by (metis (mono_tags, lifting) le_neq_implies_less length_takeWhile_le
        takeWhile_eq_all_conv takeWhile_eq_take take_all_iff order_refl)
  then have "all_entries ! ?n = (t, unat p)"
    using nth_length_takeWhile by blast
  with less True show ?thesis
    by (simp add: GetContinuousNumberFromPropertyType_def GetContinuousNumber_loop_found
        length_all_entries)
next
  case False
  then show ?thesis
    by (simp add: GetContinuousNumberFromPropertyType_def GetContinuousNumber_loop_absent
        set_all_entries)
qed

text \<open>The detailed description of an entry is its brief description, whatever the
  \<^verbatim>\<open>detailed\<close> column of the table says.\<close>

theorem GetDetailed_is_brief:
  "GetDetailedDescriptionOfEntryClass ty p = GetBriefDescriptionOfEntryClass ty p \<and>
   GetDetailedDescriptionOfEntryClass (Some String) 0 \<noteq> vec_at (entry_detailed String) 0"
  by (simp add: GetDetailedDescriptionOfEntryClass_def GetBriefDescriptionOfEntryClass_def
      StringDetail_def)

end
