(* ===== verification/FloatDouble.thy ===== *)
theory FloatDouble
  imports TypeConverter
begin

text \<open>
  The conversion from \<^verbatim>\<open>float\<close> to \<^verbatim>\<open>double\<close> that C++ makes where the persistency policy binds a
  \<^verbatim>\<open>float\<close> as the \<^verbatim>\<open>double\<close> of \<^verbatim>\<open>sqlite3_bind_double\<close>, on bit patterns: the value is kept (every
  binary32 value, a subnormal one too, is a normal binary64 value), an infinity stays one, and a
  signalling NaN becomes quiet.
\<close>

unbundle bit_operations_syntax

section \<open>Fields\<close>

text \<open>The position of the highest bit that is set.\<close>

fun top_bit :: "nat \<Rightarrow> nat" where
  "top_bit m = (if m < 2 then 0 else Suc (top_bit (m div 2)))"

declare top_bit.simps [simp del]

text \<open>Sign, biased exponent and fraction.\<close>

definition float_fields :: "32 word \<Rightarrow> nat \<times> nat \<times> nat" where
  "float_fields x = (unat x div 2 ^ 31, unat x div 2 ^ 23 mod 2 ^ 8, unat x mod 2 ^ 23)"

definition double_fields :: "64 word \<Rightarrow> nat \<times> nat \<times> nat" where
  "double_fields x = (unat x div 2 ^ 63, unat x div 2 ^ 52 mod 2 ^ 11, unat x mod 2 ^ 52)"

definition float_of_fields :: "nat \<Rightarrow> nat \<Rightarrow> nat \<Rightarrow> 32 word" where
  "float_of_fields s e m = word_of_nat (s * 2 ^ 31 + e * 2 ^ 23 + m)"

definition double_of_fields :: "nat \<Rightarrow> nat \<Rightarrow> nat \<Rightarrow> 64 word" where
  "double_of_fields s e m = word_of_nat (s * 2 ^ 63 + e * 2 ^ 52 + m)"

section \<open>The conversion\<close>

text \<open>
  A subnormal with the highest bit \<open>k\<close> of its fraction is \<open>1.f * 2 ^ (k - 149)\<close>; the highest bit of
  the fraction makes a NaN quiet.
\<close>

definition float_to_double :: "32 word \<Rightarrow> 64 word" where
  "float_to_double x =
     (case float_fields x of (s, e, m) \<Rightarrow>
        if e = 255
        then double_of_fields s 2047
          (if m = 0 then 0 else if m < 2 ^ 22 then m * 2 ^ 29 + 2 ^ 51 else m * 2 ^ 29)
        else if 0 < e then double_of_fields s (e + 896) (m * 2 ^ 29)
        else if m = 0 then double_of_fields s 0 0
        else double_of_fields s (top_bit m + 874) (m * 2 ^ (52 - top_bit m) - 2 ^ 52))"

text \<open>The way back, for the doubles that are conversions of floats.\<close>

definition double_to_float :: "64 word \<Rightarrow> 32 word" where
  "double_to_float y =
     (case double_fields y of (s, e, m) \<Rightarrow>
        if e = 2047 then float_of_fields s 255 (m div 2 ^ 29)
        else if 896 < e then float_of_fields s (e - 896) (m div 2 ^ 29)
        else if e = 0 then float_of_fields s 0 0
        else float_of_fields s 0 ((m + 2 ^ 52) div 2 ^ (926 - e)))"

section \<open>The way back undoes the conversion\<close>

lemma float_of_fields_fields:
  "float_fields x = (s, e, m) \<Longrightarrow> float_of_fields s e m = x \<and> s < 2 \<and> e < 256 \<and> m < 2 ^ 23"
proof -
  assume "float_fields x = (s, e, m)"
  then have f: "s = unat x div 2 ^ 31" "e = unat x div 2 ^ 23 mod 2 ^ 8" "m = unat x mod 2 ^ 23"
    by (simp_all add: float_fields_def)
  have "unat x < 2 ^ 32" using unsigned_less [of x] by simp
  then have "s < 2" using f(1) by simp
  moreover have "s * 2 ^ 31 + e * 2 ^ 23 + m = unat x"
  proof -
    have "unat x = 2 ^ 23 * (unat x div 2 ^ 23) + m" unfolding f by simp
    moreover have "unat x div 2 ^ 23 = 2 ^ 8 * s + e"
      unfolding f using mult_div_mod_eq [of "2 ^ 8" "unat x div 2 ^ 23"]
      by (simp add: div_mult2_eq [symmetric])
    ultimately show ?thesis by simp
  qed
  ultimately show ?thesis using f unfolding float_of_fields_def by simp
qed

lemma double_fields_of:
  assumes "s < 2" and "e < 2048" and "m < 2 ^ 52"
  shows "double_fields (double_of_fields s e m) = (s, e, m)"
proof -
  have "s * 2 ^ 63 + e * 2 ^ 52 + m < 2 ^ 64" using assms by simp
  then have u: "unat (double_of_fields s e m) = s * 2 ^ 63 + e * 2 ^ 52 + m"
    unfolding double_of_fields_def unsigned_of_nat of_nat_id
    by (intro take_bit_nat_eq_self) simp
  have "(s * 2 ^ 63 + e * 2 ^ 52 + m) div 2 ^ 63 = s"
    using assms by (intro div_nat_eqI) simp_all
  moreover have "(s * 2 ^ 63 + e * 2 ^ 52 + m) div 2 ^ 52 = s * 2 ^ 11 + e"
    using assms by (intro div_nat_eqI) simp_all
  moreover have "(s * 2 ^ 63 + e * 2 ^ 52 + m) mod 2 ^ 52 = m"
  proof -
    have "s * 2 ^ 63 + e * 2 ^ 52 + m = m + 2 ^ 52 * (s * 2 ^ 11 + e)" by simp
    then show ?thesis using assms(3) by (simp only: mod_mult_self2 mod_less)
  qed
  ultimately show ?thesis using assms(2) by (simp add: double_fields_def u)
qed

lemma top_bit_bounds: "0 < m \<Longrightarrow> 2 ^ top_bit m \<le> m \<and> m < 2 ^ Suc (top_bit m)"
proof (induction m rule: top_bit.induct)
  case (1 m)
  show ?case
  proof (cases "m < 2")
    case False
    with 1 have "2 ^ top_bit (m div 2) \<le> m div 2 \<and> m div 2 < 2 ^ Suc (top_bit (m div 2))" by simp
    with False show ?thesis by (subst (1 2) top_bit.simps) auto
  qed (use 1 in \<open>subst (1 2) top_bit.simps, simp\<close>)
qed

lemma subnormal_fields:
  assumes "0 < m" and "m < 2 ^ 23"
  shows "top_bit m < 23 \<and> m * 2 ^ (52 - top_bit m) - 2 ^ 52 < 2 ^ 52 \<and>
    (m * 2 ^ (52 - top_bit m) - 2 ^ 52 + 2 ^ 52) div 2 ^ (52 - top_bit m) = m"
proof -
  note b = top_bit_bounds [OF assms(1)]
  have "(2::nat) ^ top_bit m < 2 ^ 23" using b assms(2) by linarith
  then have k: "top_bit m < 23" by (rule power_less_imp_less_exp [rotated]) simp
  have p: "(2::nat) ^ top_bit m * 2 ^ (52 - top_bit m) = 2 ^ 52"
    using k by (simp flip: power_add)
  have "2 ^ 52 \<le> m * 2 ^ (52 - top_bit m)"
    using mult_le_mono1 [of "2 ^ top_bit m" m "2 ^ (52 - top_bit m)"] b p by simp
  moreover have "m * 2 ^ (52 - top_bit m) < 2 * 2 ^ 52"
  proof -
    have "m * 2 ^ (52 - top_bit m) < (2 * 2 ^ top_bit m) * 2 ^ (52 - top_bit m)"
      using b by (intro mult_less_mono1) simp_all
    then show ?thesis using p by (simp only: mult.assoc)
  qed
  ultimately show ?thesis using k by simp
qed

text \<open>A field of a word is all ones; a field is zero.\<close>

lemma and_field_eq:
  fixes x :: "'a::len word"
  assumes "c = push_bit k (mask n)" and "k + n \<le> LENGTH('a)"
  shows "x AND c = c \<longleftrightarrow> unat x div 2 ^ k mod 2 ^ n = 2 ^ n - 1"
proof -
  have "x AND c = c \<longleftrightarrow> take_bit n (drop_bit k x) = mask n"
  proof -
    have "x AND c = c \<longleftrightarrow> (\<forall>i < LENGTH('a). k \<le> i \<and> i < k + n \<longrightarrow> bit x i)"
      unfolding bit_eq_iff assms(1)
      by (auto simp: bit_and_iff bit_push_bit_iff bit_mask_iff)
    also have "\<dots> \<longleftrightarrow> (\<forall>i < n. bit x (k + i))"
      using assms(2) by (auto simp: le_iff_add)
    also have "\<dots> \<longleftrightarrow>
        (\<forall>i. possible_bit TYPE('a word) i \<longrightarrow> i < n \<longrightarrow> bit x (k + i))"
      using assms(2) by (auto simp: possible_bit_word)
    also have "\<dots> \<longleftrightarrow> take_bit n (drop_bit k x) = mask n"
      unfolding bit_eq_iff by (auto simp: bit_take_bit_iff bit_drop_bit_eq bit_mask_iff)
    finally show ?thesis .
  qed
  also have "\<dots> \<longleftrightarrow> unat (take_bit n (drop_bit k x)) = unat (mask n :: 'a word)"
    by (rule word_unat_eq_iff)
  also have "unat (mask n :: 'a word) = 2 ^ n - 1"
  proof -
    have "min LENGTH('a) n = n" using assms(2) by simp
    then have "uint (mask n :: 'a word) = mask n" by (simp only: uint_mask_eq)
    then have "uint (mask n :: 'a word) = 2 ^ n - 1"
      by (simp only: mask_eq_exp_minus_1 [where 'a = int])
    then have "unat (mask n :: 'a word) = nat (2 ^ n - 1)" by (simp only: unat_eq_nat_uint)
    then show ?thesis by (simp add: nat_diff_distrib nat_power_eq)
  qed
  also have "unat (take_bit n (drop_bit k x)) = unat x div 2 ^ k mod 2 ^ n"
  proof -
    have "unat (drop_bit k x) = unat x div 2 ^ k"
      by (simp add: unat_drop_bit_eq flip: drop_bit_eq_div)
    then show ?thesis by (simp only: unsigned_take_bit_eq take_bit_eq_mod [where 'a = nat])
  qed
  finally show ?thesis .
qed

lemma and_mask_zero:
  "c = mask n \<Longrightarrow> x AND c = 0 \<longleftrightarrow> unat (x :: 'a::len word) mod 2 ^ n = 0"
proof -
  have "x AND mask n = 0 \<longleftrightarrow> unat (take_bit n x) = 0"
    by (simp add: word_unat_eq_iff take_bit_eq_mask)
  moreover have "unat (take_bit n x) = unat x mod 2 ^ n"
    unfolding unsigned_take_bit_eq by (rule take_bit_eq_mod)
  ultimately show "c = mask n \<Longrightarrow> ?thesis" by simp
qed

lemma float_is_nan_fields:
  assumes "float_fields x = (s, e, m)"
  shows "float_is_nan x \<longleftrightarrow> e = 255 \<and> m \<noteq> 0"
  using assms and_field_eq [of "0x7F800000" 23 8 x] and_mask_zero [of "0x007FFFFF" 23 x]
  by (auto simp: float_is_nan_def float_fields_def mask_eq_exp_minus_1 push_bit_eq_mult)

lemma double_is_nan_fields:
  assumes "double_fields x = (s, e, m)"
  shows "double_is_nan x \<longleftrightarrow> e = 2047 \<and> m \<noteq> 0"
  using assms and_field_eq [of "0x7FF0000000000000" 52 11 x]
    and_mask_zero [of "0x000FFFFFFFFFFFFF" 52 x]
  by (auto simp: double_is_nan_def double_fields_def mask_eq_exp_minus_1 push_bit_eq_mult)

lemma float_to_double_inverse:
  "(double_is_nan (float_to_double x) \<longleftrightarrow> float_is_nan x) \<and>
   (\<not> float_is_nan x \<longrightarrow> double_to_float (float_to_double x) = x)"
proof -
  obtain s e m where f: "float_fields x = (s, e, m)" by (cases "float_fields x")
  note r = float_of_fields_fields [OF f]
  consider "e = 255" | "0 < e" "e < 255" | "e = 0" "m = 0" | "e = 0" "0 < m" using r by linarith
  then show ?thesis
  proof cases
    case 1
    let ?m = "if m = 0 then 0 else if m < 2 ^ 22 then m * 2 ^ 29 + 2 ^ 51 else m * 2 ^ 29"
    have "?m < 2 ^ 52" using r by auto
    then have d: "double_fields (float_to_double x) = (s, 2047, ?m)"
      using r 1 by (simp add: float_to_double_def f double_fields_of del: power_numeral)
    show ?thesis
      using double_is_nan_fields [OF d] float_is_nan_fields [OF f] 1 r d
      by (auto simp: double_to_float_def)
  next
    case 2
    then have d: "double_fields (float_to_double x) = (s, e + 896, m * 2 ^ 29)"
      using r by (simp add: float_to_double_def f double_fields_of)
    show ?thesis
      using double_is_nan_fields [OF d] float_is_nan_fields [OF f] 2 r d
      by (simp add: double_to_float_def)
  next
    case 3
    then have d: "double_fields (float_to_double x) = (s, 0, 0)"
      using r by (simp add: float_to_double_def f double_fields_of)
    show ?thesis
      using double_is_nan_fields [OF d] float_is_nan_fields [OF f] 3 r d
      by (simp add: double_to_float_def)
  next
    case 4
    note b = subnormal_fields [of m]
    let ?m = "m * 2 ^ (52 - top_bit m) - 2 ^ 52"
    have d: "double_fields (float_to_double x) = (s, top_bit m + 874, ?m)"
      using r b 4 by (simp add: float_to_double_def f double_fields_of)
    show ?thesis
      using double_is_nan_fields [OF d] float_is_nan_fields [OF f] 4 r d b
      by (simp add: double_to_float_def)
  qed
qed

end
