(* ===== verification/DBPersistency.thy ===== *)
theory DBPersistency
  imports DetailFunctions FloatDouble
begin

text \<open>
  \<^verbatim>\<open>RRegistry/src/DBPersistencyPolicy.cpp\<close> and its header: the policy that records every
  received property in an SQLite database, with a queue that clients fill and a worker thread
  that drains it.

  SQLite is only called; its results are ignored but for \<^verbatim>\<open>sqlite3_open\<close>. The database is
  therefore the sequence of the calls made on it (for statements that compile), and whether
  the file opens is an argument of the worker's step. The worker's program counter is
  \<open>worker\<close>; between two of its values the thread runs without another thread seeing an
  intermediate state, because it either holds the queue's mutex or touches only its own data.
  Times are in nanoseconds; the value read from the registry is the argument \<open>get\<close>.
\<close>

section \<open>Records\<close>

record Record_t =
  r_timeSinceStart :: int
  r_clientId :: "16 word"
  r_registryType :: "Type option"
  r_property :: "16 word"
  r_data :: val          \<comment> \<open>the active member of the union\<close>

definition Record_init :: "int \<Rightarrow> Record_t" where
  "Record_init time0 = \<lparr>r_timeSinceStart = time0, r_clientId = 0, r_registryType = Some Int8,
     r_property = 0, r_data = VUint64 0\<rparr>"

section \<open>The calls on the database\<close>

datatype stmt = StInsertSet Type | StBegin | StCommit | StGeneral

datatype sql_call =
    SqlOpen string
  | SqlClose
  | SqlExec string
  | SqlPrepare stmt string
  | SqlFinalize stmt
  | SqlBindInt stmt nat int
  | SqlBindInt64 stmt nat int
  | SqlBindDouble stmt nat "64 word"
  | SqlBindText stmt nat string
  | SqlStep stmt
  | SqlReset stmt

text \<open>
  Binding a value: \<^verbatim>\<open>sqlite3_bind_int\<close> up to 32 bits signed, \<^verbatim>\<open>sqlite3_bind_int64\<close> above (where an
  unsigned 64-bit value is converted to \<^verbatim>\<open>sqlite3_int64\<close>), \<^verbatim>\<open>sqlite3_bind_double\<close> for the two
  floating point types (where a \<^verbatim>\<open>float\<close> is converted to \<^verbatim>\<open>double\<close>), nothing for a string.
\<close>

fun bind_value :: "stmt \<Rightarrow> nat \<Rightarrow> val \<Rightarrow> sql_call list" where
  "bind_value st n (VInt8 x) = [SqlBindInt st n (sint x)]"
| "bind_value st n (VInt16 x) = [SqlBindInt st n (sint x)]"
| "bind_value st n (VInt32 x) = [SqlBindInt st n (sint x)]"
| "bind_value st n (VInt64 x) = [SqlBindInt64 st n (sint x)]"
| "bind_value st n (VUint8 x) = [SqlBindInt st n (uint x)]"
| "bind_value st n (VUint16 x) = [SqlBindInt st n (uint x)]"
| "bind_value st n (VUint32 x) = [SqlBindInt64 st n (uint x)]"
| "bind_value st n (VUint64 x) = [SqlBindInt64 st n (sint x)]"
| "bind_value st n (VFloat x) = [SqlBindDouble st n (float_to_double x)]"
| "bind_value st n (VDouble x) = [SqlBindDouble st n x]"
| "bind_value st n (VBool b) = [SqlBindInt st n (of_bool b)]"
| "bind_value st n (VString s) = []"

definition setNthParamFromRegistry ::
  "(Type \<Rightarrow> property \<Rightarrow> val res) \<Rightarrow> stmt \<Rightarrow> nat \<Rightarrow> Type option \<Rightarrow> 16 word \<Rightarrow> sql_call list res" where
  "setNthParamFromRegistry get st n ty pid =
     (case ty of
        None \<Rightarrow> Inr []
      | Some t \<Rightarrow> if t = String then Inr []
          else bindR (get t (prop_of_id pid)) (\<lambda>v. Inr (bind_value st n v)))"

definition setNthParamFromRecord :: "stmt \<Rightarrow> nat \<Rightarrow> Record_t \<Rightarrow> sql_call list" where
  "setNthParamFromRecord st n r =
     (case r_registryType r of
        None \<Rightarrow> []
      | Some t \<Rightarrow> if t = String then [] else bind_value st n (r_data r))"

definition beginTransaction :: "sql_call list" where
  "beginTransaction = [SqlStep StBegin, SqlReset StBegin]"

definition commit :: "sql_call list" where
  "commit = [SqlStep StCommit, SqlReset StCommit]"

definition insertRecord :: "Record_t \<Rightarrow> sql_call list res" where
  "insertRecord r =
     (case r_registryType r of
        None \<Rightarrow> Inl OutOfBounds
      | Some t \<Rightarrow>
          let st = StInsertSet t
          in Inr ([SqlBindInt st 1 (uint (r_clientId r)), SqlBindInt st 2 (uint (r_property r)),
                   SqlBindInt64 st 3 (r_timeSinceStart r)] @
                  setNthParamFromRecord st 4 r @ [SqlStep st, SqlReset st]))"

text \<open>\<^verbatim>\<open>while(!m_recordsQueue.empty()) { front; pop; insertRecord }\<close>.\<close>

fun drain :: "Record_t list \<Rightarrow> sql_call list res" where
  "drain [] = Inr []"
| "drain (r # rs) = bindR (insertRecord r) (\<lambda>cs. bindR (drain rs) (\<lambda>cs'. Inr (cs @ cs')))"

section \<open>Setting up the database\<close>

text \<open>\<^verbatim>\<open>std::to_string\<close> of a number.\<close>

fun to_string :: "nat \<Rightarrow> string" where
  "to_string n = (if n < 10 then [char_of (48 + n)]
     else to_string (n div 10) @ [char_of (48 + n mod 10)])"

declare to_string.simps [simp del]

definition create_general_sql :: string where
  "create_general_sql =
     ''CREATE TABLE IF NOT EXISTS general (key TEXT PRIMARY KEY, value TEXT)''"

definition create_sets_sql :: "Type \<Rightarrow> string" where
  "create_sets_sql t =
     ''CREATE TABLE IF NOT EXISTS sets'' @ td_name (GetTypeDetail t) @
     '' ( clientId INTEGER, property INTEGER,  timestamp BIGINT, value '' @
     td_sqlType (GetTypeDetail t) @ '');''"

definition insert_sets_sql :: "Type \<Rightarrow> string" where
  "insert_sets_sql t =
     ''INSERT INTO sets'' @ td_name (GetTypeDetail t) @
     '' (clientId, property, timestamp, value) VALUES (?1, ?2, ?3, ?4);''"

text \<open>
  \<^verbatim>\<open>prepareStatement\<close> and the assignment to the \<^verbatim>\<open>unique_ptr\<close> that holds it: a statement of a
  previous run is finalized after the new one is compiled.
\<close>

definition prepareStatement :: "bool \<Rightarrow> stmt \<Rightarrow> string \<Rightarrow> sql_call list" where
  "prepareStatement held st sql =
     SqlPrepare st sql # (if held then [SqlFinalize st] else [])"

definition general_row :: "Type \<Rightarrow> nat \<Rightarrow> sql_call list res" where
  "general_row t i =
     bindR (GetNameOfEntryClass (Some t) (word_of_nat i)) (\<lambda>nm.
       Inr [SqlBindText StGeneral 1 (td_name (GetTypeDetail t) @ ''::'' @ nm),
            SqlBindText StGeneral 2 (to_string i), SqlStep StGeneral, SqlReset StGeneral])"

fun concatR :: "'a list res list \<Rightarrow> 'a list res" where
  "concatR [] = Inr []"
| "concatR (r # rs) = bindR r (\<lambda>xs. bindR (concatR rs) (\<lambda>ys. Inr (xs @ ys)))"

definition general_rows :: "sql_call list res" where
  "general_rows =
     concatR (concat (map (\<lambda>t. map (general_row t) [0..<GetEntryCount t]) all_types))"

definition db_setup :: "bool \<Rightarrow> sql_call list res" where
  "db_setup held = bindR general_rows (\<lambda>rows.
     Inr ((if held then [SqlClose] else []) @
          [SqlExec create_general_sql] @ map (\<lambda>t. SqlExec (create_sets_sql t)) all_types @
          concat (map (\<lambda>t. prepareStatement held (StInsertSet t) (insert_sets_sql t)) all_types) @
          prepareStatement held StBegin ''BEGIN TRANSACTION;'' @
          prepareStatement held StCommit ''COMMIT;'' @
          prepareStatement False StGeneral ''INSERT INTO general (key, value) VALUES (?1, ?2)'' @
          beginTransaction @ rows @ commit @ [SqlFinalize StGeneral]))"

section \<open>The policy\<close>

datatype worker =
    NoThread   \<comment> \<open>\<open>m_workerThread\<close> is not joinable\<close>
  | Starting   \<comment> \<open>before \<open>m_running = true\<close>\<close>
  | Opening    \<comment> \<open>before \<open>sqlite3_open\<close>\<close>
  | Checking   \<comment> \<open>before the test \<open>while(!m_stop)\<close>\<close>
  | Locking    \<comment> \<open>in the loop, before it holds the mutex\<close>
  | Waiting    \<comment> \<open>in \<open>m_queueFullCondition.wait\<close>\<close>
  | Notified   \<comment> \<open>woken up\<close>
  | Ending     \<comment> \<open>after the loop, before \<open>m_running = false\<close>\<close>
  | Finished   \<comment> \<open>\<open>run\<close> has returned, the thread is joinable\<close>

record DBPolicy =
  m_recordsQueue :: "Record_t list"
  m_running :: bool
  m_stop :: bool
  m_trigger :: "32 word"
  m_triggerCounter :: "32 word"
  m_startTime :: int
  m_dbFile :: string
  m_dbOpen :: bool              \<comment> \<open>\<open>m_db\<close> and the prepared statements are not null\<close>
  m_db :: "sql_call list"
  m_workerThread :: worker

definition DBPolicy_init :: "32 word \<Rightarrow> int \<Rightarrow> DBPolicy" where
  "DBPolicy_init trigger startTime =
     \<lparr>m_recordsQueue = [], m_running = False, m_stop = True, m_trigger = trigger,
      m_triggerCounter = 0, m_startTime = startTime, m_dbFile = '''', m_dbOpen = False,
      m_db = [], m_workerThread = NoThread\<rparr>"

text \<open>\<^verbatim>\<open>notify_one\<close> and \<^verbatim>\<open>notify_all\<close>: the worker is the only thread that ever waits.\<close>

definition notify :: "DBPolicy \<Rightarrow> DBPolicy" where
  "notify p = (if m_workerThread p = Waiting then p\<lparr>m_workerThread := Notified\<rparr> else p)"

text \<open>
  The union member that \<^verbatim>\<open>push\<close> assigns. For a string the code assigns to a
  \<^verbatim>\<open>std::string\<close> that was never constructed.
\<close>

definition push_data ::
  "(Type \<Rightarrow> property \<Rightarrow> val res) \<Rightarrow> Type option \<Rightarrow> 16 word \<Rightarrow> val res" where
  "push_data get ty pid =
     (case ty of
        None \<Rightarrow> Inr (VInt64 0)
      | Some t \<Rightarrow> bindR (get t (prop_of_id pid)) (\<lambda>v.
          if t = String then Inl InactiveUnionMember else Inr v))"

definition push_record ::
  "(Type \<Rightarrow> property \<Rightarrow> val res) \<Rightarrow> int \<Rightarrow> DBPolicy \<Rightarrow> 16 word \<Rightarrow> Type option \<Rightarrow> 16 word \<Rightarrow> Record_t res"
  where
  "push_record get now p clientId ty pid =
     bindR (push_data get ty pid) (\<lambda>d.
       Inr \<lparr>r_timeSinceStart = now - m_startTime p, r_clientId = clientId, r_registryType = ty,
            r_property = pid, r_data = d\<rparr>)"

text \<open>
  \<^verbatim>\<open>push\<close> in its two parts: the test of \<^verbatim>\<open>m_stop\<close> and the record are made without the lock, the
  record is queued under it. Other threads may run between the parts (\<open>step_enqueue\<close> below);
  \<open>DB_push\<close> is the push that is not interrupted.

  The trigger and its counter are 32-bit integers. In a run of a policy with a trigger below
  \<open>2 ^ 31 - 1\<close> the increment never overflows (\<open>DB_counter_bound\<close>); with the trigger \<open>2 ^ 31 - 1\<close>, where
  C++ leaves the overflow undefined, it wraps here.
\<close>

definition DB_record ::
  "(Type \<Rightarrow> property \<Rightarrow> val res) \<Rightarrow> int \<Rightarrow> DBPolicy \<Rightarrow> 16 word \<Rightarrow> Type option \<Rightarrow> 16 word \<Rightarrow>
     Record_t option res"
  where
  "DB_record get now p clientId ty pid =
     (if m_stop p then Inr None
      else bindR (push_record get now p clientId ty pid) (\<lambda>r. Inr (Some r)))"

definition DB_enqueue :: "Record_t \<Rightarrow> DBPolicy \<Rightarrow> DBPolicy" where
  "DB_enqueue r p =
     (let p1 = p\<lparr>m_recordsQueue := m_recordsQueue p @ [r],
                 m_triggerCounter := m_triggerCounter p + 1\<rparr>
      in if m_trigger p <s m_triggerCounter p1
         then (notify p1)\<lparr>m_triggerCounter := 0\<rparr> else p1)"

definition DB_push ::
  "(Type \<Rightarrow> property \<Rightarrow> val res) \<Rightarrow> int \<Rightarrow> DBPolicy \<Rightarrow> 16 word \<Rightarrow> Type option \<Rightarrow> 16 word \<Rightarrow> DBPolicy res"
  where
  "DB_push get now p clientId ty pid =
     bindR (DB_record get now p clientId ty pid) (\<lambda>ro.
       Inr (case ro of None \<Rightarrow> p | Some r \<Rightarrow> DB_enqueue r p))"

text \<open>
  \<^verbatim>\<open>start\<close>; \<open>home\<close> is the result of \<^verbatim>\<open>getenv("HOME")\<close>, \<open>stamp\<close> the formatted time. Assigning to a
  joinable \<^verbatim>\<open>std::thread\<close> terminates the program.
\<close>

definition DB_start :: "string option \<Rightarrow> string \<Rightarrow> string \<Rightarrow> DBPolicy \<Rightarrow> DBPolicy res" where
  "DB_start home stamp dbFile p =
     bindR (if dbFile = ''''
            then (case home of
                    None \<Rightarrow> Inl NullDeref
                  | Some h \<Rightarrow> Inr (h @ ''/VERNER-Captures/'' @ stamp))
            else Inr dbFile) (\<lambda>f.
       if m_workerThread p \<noteq> NoThread then Inl ThreadTerminate
       else Inr (p\<lparr>m_dbFile := f, m_stop := False, m_workerThread := Starting\<rparr>))"

definition DB_enable :: "string option \<Rightarrow> string \<Rightarrow> string \<Rightarrow> DBPolicy \<Rightarrow> DBPolicy res" where
  "DB_enable home stamp dbFile p =
     (if m_running p then Inr p else DB_start home stamp dbFile p)"

text \<open>One step of \<^verbatim>\<open>run\<close>; \<open>None\<close> when there is no thread, it has ended, or it waits.\<close>

definition worker_step :: "bool \<Rightarrow> DBPolicy \<Rightarrow> DBPolicy res option" where
  "worker_step open_ok p =
     (case m_workerThread p of
        NoThread \<Rightarrow> None
      | Starting \<Rightarrow> Some (Inr (p\<lparr>m_running := True, m_workerThread := Opening\<rparr>))
      | Opening \<Rightarrow>
          if open_ok
          then Some (bindR (db_setup (m_dbOpen p)) (\<lambda>cs.
                 Inr (p\<lparr>m_db := m_db p @ SqlOpen (m_dbFile p) # cs, m_dbOpen := True,
                        m_workerThread := Checking\<rparr>)))
          else Some (Inr (p\<lparr>m_db := m_db p @ [SqlOpen (m_dbFile p), SqlClose],
                            m_workerThread := Finished\<rparr>))
      | Checking \<Rightarrow> Some (Inr (p\<lparr>m_workerThread := (if m_stop p then Ending else Locking)\<rparr>))
      | Locking \<Rightarrow> Some (Inr (p\<lparr>m_workerThread := Waiting\<rparr>))
      | Waiting \<Rightarrow> None
      | Notified \<Rightarrow>
          Some (bindR (drain (m_recordsQueue p)) (\<lambda>cs.
            Inr (p\<lparr>m_db := m_db p @ beginTransaction @ cs @ commit, m_recordsQueue := [],
                   m_workerThread := Checking\<rparr>)))
      | Ending \<Rightarrow> Some (Inr (p\<lparr>m_running := False, m_workerThread := Finished\<rparr>))
      | Finished \<Rightarrow> None)"

text \<open>
  The worker running while another thread waits for its end, until it blocks or ends. \<open>woken\<close>
  says whether a worker that waits is woken all the same, by a spurious wakeup of its condition
  variable. No other thread pushes meanwhile: the steps \<open>db_step\<close> below have the interleavings with
  pushes, also with one that had tested \<^verbatim>\<open>m_stop\<close> before the stop set it.  Under \<open>m_stop\<close> it takes at most
  six steps (\<open>join_fuel_enough\<close> below).
\<close>

fun worker_run :: "nat \<Rightarrow> bool \<Rightarrow> bool \<Rightarrow> DBPolicy \<Rightarrow> DBPolicy res" where
  "worker_run 0 woken open_ok p = Inr p"
| "worker_run (Suc n) woken open_ok p =
     (case worker_step open_ok p of
        None \<Rightarrow>
          if woken \<and> m_workerThread p = Waiting
          then worker_run n woken open_ok (p\<lparr>m_workerThread := Notified\<rparr>) else Inr p
      | Some r \<Rightarrow> bindR r (worker_run n woken open_ok))"

definition DB_join :: "bool \<Rightarrow> bool \<Rightarrow> DBPolicy \<Rightarrow> DBPolicy res" where
  "DB_join woken open_ok p =
     (if m_workerThread p = NoThread then Inl ThreadTerminate
      else bindR (worker_run 6 woken open_ok p) (\<lambda>p1.
        if m_workerThread p1 = Finished then Inr (p1\<lparr>m_workerThread := NoThread\<rparr>)
        else Inl Deadlock))"

definition signal_stop :: "DBPolicy \<Rightarrow> DBPolicy" where
  "signal_stop p = notify (p\<lparr>m_stop := True\<rparr>)"

definition DB_stop :: "bool \<Rightarrow> bool \<Rightarrow> DBPolicy \<Rightarrow> DBPolicy res" where
  "DB_stop woken open_ok p =
     (if m_running p then DB_join woken open_ok (signal_stop p) else Inr p)"

definition DB_disable :: "bool \<Rightarrow> bool \<Rightarrow> DBPolicy \<Rightarrow> DBPolicy res" where
  "DB_disable woken open_ok p = (if m_running p then DB_stop woken open_ok p else Inr p)"

text \<open>The destructor; then the member \<^verbatim>\<open>std::thread\<close> is destroyed, which must not be joinable.\<close>

definition DB_destroy :: "bool \<Rightarrow> bool \<Rightarrow> DBPolicy \<Rightarrow> DBPolicy res" where
  "DB_destroy woken open_ok p = bindR (DB_stop woken open_ok p) (\<lambda>p1.
     if m_workerThread p1 = NoThread then Inr p1 else Inl ThreadTerminate)"

section \<open>Typed records\<close>

text \<open>A record can be inserted when its type is proper and its union member is that type's.\<close>

definition typed_record :: "Record_t \<Rightarrow> bool" where
  "typed_record r \<longleftrightarrow> r_registryType r = Some (vtype (r_data r)) \<and> vtype (r_data r) \<noteq> String"

text \<open>What a reader of the registry promises: the value of a type has that type.\<close>

definition typed_get :: "(Type \<Rightarrow> property \<Rightarrow> val res) \<Rightarrow> bool" where
  "typed_get get \<longleftrightarrow> (\<forall>t p v. get t p = Inr v \<longrightarrow> vtype v = t)"

definition insert_calls :: "Record_t \<Rightarrow> sql_call list" where
  "insert_calls r = (case insertRecord r of Inr cs \<Rightarrow> cs | Inl _ \<Rightarrow> [])"

lemma insertRecord_total: "r_registryType r = Some t \<Longrightarrow> insertRecord r = Inr (insert_calls r)"
  by (simp add: insert_calls_def insertRecord_def Let_def)

lemma drain_total:
  "\<forall>r \<in> set rs. r_registryType r \<noteq> None \<Longrightarrow> drain rs = Inr (concat (map insert_calls rs))"
  by (induction rs) (auto simp: insertRecord_total)

lemma drain_eq: "drain rs = Inr cs \<Longrightarrow> cs = concat (map insert_calls rs)"
proof (induction rs arbitrary: cs)
  case Nil
  then show ?case by simp
next
  case (Cons r rs)
  then obtain c d where "insertRecord r = Inr c" "drain rs = Inr d" "cs = c @ d"
    by (auto simp: res_simps)
  with Cons.IH show ?case by (simp add: insert_calls_def)
qed

lemma push_record_type:
  "push_record get now p c ty pid = Inr r \<Longrightarrow> r_registryType r = ty \<and> r_property r = pid \<and>
     r_clientId r = c \<and> r_timeSinceStart r = now - m_startTime p"
  by (auto simp: push_record_def res_simps)

lemma push_record_typed:
  "typed_get get \<Longrightarrow> push_record get now p c (Some t) pid = Inr r \<Longrightarrow> typed_record r"
  by (auto simp: push_record_def push_data_def typed_get_def typed_record_def res_simps
      split: if_splits)

section \<open>The calls of a set-up\<close>

text \<open>Calls that write a row of one of the \<^verbatim>\<open>sets\<close> tables.\<close>

fun is_row_call :: "sql_call \<Rightarrow> bool" where
  "is_row_call (SqlBindInt (StInsertSet t) n i) = True"
| "is_row_call (SqlBindInt64 (StInsertSet t) n i) = True"
| "is_row_call (SqlBindDouble (StInsertSet t) n v) = True"
| "is_row_call (SqlBindText (StInsertSet t) n s) = True"
| "is_row_call (SqlStep (StInsertSet t)) = True"
| "is_row_call (SqlReset (StInsertSet t)) = True"
| "is_row_call _ = False"

definition row_calls :: "DBPolicy \<Rightarrow> sql_call list" where
  "row_calls p = filter is_row_call (m_db p)"

lemma concatR_Inr:
  "concatR rs = Inr xs \<Longrightarrow> \<exists>yss. rs = map Inr yss \<and> xs = concat yss"
proof (induction rs arbitrary: xs)
  case (Cons r rs)
  then obtain a b where "r = Inr a" "concatR rs = Inr b" "xs = a @ b" by (auto simp: res_simps)
  moreover from Cons.IH [OF this(2)] obtain yss where "rs = map Inr yss" "b = concat yss" by blast
  ultimately show ?case by (intro exI [of _ "a # yss"]) simp
qed simp

lemma concatR_total: "concatR (map Inr yss) = Inr (concat yss)"
  by (induction yss) simp_all

lemma filter_bind_value [simp]:
  "filter is_row_call (bind_value (StInsertSet t) n v) = bind_value (StInsertSet t) n v"
  by (cases v) simp_all

lemma filter_insert_calls [simp]: "filter is_row_call (insert_calls r) = insert_calls r"
  by (simp add: insert_calls_def insertRecord_def setNthParamFromRecord_def Let_def
      split: option.splits)

lemma filter_insert_calls_concat [simp]:
  "filter is_row_call (concat (map insert_calls rs)) = concat (map insert_calls rs)"
  by (induction rs) simp_all

lemma general_row_no_rows:
  "general_row t i = Inr cs \<Longrightarrow> filter is_row_call cs = []"
  by (auto simp: general_row_def res_simps)

lemma general_rows_no_rows: "general_rows = Inr cs \<Longrightarrow> filter is_row_call cs = []"
proof -
  assume "general_rows = Inr cs"
  from concatR_Inr [OF this [unfolded general_rows_def]] obtain yss where
    rows: "concat (map (\<lambda>t. map (general_row t) [0..<GetEntryCount t]) all_types) = map Inr yss"
    and cs: "cs = concat yss" by blast
  have "filter is_row_call y = []" if "y \<in> set yss" for y
  proof -
    have "(Inr y :: sql_call list res) \<in> set (map Inr yss)" using that by simp
    then obtain t i where "general_row t i = Inr y" unfolding rows [symmetric] by auto
    then show ?thesis by (rule general_row_no_rows)
  qed
  then show ?thesis by (simp add: cs filter_concat)
qed

lemma prepareStatement_no_rows [simp]: "filter is_row_call (prepareStatement h st sql) = []"
  by (simp add: prepareStatement_def)

lemma transaction_no_rows [simp]:
  "filter is_row_call beginTransaction = []" "filter is_row_call commit = []"
  by (simp_all add: beginTransaction_def commit_def)

lemma db_setup_no_rows: "db_setup h = Inr cs \<Longrightarrow> filter is_row_call cs = []"
  by (auto simp: db_setup_def res_simps general_rows_no_rows filter_concat comp_def filter_map)

lemma general_row_total:
  assumes "i < GetEntryCount t"
  shows "is_ok (general_row t i)"
proof -
  have "i < 2 ^ 32" using assms GetEntryCount_le [of t] by simp
  then have "unat (word_of_nat i :: 32 word) = i"
    by (simp add: unsigned_of_nat take_bit_nat_eq_self)
  then show ?thesis using assms
    by (simp add: general_row_def GetNameOfEntryClass_def length_entry_names)
qed

lemma concatR_ok: "\<forall>r \<in> set rs. is_ok r \<Longrightarrow> is_ok (concatR rs)"
  by (induction rs) (auto simp: is_ok_iff res_simps)

lemma db_setup_ok: "is_ok (db_setup h)"
proof -
  have "is_ok general_rows"
    unfolding general_rows_def by (rule concatR_ok) (auto simp: general_row_total)
  then obtain rows where r: "general_rows = Inr rows" by (rule is_okE)
  show ?thesis unfolding db_setup_def r bindR.simps by (rule is_ok_simps)
qed

lemma db_setup_total: obtains cs where "db_setup h = Inr cs"
  using db_setup_ok [of h] by (auto elim: is_okE)

section \<open>Interleavings\<close>

text \<open>
  The policy is shared by the worker and the threads that push, enable and disable. A client's
  \<^verbatim>\<open>stop\<close> is two steps, the signal and the join, so that other threads may run between them. A
  push is one step, or only its second part at \<open>p\<close>, after its first part at an earlier state \<open>q\<close>
  of the same policy: between them the policy may have been stopped.
\<close>

datatype db_label =
    LPush "Type \<Rightarrow> property \<Rightarrow> val res" int "16 word" "Type option" "16 word"
  | LEnqueue Record_t
  | LEnable "string option" string string
  | LSignal
  | LJoin
  | LWorker bool
  | LSpurious

inductive db_step :: "DBPolicy \<Rightarrow> db_label \<Rightarrow> DBPolicy \<Rightarrow> bool" where
  step_push: "DB_push get now p c ty pid = Inr p' \<Longrightarrow> db_step p (LPush get now c ty pid) p'"
| step_enqueue: "DB_record get now q c ty pid = Inr (Some r) \<Longrightarrow> m_startTime q = m_startTime p \<Longrightarrow>
    db_step p (LEnqueue r) (DB_enqueue r p)"
| step_enable: "DB_enable home stamp f p = Inr p' \<Longrightarrow> db_step p (LEnable home stamp f) p'"
| step_signal: "m_running p \<Longrightarrow> db_step p LSignal (signal_stop p)"
| step_join: "m_workerThread p = Finished \<Longrightarrow> db_step p LJoin (p\<lparr>m_workerThread := NoThread\<rparr>)"
| step_worker: "worker_step ok p = Some (Inr p') \<Longrightarrow> db_step p (LWorker ok) p'"
| step_spurious: "m_workerThread p = Waiting \<Longrightarrow>
    db_step p LSpurious (p\<lparr>m_workerThread := Notified\<rparr>)"

inductive_cases db_stepE: "db_step p l p'"

text \<open>The record that a step enqueues.\<close>

fun db_pushed :: "DBPolicy \<Rightarrow> db_label \<Rightarrow> Record_t list" where
  "db_pushed p (LPush get now c ty pid) =
     (if m_stop p then []
      else case push_record get now p c ty pid of Inr r \<Rightarrow> [r] | Inl _ \<Rightarrow> [])"
| "db_pushed p (LEnqueue r) = [r]"
| "db_pushed p _ = []"

inductive db_run :: "DBPolicy \<Rightarrow> Record_t list \<Rightarrow> DBPolicy \<Rightarrow> bool" where
  run_refl: "db_run p [] p"
| run_step: "db_run p rs p1 \<Longrightarrow> db_step p1 l p2 \<Longrightarrow> db_run p (rs @ db_pushed p1 l) p2"

text \<open>The rows of the \<^verbatim>\<open>sets\<close> tables: those written, then those of the queue.\<close>

definition all_rows :: "DBPolicy \<Rightarrow> sql_call list" where
  "all_rows p = row_calls p @ concat (map insert_calls (m_recordsQueue p))"

lemma notify_frame [frame_simps, simp]:
  "m_recordsQueue (notify p) = m_recordsQueue p" "m_db (notify p) = m_db p"
  "m_stop (notify p) = m_stop p" "m_running (notify p) = m_running p"
  "m_trigger (notify p) = m_trigger p" "m_triggerCounter (notify p) = m_triggerCounter p"
  "m_dbOpen (notify p) = m_dbOpen p" "m_dbFile (notify p) = m_dbFile p"
  by (simp_all add: notify_def)

lemma all_rows_notify [simp]: "all_rows (notify p) = all_rows p"
  by (simp add: all_rows_def row_calls_def)

lemma all_rows_cong:
  "m_db p = m_db q \<Longrightarrow> m_recordsQueue p = m_recordsQueue q \<Longrightarrow> all_rows p = all_rows q"
  by (simp add: all_rows_def row_calls_def)

lemma DB_enqueue_frame [simp]:
  "m_recordsQueue (DB_enqueue r p) = m_recordsQueue p @ [r]" "m_db (DB_enqueue r p) = m_db p"
  "m_running (DB_enqueue r p) = m_running p" "m_stop (DB_enqueue r p) = m_stop p"
  "m_trigger (DB_enqueue r p) = m_trigger p" "m_startTime (DB_enqueue r p) = m_startTime p"
  "m_triggerCounter (DB_enqueue r p) = (if m_trigger p <s m_triggerCounter p + 1 then 0
     else m_triggerCounter p + 1)"
  "m_workerThread p \<noteq> Waiting \<Longrightarrow> m_workerThread (DB_enqueue r p) = m_workerThread p"
  by (simp_all add: DB_enqueue_def notify_def Let_def)

lemma all_rows_enqueue: "all_rows (DB_enqueue r p) = all_rows p @ insert_calls r"
  by (simp add: all_rows_def row_calls_def)

lemma DB_push_eq:
  "DB_push get now p c ty pid =
     (if m_stop p then Inr p
      else bindR (push_record get now p c ty pid) (\<lambda>r. Inr (DB_enqueue r p)))"
  by (cases "push_record get now p c ty pid") (simp_all add: DB_push_def DB_record_def)

lemma DB_push_cases:
  assumes "DB_push get now p c ty pid = Inr p'"
  obtains "m_stop p" and "p' = p"
  | r where "\<not> m_stop p" and "push_record get now p c ty pid = Inr r"
    and "p' = DB_enqueue r p" and "m_stop p' = m_stop p"
  using assms by (auto simp: DB_push_eq res_simps split: if_splits)

lemma worker_step_rows:
  assumes "worker_step ok p = Some (Inr p')"
  shows "all_rows p' = all_rows p"
proof (cases "m_workerThread p")
  case Opening
  show ?thesis
  proof (cases ok)
    case True
    with assms Opening obtain cs where "db_setup (m_dbOpen p) = Inr cs"
      and "p' = p\<lparr>m_db := m_db p @ SqlOpen (m_dbFile p) # cs, m_dbOpen := True,
        m_workerThread := Checking\<rparr>"
      by (auto simp: worker_step_def res_simps)
    then show ?thesis by (simp add: all_rows_def row_calls_def db_setup_no_rows)
  qed (use assms Opening in \<open>auto simp: worker_step_def all_rows_def row_calls_def\<close>)
next
  case Notified
  with assms obtain cs where cs: "drain (m_recordsQueue p) = Inr cs"
    and "p' = p\<lparr>m_db := m_db p @ beginTransaction @ cs @ commit, m_recordsQueue := [],
      m_workerThread := Checking\<rparr>"
    by (auto simp: worker_step_def res_simps)
  then show ?thesis by (simp add: all_rows_def row_calls_def drain_eq [OF cs])
qed (use assms in \<open>auto simp: worker_step_def intro!: all_rows_cong split: if_splits\<close>)

lemma db_step_rows:
  "db_step p l p' \<Longrightarrow> all_rows p' = all_rows p @ concat (map insert_calls (db_pushed p l))"
proof (induction rule: db_step.induct)
  case (step_push get now p c ty pid p')
  then show ?case
  proof (rule DB_push_cases)
    fix r
    assume "\<not> m_stop p" "push_record get now p c ty pid = Inr r" "p' = DB_enqueue r p"
    then show ?thesis by (simp add: all_rows_enqueue)
  qed simp
next
  case (step_enable home stamp f p p')
  then have "m_db p' = m_db p" "m_recordsQueue p' = m_recordsQueue p"
    by (auto simp: DB_enable_def DB_start_def res_simps split: if_splits)
  then have "all_rows p' = all_rows p" by (rule all_rows_cong)
  then show ?case by simp
next
  case (step_enqueue get now q c ty pid r p)
  show ?case by (simp add: all_rows_enqueue)
next
  case (step_worker ok p p')
  then show ?case by (simp add: worker_step_rows)
qed (auto simp: signal_stop_def all_rows_def row_calls_def)

lemma db_run_rows: "db_run q rs p \<Longrightarrow> all_rows p = all_rows q @ concat (map insert_calls rs)"
proof (induction rule: db_run.induct)
  case (run_step p rs p1 l p2)
  then show ?case using db_step_rows by simp
qed simp

text \<open>Property C22.  Whatever the interleaving of pushes, enabling, stopping, spurious wakeups and
  the worker, every record pushed on a policy that is not stopped when the push begins is
  inserted in the database or still queued, exactly once and in the order in which the pushes
  take the queue's lock, also when the policy is stopped between their test and the lock.\<close>

theorem DB_fifo_exactly_once:
  assumes "db_run (DBPolicy_init trigger t0) rs p"
  shows "row_calls p @ concat (map insert_calls (m_recordsQueue p)) = concat (map insert_calls rs)"
  using db_run_rows [OF assms] by (simp add: all_rows_def row_calls_def DBPolicy_init_def)

section \<open>Stopping\<close>

lemmas worker_defs = worker_step_def signal_stop_def notify_def

text \<open>
  Under \<open>m_stop\<close> six steps take the worker from any place to its end or to the wait: more fuel
  changes nothing.
\<close>

lemma worker_run_blocked:
  "worker_step ok p = None \<Longrightarrow> \<not> wk \<or> m_workerThread p \<noteq> Waiting \<Longrightarrow> worker_run n wk ok p = Inr p"
  by (cases n) auto

lemma worker_run_Suc:
  "worker_step ok p = Some (Inr q) \<Longrightarrow> 0 < n \<Longrightarrow> worker_run n wk ok p = worker_run (n - 1) wk ok q"
  by (cases n) simp_all

lemma worker_run_Ending:
  assumes "m_workerThread p = Ending" and "0 < n"
  shows "worker_run n wk ok p = Inr (p\<lparr>m_running := False, m_workerThread := Finished\<rparr>)"
proof -
  have "worker_step ok p = Some (Inr (p\<lparr>m_running := False, m_workerThread := Finished\<rparr>))"
    using assms(1) by (simp add: worker_step_def)
  from worker_run_Suc [OF this assms(2)] show ?thesis
    by (simp add: worker_run_blocked worker_step_def)
qed

lemma worker_run_Checking:
  assumes "m_workerThread p = Checking" and "m_stop p" and "1 < n"
  shows "worker_run n wk ok p = Inr (p\<lparr>m_running := False, m_workerThread := Finished\<rparr>)"
proof -
  have "worker_step ok p = Some (Inr (p\<lparr>m_workerThread := Ending\<rparr>))"
    using assms(1,2) by (simp add: worker_step_def)
  from worker_run_Suc [OF this, of n] assms(3) show ?thesis
    by (simp add: worker_run_Ending)
qed

lemma worker_run_Notified:
  assumes "m_workerThread p = Notified" and "m_stop p" and "2 < n"
    and "\<forall>r \<in> set (m_recordsQueue p). r_registryType r \<noteq> None"
  shows "worker_run n wk ok p = Inr (p\<lparr>m_db := m_db p @ beginTransaction @
           concat (map insert_calls (m_recordsQueue p)) @ commit,
         m_recordsQueue := [], m_running := False, m_workerThread := Finished\<rparr>)"
proof -
  have "worker_step ok p = Some (Inr (p\<lparr>m_db := m_db p @ beginTransaction @
           concat (map insert_calls (m_recordsQueue p)) @ commit, m_recordsQueue := [],
           m_workerThread := Checking\<rparr>))"
    using assms(1) drain_total [OF assms(4)] by (simp add: worker_step_def)
  from worker_run_Suc [OF this, of n] assms(2,3) show ?thesis
    by (simp add: worker_run_Checking)
qed

text \<open>What the join finds once the worker has written the queue and ended.\<close>

definition drained :: "DBPolicy \<Rightarrow> DBPolicy" where
  "drained p = p\<lparr>m_db := m_db p @ beginTransaction @
       concat (map insert_calls (m_recordsQueue p)) @ commit,
     m_recordsQueue := [], m_running := False, m_workerThread := Finished\<rparr>"

lemma worker_run_Waiting:
  assumes "m_workerThread p = Waiting" and "m_stop p" and "3 < n"
    and "\<forall>r \<in> set (m_recordsQueue p). r_registryType r \<noteq> None"
  shows "worker_run n wk ok p = Inr (if wk then drained p else p)"
proof -
  have none: "worker_step ok p = None" using assms(1) by (simp add: worker_step_def)
  show ?thesis
  proof (cases wk)
    case True
    let ?q = "p\<lparr>m_workerThread := Notified\<rparr>"
    have "worker_run n wk ok p = worker_run (n - 1) wk ok ?q"
      using none assms(1,3) True by (cases n) simp_all
    then show ?thesis
      using worker_run_Notified [of ?q "n - 1" wk ok] assms True by (simp add: drained_def)
  qed (use none worker_run_blocked in simp)
qed

lemma worker_run_Locking:
  assumes "m_workerThread p = Locking" and "m_stop p" and "4 < n"
    and "\<forall>r \<in> set (m_recordsQueue p). r_registryType r \<noteq> None"
  shows "worker_run n wk ok p =
    Inr (if wk then drained p else p\<lparr>m_workerThread := Waiting\<rparr>)"
proof -
  let ?q = "p\<lparr>m_workerThread := Waiting\<rparr>"
  have "worker_step ok p = Some (Inr ?q)" using assms(1) by (simp add: worker_step_def)
  from worker_run_Suc [OF this, of n wk] worker_run_Waiting [of ?q "n - 1" wk ok] assms
  show ?thesis by (simp add: drained_def)
qed

lemma worker_run_Opening:
  assumes "m_workerThread p = Opening" and "m_stop p" and "2 < n"
    and "db_setup (m_dbOpen p) = Inr cs"
  shows "worker_run n wk ok p = Inr (if ok
     then p\<lparr>m_db := m_db p @ SqlOpen (m_dbFile p) # cs, m_dbOpen := True,
            m_running := False, m_workerThread := Finished\<rparr>
     else p\<lparr>m_db := m_db p @ [SqlOpen (m_dbFile p), SqlClose], m_workerThread := Finished\<rparr>)"
proof (cases ok)
  case True
  then have "worker_step ok p = Some (Inr (p\<lparr>m_db := m_db p @ SqlOpen (m_dbFile p) # cs,
      m_dbOpen := True, m_workerThread := Checking\<rparr>))"
    using assms(1,4) by (simp add: worker_step_def)
  from worker_run_Suc [OF this, of n] assms(2,3) True show ?thesis
    by (simp add: worker_run_Checking)
next
  case False
  then have "worker_step ok p = Some (Inr (p\<lparr>m_db := m_db p @ [SqlOpen (m_dbFile p), SqlClose],
      m_workerThread := Finished\<rparr>))"
    using assms(1) by (simp add: worker_step_def)
  from worker_run_Suc [OF this, of n] assms(3) False show ?thesis
    by (simp add: worker_run_blocked worker_step_def)
qed

lemma worker_run_Starting:
  assumes "m_workerThread p = Starting" and "m_stop p" and "3 < n" and "db_setup (m_dbOpen p) = Inr cs"
  shows "worker_run n wk ok p = Inr (if ok
     then p\<lparr>m_db := m_db p @ SqlOpen (m_dbFile p) # cs, m_dbOpen := True,
            m_running := False, m_workerThread := Finished\<rparr>
     else p\<lparr>m_db := m_db p @ [SqlOpen (m_dbFile p), SqlClose], m_running := True,
            m_workerThread := Finished\<rparr>)"
proof -
  let ?q = "p\<lparr>m_running := True, m_workerThread := Opening\<rparr>"
  have "worker_step ok p = Some (Inr ?q)" using assms(1) by (simp add: worker_step_def)
  from worker_run_Suc [OF this, of n wk] worker_run_Opening [of ?q "n - 1" cs wk ok] assms
  show ?thesis by simp
qed

lemmas worker_runs = worker_run_Checking worker_run_Ending worker_run_Notified worker_run_Waiting
  worker_run_Locking worker_run_Opening worker_run_Starting

text \<open>
  The fuel of \<open>DB_join\<close> is enough: after it, under \<open>m_stop\<close>, the worker has ended or waits for a
  wakeup that does not come.
\<close>

lemma join_fuel_enough:
  assumes "m_stop p" and "\<forall>r \<in> set (m_recordsQueue p). r_registryType r \<noteq> None"
  shows "\<exists>q. worker_run 6 wk ok p = Inr q \<and> worker_step ok q = None \<and>
    (wk \<longrightarrow> m_workerThread q \<noteq> Waiting)"
proof -
  obtain cs where cs: "db_setup (m_dbOpen p) = Inr cs" by (rule db_setup_total)
  show ?thesis
    by (cases "m_workerThread p")
      (use assms cs in \<open>simp_all add: worker_runs [of p] worker_run_blocked worker_step_def
         drained_def\<close>)
qed

text \<open>The outcomes of a stop that returns: the queue is written; it is left as it is.\<close>

definition flushed :: "DBPolicy \<Rightarrow> DBPolicy" where
  "flushed p = p\<lparr>m_db := m_db p @ beginTransaction @
       concat (map insert_calls (m_recordsQueue p)) @ commit,
     m_recordsQueue := [], m_stop := True, m_running := False, m_workerThread := NoThread\<rparr>"

definition ended :: "DBPolicy \<Rightarrow> DBPolicy" where
  "ended p = p\<lparr>m_stop := True, m_running := False, m_workerThread := NoThread\<rparr>"

lemma signal_stop_frame [simp]:
  "m_recordsQueue (signal_stop p) = m_recordsQueue p" "m_db (signal_stop p) = m_db p"
  "m_stop (signal_stop p)" "m_running (signal_stop p) = m_running p"
  "m_dbOpen (signal_stop p) = m_dbOpen p" "m_dbFile (signal_stop p) = m_dbFile p"
  "m_workerThread (signal_stop p) =
     (if m_workerThread p = Waiting then Notified else m_workerThread p)"
  by (simp_all add: signal_stop_def) (simp add: notify_def)

lemma DB_stop_run:
  assumes "m_running p" and "m_workerThread p \<noteq> NoThread"
    and "worker_run 6 wk ok (signal_stop p) = Inr q"
  shows "DB_stop wk ok p = (if m_workerThread q = Finished then Inr (q\<lparr>m_workerThread := NoThread\<rparr>)
    else Inl Deadlock)"
  using assms by (simp add: DB_stop_def DB_join_def)


definition waiting_example :: DBPolicy where
  "waiting_example = (DBPolicy_init 50 0)\<lparr>m_running := True, m_stop := False,
     m_workerThread := Waiting, m_recordsQueue := [Record_init 7]\<rparr>"

text \<open>The same policy with the worker at other places.\<close>

definition at_place :: "worker \<Rightarrow> DBPolicy" where
  "at_place place = waiting_example\<lparr>m_workerThread := place\<rparr>"


text \<open>The states of a run that starts with one \<^verbatim>\<open>enable\<close>.\<close>

definition enabled :: "32 word \<Rightarrow> int \<Rightarrow> string \<Rightarrow> DBPolicy" where
  "enabled trigger t0 f =
     (DBPolicy_init trigger t0)\<lparr>m_dbFile := f, m_stop := False, m_workerThread := Starting\<rparr>"

definition enabled_file :: "string \<Rightarrow> string \<Rightarrow> string \<Rightarrow> string" where
  "enabled_file h stamp f = (if f = '''' then h @ ''/VERNER-Captures/'' @ stamp else f)"

lemma DB_enable_fresh:
  "DB_enable (Some h) stamp f (DBPolicy_init trigger t0) =
     Inr (enabled trigger t0 (enabled_file h stamp f))"
  by (simp add: DB_enable_def DB_start_def DBPolicy_init_def enabled_def enabled_file_def)

lemma run_enabled:
  "db_run (DBPolicy_init trigger t0) [] (enabled trigger t0 (enabled_file h stamp f))"
  using run_step [OF run_refl step_enable [OF DB_enable_fresh]] by simp

lemma run_worker:
  "db_run p [] q \<Longrightarrow> worker_step ok q = Some (Inr q') \<Longrightarrow> db_run p [] q'"
  using run_step [OF _ step_worker] by fastforce

definition at_opening :: "32 word \<Rightarrow> int \<Rightarrow> string \<Rightarrow> DBPolicy" where
  "at_opening trigger t0 f =
     (enabled trigger t0 f)\<lparr>m_running := True, m_workerThread := Opening\<rparr>"

lemma run_opening:
  "db_run (DBPolicy_init trigger t0) [] (at_opening trigger t0 (enabled_file h stamp f))"
  by (rule run_worker [OF run_enabled, where ok = True])
    (simp add: at_opening_def enabled_def worker_step_def)

text \<open>The window of the lost notification is real: one \<^verbatim>\<open>enable\<close> and four steps of the
  worker reach a state of the policy where \<^verbatim>\<open>stop\<close> does not return, unless a spurious wakeup
  comes to its help.\<close>

theorem DB_stop_deadlock_reachable:
  "\<exists>p. db_run (DBPolicy_init trigger t0) [] p \<and> m_running p \<and> \<not> m_stop p \<and>
     m_recordsQueue p = [] \<and> DB_stop False ok p = Inl Deadlock"
proof -
  let ?o = "at_opening trigger t0 (enabled_file '''' '''' '''')"
  obtain cs where cs: "db_setup False = Inr cs" by (rule db_setup_total)
  let ?c = "?o\<lparr>m_db := SqlOpen (m_dbFile ?o) # cs, m_dbOpen := True, m_workerThread := Checking\<rparr>"
  let ?l = "?c\<lparr>m_workerThread := Locking\<rparr>"
  have "worker_step True ?o = Some (Inr ?c)" and "worker_step True ?c = Some (Inr ?l)"
    by (simp_all add: worker_step_def at_opening_def enabled_def DBPolicy_init_def cs)
  with run_opening have "db_run (DBPolicy_init trigger t0) [] ?l"
    by (blast intro: run_worker)
  moreover have "DB_stop False ok ?l = Inl Deadlock"
    by (simp add: DB_stop_def DB_join_def signal_stop_def notify_def worker_run_Locking
        at_opening_def enabled_def DBPolicy_init_def)
  ultimately show ?thesis
    by (intro exI [of _ ?l]) (simp add: at_opening_def enabled_def DBPolicy_init_def)
qed

text \<open>While the worker opens the database it has set \<^verbatim>\<open>m_running\<close>.\<close>

lemma opening_running:
  "db_run q rs p \<Longrightarrow> m_workerThread q = NoThread \<Longrightarrow> m_workerThread p = Opening \<longrightarrow> m_running p"
proof (induction rule: db_run.induct)
  case (run_step p rs p1 l p2)
  from run_step.hyps(2) run_step.IH [OF run_step.prems] show ?case
  proof cases
    case (step_push get now c ty pid)
    with run_step.IH [OF run_step.prems] show ?thesis
      by (auto elim!: DB_push_cases simp: DB_enqueue_def notify_def Let_def split: if_splits)
  next
    case (step_enqueue get now q c ty pid r)
    with run_step.IH [OF run_step.prems] show ?thesis
      by (auto simp: DB_enqueue_def notify_def Let_def split: if_splits)
  next
    case (step_worker ok)
    then show ?thesis
      by (auto simp: worker_step_def res_simps split: worker.splits if_splits)
  qed (auto simp: DB_enable_def DB_start_def signal_stop_def notify_def res_simps split: if_splits)
qed simp

text \<open>What every step leaves as it is once the worker has gone and left \<^verbatim>\<open>m_running\<close> set.\<close>

definition wedged :: "DBPolicy \<Rightarrow> bool" where
  "wedged p \<longleftrightarrow> m_running p \<and> m_workerThread p \<in> {Finished, NoThread}"

lemma wedged_step: "db_step p l p' \<Longrightarrow> wedged p \<Longrightarrow> wedged p' \<and> m_db p' = m_db p"
proof (induction rule: db_step.induct)
  case (step_push get now p c ty pid p')
  then show ?case
    by (auto elim!: DB_push_cases simp: wedged_def)
qed (auto simp: wedged_def DB_enable_def signal_stop_def notify_def worker_step_def)

lemma wedged_run: "db_run p rs q \<Longrightarrow> wedged p \<Longrightarrow> wedged q \<and> m_db q = m_db p"
proof (induction rule: db_run.induct)
  case (run_step p rs p1 l p2)
  then show ?case using wedged_step by metis
qed simp

lemma wedged_operations:
  assumes "wedged q"
  shows "DB_enable home stamp f q = Inr q" and "worker_step ok q = None"
    and "DB_disable wk ok q = (if m_workerThread q = Finished
      then Inr (q\<lparr>m_stop := True, m_workerThread := NoThread\<rparr>) else Inl ThreadTerminate)"
proof -
  have cases: "m_workerThread q = Finished \<or> m_workerThread q = NoThread" and run: "m_running q"
    using assms by (auto simp: wedged_def)
  then show "DB_enable home stamp f q = Inr q" "worker_step ok q = None"
    by (auto simp: DB_enable_def worker_step_def)
  show "DB_disable wk ok q = (if m_workerThread q = Finished
      then Inr (q\<lparr>m_stop := True, m_workerThread := NoThread\<rparr>) else Inl ThreadTerminate)"
    using cases run by (auto simp: DB_disable_def DB_stop_def DB_join_def signal_stop_def notify_def
        worker_run_blocked worker_step_def)
qed



text \<open>\<^verbatim>\<open>enable\<close> tests a flag that only the worker sets: a second \<^verbatim>\<open>enable\<close> before the
  worker's first step terminates the program, and so does the destruction of the policy, while
  after that step a second \<^verbatim>\<open>enable\<close> changes nothing.\<close>

theorem DB_enable_race:
  "\<exists>p q. DB_enable (Some h) stamp f (DBPolicy_init trigger t0) = Inr p \<and>
     DB_enable (Some h) stamp f p = Inl ThreadTerminate \<and>
     DB_destroy wk ok p = Inl ThreadTerminate \<and>
     worker_step ok p = Some (Inr q) \<and> DB_enable (Some h) stamp f q = Inr q"
  by (simp add: DB_enable_fresh)
    (simp add: DB_enable_def DB_start_def enabled_def DB_destroy_def DB_stop_def
      DBPolicy_init_def worker_step_def)

section \<open>The trigger\<close>

type_synonym push_args =
  "(Type \<Rightarrow> property \<Rightarrow> val res) \<times> int \<times> 16 word \<times> Type option \<times> 16 word"

fun DB_push_all :: "DBPolicy \<Rightarrow> push_args list \<Rightarrow> DBPolicy res" where
  "DB_push_all p [] = Inr p"
| "DB_push_all p ((get, now, c, ty, pid) # us) =
     bindR (DB_push get now p c ty pid) (\<lambda>p'. DB_push_all p' us)"

text \<open>A push that does not leave defined behaviour: the entry can be read and is not a string.\<close>

definition pushable :: "push_args \<Rightarrow> bool" where
  "pushable u = (case u of (get, now, c, ty, pid) \<Rightarrow>
     (case ty of None \<Rightarrow> True | Some t \<Rightarrow> t \<noteq> String \<and> is_ok (get t (prop_of_id pid))))"

lemma push_data_total:
  "pushable (get, now, c, ty, pid) \<Longrightarrow> \<exists>d. push_data get ty pid = Inr d"
  by (auto simp: pushable_def push_data_def is_ok_iff split: option.splits)

lemma DB_push_active:
  assumes "pushable (get, now, c, ty, pid)" and "\<not> m_stop p"
  obtains r where "DB_push get now p c ty pid = Inr (DB_enqueue r p)"
proof -
  from push_data_total [OF assms(1)] obtain d where "push_data get ty pid = Inr d" by blast
  then have "push_record get now p c ty pid = Inr \<lparr>r_timeSinceStart = now - m_startTime p,
      r_clientId = c, r_registryType = ty, r_property = pid, r_data = d\<rparr>" (is "_ = Inr ?r")
    by (simp add: push_record_def)
  with that [of ?r] assms(2) show ?thesis by (simp add: DB_push_eq)
qed

lemma mod_step: "Suc (T + n) mod Suc T = n mod Suc T"
  using mod_add_self1 [of "Suc T" n] by simp

text \<open>Counting on 32 bits: below \<open>2 ^ 31\<close> the comparison is the one of the numbers.\<close>

lemma sint_small: "n < 2 ^ 31 \<Longrightarrow> sint (word_of_nat n :: 32 word) = int n"
  by (simp add: signed_of_nat signed_take_bit_int_eq_self)

lemma trigger_reached:
  "Suc T < 2 ^ 31 \<Longrightarrow> c \<le> T \<Longrightarrow>
   ((word_of_nat T :: 32 word) <s word_of_nat c + 1) = (c = T)"
proof -
  assume "Suc T < 2 ^ 31" "c \<le> T"
  then have "sint (word_of_nat T :: 32 word) = int T"
    and "sint (word_of_nat (Suc c) :: 32 word) = int (Suc c)"
    by (simp_all only: sint_small)
  moreover have "(word_of_nat (Suc c) :: 32 word) = word_of_nat c + 1" by simp
  ultimately show ?thesis using \<open>c \<le> T\<close> by (simp only: word_sless_alt) linarith
qed

lemma DB_push_all_counter:
  assumes "\<forall>u \<in> set us. pushable u" and "\<not> m_stop p"
    and "m_trigger p = word_of_nat T" and "Suc T < 2 ^ 31"
    and "m_triggerCounter p = word_of_nat c" and "c \<le> T"
    and "m_workerThread p \<in> {Waiting, Notified}"
  shows "\<exists>p'. DB_push_all p us = Inr p' \<and>
    m_triggerCounter p' = word_of_nat ((c + length us) mod Suc T) \<and>
    length (m_recordsQueue p') = length (m_recordsQueue p) + length us \<and>
    m_workerThread p' = (if T < c + length us then Notified else m_workerThread p)"
  using assms
proof (induction us arbitrary: p c)
  case Nil
  then show ?case by simp
next
  case (Cons u us)
  obtain get now cl ty pid where u: "u = (get, now, cl, ty, pid)" by (cases u)
  then have "pushable (get, now, cl, ty, pid)" using Cons.prems(1) by simp
  from DB_push_active [OF this Cons.prems(2)] obtain r where
    r: "DB_push get now p cl ty pid = Inr (DB_enqueue r p)" .
  let ?q = "DB_enqueue r p"
  note reached = trigger_reached [OF Cons.prems(4,6)]
  have q: "m_trigger ?q = word_of_nat T" "\<not> m_stop ?q"
    "length (m_recordsQueue ?q) = Suc (length (m_recordsQueue p))"
    using Cons.prems(2,3) by simp_all
  show ?case
  proof (cases "c = T")
    case True
    have "m_triggerCounter ?q = word_of_nat 0" "m_workerThread ?q = Notified"
      using Cons.prems(3,5,7) reached True by (auto simp: DB_enqueue_def notify_def)
    then show ?thesis
      using Cons.IH [OF _ q(2,1) Cons.prems(4), of 0] Cons.prems(1) True q(3) r u
      by (auto simp: mod_step split: if_splits)
  next
    case False
    have "m_triggerCounter ?q = word_of_nat (Suc c)" "m_workerThread ?q = m_workerThread p"
      using Cons.prems(3,5) reached False by (simp_all add: DB_enqueue_def Let_def)
    then show ?thesis
      using Cons.IH [OF _ q(2,1) Cons.prems(4), of "Suc c"] Cons.prems(1,6,7) False q(3) r u
      by (simp split del: if_split cong: if_cong)
  qed
qed

text \<open>A policy whose trigger is \<open>T\<close> wakes the waiting worker with push number \<open>T + 1\<close>,
  not before; every push enqueues one record, and the counter restarts after \<open>T + 1\<close> pushes.\<close>

theorem DB_push_trigger:
  assumes "\<forall>u \<in> set us. pushable u" and "\<not> m_stop p" and "m_trigger p = word_of_nat T"
    and "Suc T < 2 ^ 31" and "m_triggerCounter p = 0" and "m_workerThread p = Waiting"
  shows "\<exists>p'. DB_push_all p us = Inr p' \<and> m_triggerCounter p' = word_of_nat (length us mod Suc T) \<and>
    length (m_recordsQueue p') = length (m_recordsQueue p) + length us \<and>
    m_workerThread p' = (if T < length us then Notified else Waiting)"
  using DB_push_all_counter [of us p T 0] assms by (simp split del: if_split cong: if_cong)

theorem DB_push_trigger_witness:
  "\<exists>p'. DB_push_all waiting_example (replicate 51 (\<lambda>t p. Inr (VInt16 3), 9, 1, Some Int16, 2)) =
       Inr p' \<and>
    m_triggerCounter p' = word_of_nat (length (replicate 51
       ((\<lambda>t p. Inr (VInt16 3), 9, 1, Some Int16, 2) :: push_args)) mod Suc 50) \<and>
    length (m_recordsQueue p') = length (m_recordsQueue waiting_example) +
       length (replicate 51 ((\<lambda>t p. Inr (VInt16 3), 9, 1, Some Int16, 2) :: push_args)) \<and>
    m_workerThread p' = (if 50 < length (replicate 51
       ((\<lambda>t p. Inr (VInt16 3), 9, 1, Some Int16, 2) :: push_args)) then Notified else Waiting)"
  by (rule DB_push_trigger)
    (simp_all add: waiting_example_def DBPolicy_init_def pushable_def)

text \<open>In every run the counter stays between zero and the trigger, so that the increment of a
  push cannot overflow when the trigger is below the largest 32-bit integer.\<close>

lemma sint_increment:
  assumes "sint (x :: 32 word) < 2 ^ 31 - 1"
  shows "sint (x + 1) = sint x + 1"
proof -
  have "- (2 ^ 31) \<le> sint x" using sint_greater_eq [of x] by simp
  then show ?thesis
    using assms by (simp add: sint_word_ariths signed_take_bit_int_eq_self)
qed

lemma counter_enqueue:
  assumes "0 \<le> sint (m_triggerCounter p)" and "sint (m_triggerCounter p) \<le> sint (m_trigger p)"
    and "sint (m_trigger p) < 2 ^ 31 - 1"
  shows "0 \<le> sint (m_triggerCounter (DB_enqueue r p)) \<and>
    sint (m_triggerCounter (DB_enqueue r p)) \<le> sint (m_trigger p)"
proof -
  have "sint (m_triggerCounter p + 1) = sint (m_triggerCounter p) + 1"
    using assms(2,3) by (intro sint_increment) simp
  with assms show ?thesis by (simp add: word_sless_alt)
qed

lemma DB_counter_bound:
  assumes "db_run q rs p" and "q = DBPolicy_init trigger t0"
    and "0 \<le> sint trigger" and "sint trigger < 2 ^ 31 - 1"
  shows "m_trigger p = trigger \<and> 0 \<le> sint (m_triggerCounter p) \<and>
    sint (m_triggerCounter p) \<le> sint trigger \<and>
    sint (m_triggerCounter p + 1) = sint (m_triggerCounter p) + 1"
proof -
  have "m_trigger p = trigger \<and> 0 \<le> sint (m_triggerCounter p) \<and>
    sint (m_triggerCounter p) \<le> sint trigger"
    using assms
  proof (induction rule: db_run.induct)
    case (run_step p rs p1 l p2)
    then have inv: "m_trigger p1 = trigger \<and> 0 \<le> sint (m_triggerCounter p1) \<and>
      sint (m_triggerCounter p1) \<le> sint trigger" by blast
    with counter_enqueue [of p1] run_step.prems have enq:
      "0 \<le> sint (m_triggerCounter (DB_enqueue r p1)) \<and>
       sint (m_triggerCounter (DB_enqueue r p1)) \<le> sint trigger" for r by simp
    from run_step.hyps(2) show ?case
    proof cases
      case (step_push get now c ty pid)
      with inv enq show ?thesis by (auto elim!: DB_push_cases simp del: DB_enqueue_frame(7))
    next
      case (step_worker ok)
      with inv show ?thesis
        by (auto simp: worker_step_def res_simps split: worker.splits if_splits)
    qed (use inv enq in \<open>auto simp: DB_enable_def DB_start_def signal_stop_def res_simps
        split: if_splits simp del: DB_enqueue_frame(7)\<close>)
  qed (simp add: DBPolicy_init_def)
  moreover from this have "sint (m_triggerCounter p) < 2 ^ 31 - 1" using assms(4) by linarith
  then have "sint (m_triggerCounter p + 1) = sint (m_triggerCounter p) + 1" by (rule sint_increment)
  ultimately show ?thesis by blast
qed

section \<open>The interface of the policies\<close>

text \<open>
  \<^verbatim>\<open>PersistencyPolicy\<close>, the abstract class the registry holds: what its three virtual methods
  promise.  \<open>rows\<close> is the sequence of the inserts that the policy has made or will make.
\<close>

locale persistency_policy =
  fixes push :: "(Type \<Rightarrow> property \<Rightarrow> val res) \<Rightarrow> int \<Rightarrow> 'p \<Rightarrow> 16 word \<Rightarrow> Type option \<Rightarrow> 16 word \<Rightarrow> 'p res"
    and enable :: "string option \<Rightarrow> string \<Rightarrow> string \<Rightarrow> 'p \<Rightarrow> 'p res"
    and disable :: "bool \<Rightarrow> bool \<Rightarrow> 'p \<Rightarrow> 'p res"
    and rows :: "'p \<Rightarrow> sql_call list"
  assumes push_ok: "pushable (get, now, c, ty, pid) \<Longrightarrow> is_ok (push get now p c ty pid)"
    and push_rows: "push get now p c ty pid = Inr p' \<Longrightarrow>
      \<exists>rs. rows p' = rows p @ concat (map insert_calls rs) \<and> length rs \<le> 1"
    and enable_rows: "enable home stamp f p = Inr p' \<Longrightarrow> rows p' = rows p"
    and disable_rows: "disable wk ok p = Inr p' \<Longrightarrow> rows p' = rows p"
begin

fun push_all :: "'p \<Rightarrow> push_args list \<Rightarrow> 'p res" where
  "push_all p [] = Inr p"
| "push_all p ((get, now, c, ty, pid) # us) =
     bindR (push get now p c ty pid) (\<lambda>p'. push_all p' us)"

lemma push_all_total:
  "\<forall>u \<in> set us. pushable u \<Longrightarrow>
   \<exists>p' rs. push_all p us = Inr p' \<and> rows p' = rows p @ concat (map insert_calls rs) \<and>
     length rs \<le> length us"
proof (induction us arbitrary: p)
  case Nil
  show ?case by (rule exI [of _ p], rule exI [of _ "[]"]) simp
next
  case (Cons u us)
  obtain get now c ty pid where u: "u = (get, now, c, ty, pid)" by (cases u)
  with Cons.prems obtain p1 where p1: "push get now p c ty pid = Inr p1"
    using push_ok [of get now c ty pid p] by (auto elim: is_okE)
  from push_rows [OF p1] obtain r where r: "rows p1 = rows p @ concat (map insert_calls r)"
    "length r \<le> 1" by blast
  from Cons.IH [of p1] Cons.prems obtain p2 rs where "push_all p1 us = Inr p2"
    "rows p2 = rows p1 @ concat (map insert_calls rs)" "length rs \<le> length us" by auto
  with u p1 r show ?case by (intro exI [of _ p2] exI [of _ "r @ rs"]) simp
qed

text \<open>A session of a policy: enabled, fed, disabled.  What is recorded stays recorded.\<close>

lemma session_rows:
  assumes "enable home stamp f p = Inr p1" and "push_all p1 us = Inr p2"
    and "disable wk ok p2 = Inr p3" and "\<forall>u \<in> set us. pushable u"
  shows "\<exists>rs. rows p3 = rows p @ concat (map insert_calls rs) \<and> length rs \<le> length us"
  using push_all_total [OF assms(4), of p1] assms(2) enable_rows [OF assms(1)]
    disable_rows [OF assms(3)] by auto

end

text \<open>The base class does nothing.\<close>

definition Base_push ::
  "(Type \<Rightarrow> property \<Rightarrow> val res) \<Rightarrow> int \<Rightarrow> unit \<Rightarrow> 16 word \<Rightarrow> Type option \<Rightarrow> 16 word \<Rightarrow> unit res" where
  "Base_push get now p clientId ty pid = Inr ()"

definition Base_enable :: "string option \<Rightarrow> string \<Rightarrow> string \<Rightarrow> unit \<Rightarrow> unit res" where
  "Base_enable home stamp dbFile p = Inr ()"

definition Base_disable :: "bool \<Rightarrow> bool \<Rightarrow> unit \<Rightarrow> unit res" where
  "Base_disable woken open_ok p = Inr ()"

interpretation base: persistency_policy Base_push Base_enable Base_disable "\<lambda>_. []"
  by unfold_locales (auto simp: Base_push_def intro: exI [of _ "[]"])

lemma worker_run_rows: "worker_run n wk ok p = Inr p' \<Longrightarrow> all_rows p' = all_rows p"
proof (induction n arbitrary: p)
  case (Suc n)
  show ?case
  proof (cases "worker_step ok p")
    case None
    have "all_rows (p\<lparr>m_workerThread := Notified\<rparr>) = all_rows p" by (rule all_rows_cong) simp_all
    with None Suc show ?thesis by (auto split: if_splits)
  next
    case (Some r)
    with Suc.prems obtain q where "worker_step ok p = Some (Inr q)" "worker_run n wk ok q = Inr p'"
      by (auto simp: res_simps)
    with Suc.IH worker_step_rows show ?thesis by metis
  qed
qed simp

lemma DB_disable_rows: "DB_disable wk ok p = Inr p' \<Longrightarrow> all_rows p' = all_rows p"
proof -
  have sig: "all_rows (signal_stop p) = all_rows p"
    by (simp add: signal_stop_def all_rows_def row_calls_def)
  have thread: "all_rows (q\<lparr>m_workerThread := w\<rparr>) = all_rows q" for q w
    by (rule all_rows_cong) simp_all
  assume "DB_disable wk ok p = Inr p'"
  then show ?thesis
    using worker_run_rows [of 6 wk ok "signal_stop p"] sig
    by (auto simp: DB_disable_def DB_stop_def DB_join_def res_simps thread split: if_splits)
qed

interpretation db: persistency_policy DB_push DB_enable DB_disable all_rows
proof unfold_locales
  show "is_ok (DB_push get now p c ty pid)" if "pushable (get, now, c, ty, pid)"
    for get now c ty pid p
    using push_data_total [OF that] by (auto simp: DB_push_eq push_record_def)
  show "\<exists>rs. all_rows p' = all_rows p @ concat (map insert_calls rs) \<and> length rs \<le> 1"
    if "DB_push get now p c ty pid = Inr p'" for get now p c ty pid p'
    using db_step_rows [OF step_push [OF that]]
    by (intro exI [of _ "db_pushed p (LPush get now c ty pid)"]) (simp split: sum.splits)
  show "all_rows p' = all_rows p" if "DB_enable home stamp f p = Inr p'" for home stamp f p p'
    using db_step_rows [OF step_enable [OF that]] by simp
qed (rule DB_disable_rows)

section \<open>The policy of a registry\<close>

datatype persistency =
    NoPersistency            \<comment> \<open>a null \<open>PersistencyPolicyPtr\<close>\<close>
  | BasePersistency          \<comment> \<open>\<open>PersistencyPolicy\<close>\<close>
  | DBPersistency DBPolicy   \<comment> \<open>\<open>DBPersistencyPolicy\<close>\<close>

fun persistency_push ::
  "(Type \<Rightarrow> property \<Rightarrow> val res) \<Rightarrow> int \<Rightarrow> persistency \<Rightarrow> 16 word \<Rightarrow> Type option \<Rightarrow> 16 word \<Rightarrow>
     persistency res" where
  "persistency_push get now NoPersistency clientId ty pid = Inr NoPersistency"
| "persistency_push get now BasePersistency clientId ty pid =
     bindR (Base_push get now () clientId ty pid) (\<lambda>_. Inr BasePersistency)"
| "persistency_push get now (DBPersistency p) clientId ty pid =
     bindR (DB_push get now p clientId ty pid) (\<lambda>p'. Inr (DBPersistency p'))"

fun persistency_enable ::
  "string option \<Rightarrow> string \<Rightarrow> string \<Rightarrow> persistency \<Rightarrow> persistency res" where
  "persistency_enable home stamp f NoPersistency = Inr NoPersistency"
| "persistency_enable home stamp f BasePersistency =
     bindR (Base_enable home stamp f ()) (\<lambda>_. Inr BasePersistency)"
| "persistency_enable home stamp f (DBPersistency p) =
     bindR (DB_enable home stamp f p) (\<lambda>p'. Inr (DBPersistency p'))"

fun persistency_disable :: "bool \<Rightarrow> bool \<Rightarrow> persistency \<Rightarrow> persistency res" where
  "persistency_disable wk ok NoPersistency = Inr NoPersistency"
| "persistency_disable wk ok BasePersistency =
     bindR (Base_disable wk ok ()) (\<lambda>_. Inr BasePersistency)"
| "persistency_disable wk ok (DBPersistency p) =
     bindR (DB_disable wk ok p) (\<lambda>p'. Inr (DBPersistency p'))"

fun persistency_rows :: "persistency \<Rightarrow> sql_call list" where
  "persistency_rows (DBPersistency p) = all_rows p"
| "persistency_rows _ = []"

interpretation persistency: persistency_policy
  persistency_push persistency_enable persistency_disable persistency_rows
proof unfold_locales
  show "is_ok (persistency_push get now p c ty pid)" if "pushable (get, now, c, ty, pid)"
    for get now c ty pid p
  proof (cases p)
    case (DBPersistency q)
    with db.push_ok [OF that, of q] show ?thesis by (auto elim: is_okE)
  qed (simp_all add: Base_push_def)
  show "\<exists>rs. persistency_rows p' = persistency_rows p @ concat (map insert_calls rs) \<and>
      length rs \<le> 1"
    if "persistency_push get now p c ty pid = Inr p'" for get now p c ty pid p'
  proof (cases p)
    case (DBPersistency q)
    with that obtain q' where "DB_push get now q c ty pid = Inr q'" "p' = DBPersistency q'"
      by (auto simp: res_simps)
    with db.push_rows DBPersistency show ?thesis by simp
  qed (use that in \<open>auto simp: Base_push_def intro: exI [of _ "[]"]\<close>)
  show "persistency_rows p' = persistency_rows p"
    if "persistency_enable home stamp f p = Inr p'" for home stamp f p p'
    using that by (cases p) (auto simp: res_simps dest: db.enable_rows)
  show "persistency_rows p' = persistency_rows p" if "persistency_disable wk ok p = Inr p'"
    for wk ok p p'
    using that by (cases p) (auto simp: res_simps dest: db.disable_rows)
qed

text \<open>A session of the registry's policy, whichever it is: feeding an enabled policy
  records that can be read never fails, and enabling, feeding and disabling only appends to what
  it has recorded, at most one row per push; nothing recorded earlier is lost.\<close>

theorem persistency_session:
  assumes "\<forall>u \<in> set us. pushable u" and "persistency_enable home stamp f p = Inr p1"
  shows "\<exists>p2. persistency.push_all p1 us = Inr p2 \<and>
    (\<forall>wk ok p3. persistency_disable wk ok p2 = Inr p3 \<longrightarrow>
     (\<exists>rs. persistency_rows p3 = persistency_rows p @ concat (map insert_calls rs) \<and>
        length rs \<le> length us))"
  using persistency.push_all_total [OF assms(1), of p1]
    persistency.session_rows [OF assms(2) _ _ assms(1)] by blast

theorem persistency_session_witness:
  "\<exists>p2. persistency.push_all (DBPersistency (enabled 50 0 ''a''))
       [(\<lambda>t p. Inr (VInt16 3), 9, 1, Some Int16, 2)] = Inr p2 \<and>
    (\<forall>wk ok p3. persistency_disable wk ok p2 = Inr p3 \<longrightarrow>
     (\<exists>rs. persistency_rows p3 =
        persistency_rows (DBPersistency (DBPolicy_init 50 0)) @ concat (map insert_calls rs) \<and>
        length rs \<le> length [(\<lambda>t p. Inr (VInt16 3), 9, 1, Some Int16, 2) :: push_args]))"
proof (rule persistency_session)
  show "persistency_enable (Some ''h'') ''s'' ''a'' (DBPersistency (DBPolicy_init 50 0)) =
      Inr (DBPersistency (enabled 50 0 ''a''))"
    by (simp add: DB_enable_fresh enabled_file_def)
qed (simp add: pushable_def)

section \<open>Reading a record back\<close>

text \<open>
  The specification of a row: what a reader of the table of type \<open>t\<close> makes of a bound value. A
  NaN gives no value: SQLite documents that it treats a NaN parameter as \<^verbatim>\<open>NULL\<close>.
\<close>

fun unbind :: "Type \<Rightarrow> sql_call \<Rightarrow> val option" where
  "unbind t (SqlBindInt st n i) =
     (case t of Int8 \<Rightarrow> Some (VInt8 (word_of_int i)) | Int16 \<Rightarrow> Some (VInt16 (word_of_int i))
      | Int32 \<Rightarrow> Some (VInt32 (word_of_int i)) | Uint8 \<Rightarrow> Some (VUint8 (word_of_int i))
      | Uint16 \<Rightarrow> Some (VUint16 (word_of_int i)) | Bool \<Rightarrow> Some (VBool (i \<noteq> 0)) | _ \<Rightarrow> None)"
| "unbind t (SqlBindInt64 st n i) =
     (case t of Int64 \<Rightarrow> Some (VInt64 (word_of_int i)) | Uint32 \<Rightarrow> Some (VUint32 (word_of_int i))
      | Uint64 \<Rightarrow> Some (VUint64 (word_of_int i)) | _ \<Rightarrow> None)"
| "unbind t (SqlBindDouble st n d) =
     (if double_is_nan d then None
      else case t of Float \<Rightarrow> Some (VFloat (double_to_float d)) | Double \<Rightarrow> Some (VDouble d)
        | _ \<Rightarrow> None)"
| "unbind t _ = None"

lemma unbind_bind:
  "vtype v \<noteq> String \<Longrightarrow> \<exists>c. bind_value st n v = [c] \<and>
     unbind (vtype v) c = (if is_nan v then None else Some v)"
  by (cases v) (simp_all add: float_to_double_inverse)

text \<open>Time, client, type, entry and value of a row, from the first four calls that make it.\<close>

definition decode_row ::
  "sql_call list \<Rightarrow> (int \<times> 16 word \<times> Type \<times> 16 word \<times> val option) option" where
  "decode_row cs =
     (case cs of
        SqlBindInt (StInsertSet t) n1 c # SqlBindInt st2 n2 p # SqlBindInt64 st3 n3 time # d # rest \<Rightarrow>
          Some (time, word_of_int c, t, word_of_int p, unbind t d)
      | _ \<Rightarrow> None)"



text \<open>A run with one push, for the order of the records.\<close>

definition pushed_example :: Record_t where
  "pushed_example = \<lparr>r_timeSinceStart = 9, r_clientId = 1, r_registryType = Some Int16,
     r_property = 2, r_data = VInt16 3\<rparr>"

theorem DB_fifo_exactly_once_witness:
  "row_calls (enabled 50 0 ''a''\<lparr>m_recordsQueue := [pushed_example], m_triggerCounter := 1\<rparr>) @
     concat (map insert_calls (m_recordsQueue
       (enabled 50 0 ''a''\<lparr>m_recordsQueue := [pushed_example], m_triggerCounter := 1\<rparr>))) =
   concat (map insert_calls [pushed_example])"
proof (rule DB_fifo_exactly_once [of 50 0])
  have run: "db_run (DBPolicy_init 50 0) [] (enabled 50 0 ''a'')"
    using run_enabled [of 50 0 _ _ "''a''"] by (simp add: enabled_file_def)
  have rec: "push_record (\<lambda>t p. Inr (VInt16 3)) 9 (enabled 50 0 ''a'') 1 (Some Int16) 2 =
      Inr pushed_example"
    by (simp add: push_record_def push_data_def enabled_def DBPolicy_init_def pushed_example_def)
  then have "DB_push (\<lambda>t p. Inr (VInt16 3)) 9 (enabled 50 0 ''a'') 1 (Some Int16) 2 =
      Inr (enabled 50 0 ''a''\<lparr>m_recordsQueue := [pushed_example], m_triggerCounter := 1\<rparr>)"
    by (simp add: DB_push_eq DB_enqueue_def enabled_def DBPolicy_init_def Let_def word_sless_alt)
  from run_step [OF run step_push [OF this]] rec
  show "db_run (DBPolicy_init 50 0) [pushed_example]
      (enabled 50 0 ''a''\<lparr>m_recordsQueue := [pushed_example], m_triggerCounter := 1\<rparr>)"
    by (simp add: enabled_def)
qed

end
