(* ===== verification/Registry.thy ===== *)
theory Registry
  imports Adapter DBPersistency
begin

text \<open>
  \<^verbatim>\<open>RRegistry/include/RRegistry/Registry.hpp\<close>: the values of all entries, the adapters and
  receivers that hear of a change, and the persistency policy.

  A registry lives among the objects that its pointers name. The record \<open>world\<close> extends the
  registry's members with the adapters alive (a weak pointer to another one is expired), the
  receivers alive, and the calls made of receivers and message callbacks, whose code is the
  client's. A weak pointer is \<open>None\<close> when it is empty, as a moved-from one is.
\<close>

section \<open>State\<close>

type_synonym arrays = "Type \<Rightarrow> val list"

record registry =
  m_arrays :: arrays
  m_adapters :: "nat option list"
  m_receivers :: "nat list"
  m_persistencyPolicy :: persistency

record world = registry +
  w_heap :: "nat \<Rightarrow> adapter option"
  w_live_receivers :: "nat list"
  w_updates :: "(nat \<times> Type \<times> nat) list"
  w_callbacks :: "callback_call list"

text \<open>\<^verbatim>\<open>weak_ptr::lock\<close>.\<close>

definition lock :: "(nat \<Rightarrow> adapter option) \<Rightarrow> nat option \<Rightarrow> (nat \<times> adapter) option" where
  "lock h ptr = (case ptr of None \<Rightarrow> None | Some i \<Rightarrow> map_option (Pair i) (h i))"

section \<open>The value arrays\<close>

definition arr_at :: "arrays \<Rightarrow> Type \<Rightarrow> nat \<Rightarrow> val res" where
  "arr_at m t i = vec_at (m t) i"

definition arr_put :: "arrays \<Rightarrow> Type \<Rightarrow> nat \<Rightarrow> val \<Rightarrow> arrays res" where
  "arr_put m t i v = bindR (vec_put (m t) i v) (\<lambda>row. Inr (m(t := row)))"

definition getFromArray :: "arrays \<Rightarrow> Type \<Rightarrow> property \<Rightarrow> val res" where
  "getFromArray m t pid = arr_at m t (prop_index pid)"

definition setToArray :: "arrays \<Rightarrow> property \<Rightarrow> val \<Rightarrow> arrays res" where
  "setToArray m pid v = arr_put m (vtype v) (prop_index pid) v"

text \<open>The address of an element: its row and index.\<close>

definition getPtrFromArray :: "arrays \<Rightarrow> Type \<Rightarrow> property \<Rightarrow> (Type \<times> nat) res" where
  "getPtrFromArray m t pid = bindR (arr_at m t (prop_index pid)) (\<lambda>_. Inr (t, prop_index pid))"

section \<open>Operations\<close>

definition registry_get :: "('x) registry_scheme \<Rightarrow> Type \<Rightarrow> property \<Rightarrow> val res" where
  "registry_get w t pid = getFromArray (m_arrays w) t pid"

definition getIntProperty :: "('x) registry_scheme \<Rightarrow> Type \<Rightarrow> 32 word \<Rightarrow> val res" where
  "getIntProperty w t i = registry_get w t i"

text \<open>
  The loop over \<^verbatim>\<open>m_adapters\<close>: an adapter that is alive gets the value, an expired pointer is
  erased.
\<close>

fun forward ::
  "(adapter \<Rightarrow> adapter res) \<Rightarrow> (nat \<Rightarrow> adapter option) \<Rightarrow> nat option list \<Rightarrow>
     (nat option list \<times> (nat \<Rightarrow> adapter option)) res" where
  "forward put h [] = Inr ([], h)"
| "forward put h (ptr # ptrs) =
     (case lock h ptr of
        Some (i, a) \<Rightarrow> bindR (put a) (\<lambda>a'.
          bindR (forward put (h(i \<mapsto> a')) ptrs) (\<lambda>(ptrs', h'). Inr (ptr # ptrs', h')))
      | None \<Rightarrow> forward put h ptrs)"

text \<open>The loop over \<^verbatim>\<open>m_receivers\<close>, a call of the virtual \<^verbatim>\<open>onUpdate\<close> for each.\<close>

fun notify_receivers ::
  "nat list \<Rightarrow> Type \<Rightarrow> nat \<Rightarrow> nat list \<Rightarrow> (nat \<times> Type \<times> nat) list res" where
  "notify_receivers live t i [] = Inr []"
| "notify_receivers live t i (r # rs) =
     (if r \<in> set live
      then bindR (notify_receivers live t i rs) (\<lambda>us. Inr ((r, t, i) # us))
      else Inl NullDeref)"

definition registry_set :: "rcore \<Rightarrow> world \<Rightarrow> property \<Rightarrow> val \<Rightarrow> Reliability \<Rightarrow> world res" where
  "registry_set env w pid v reliability =
     bindR (registry_get w (vtype v) pid) (\<lambda>old.
       if val_eq old v then Inr w
       else bindR (setToArray (m_arrays w) pid v) (\<lambda>arr.
         bindR (forward (\<lambda>a. bindR (adapter_set env a pid v reliability) (\<lambda>r. Inr (snd r)))
                  (w_heap w) (m_adapters w)) (\<lambda>(ptrs, h).
           bindR (notify_receivers (w_live_receivers w) (vtype v) (prop_index pid)
                    (m_receivers w)) (\<lambda>us.
             Inr (w\<lparr>m_arrays := arr, m_adapters := ptrs, w_heap := h,
                    w_updates := w_updates w @ us\<rparr>)))))"

definition registry_set_reliable :: "rcore \<Rightarrow> world \<Rightarrow> property \<Rightarrow> val \<Rightarrow> bool \<Rightarrow> world res" where
  "registry_set_reliable env w pid v reliable =
     (if reliable then registry_set env w pid v DefaultReliability
      else registry_set env w pid v BasicDelivery)"

definition setIntProperty :: "rcore \<Rightarrow> world \<Rightarrow> 32 word \<Rightarrow> val \<Rightarrow> Reliability \<Rightarrow> world res" where
  "setIntProperty env w i v reliability = registry_set env w i v reliability"

definition setIntPropertyBooleanReliability ::
  "rcore \<Rightarrow> world \<Rightarrow> 32 word \<Rightarrow> val \<Rightarrow> bool \<Rightarrow> world res" where
  "setIntPropertyBooleanReliability env w i v reliable = registry_set_reliable env w i v reliable"

text \<open>
  \<^verbatim>\<open>initDefaults\<close>: the nested loops over types and properties; \<^verbatim>\<open>String\<close> takes the default branch
  of the switch.
\<close>

definition init_entry :: "rcore \<Rightarrow> Type \<Rightarrow> nat \<Rightarrow> world \<Rightarrow> world res" where
  "init_entry env t i w =
     (if t = String then Inr w
      else bindR (vec_at (entry_defaults t) i) (\<lambda>d.
        registry_set env w (prop_of_int i) d DefaultReliability))"

fun init_entries :: "rcore \<Rightarrow> (Type \<times> nat) list \<Rightarrow> world \<Rightarrow> world res" where
  "init_entries env [] w = Inr w"
| "init_entries env ((t, i) # es) w =
     bindR (init_entry env t i w) (\<lambda>w'. init_entries env es w')"

definition initDefaults :: "rcore \<Rightarrow> world \<Rightarrow> world res" where
  "initDefaults env w =
     init_entries env (concat (map (\<lambda>t. map (Pair t) [0..<GetEntryCount t]) all_types)) w"

text \<open>
  The constructor: the arrays hold whatever the memory held, but for the strings, which are
  empty; there are no adapters, receivers or policy yet.
\<close>

definition registry_init :: "rcore \<Rightarrow> arrays \<Rightarrow> world res" where
  "registry_init env memory =
     initDefaults env
       \<lparr>m_arrays = memory(String := replicate (GetEntryCount String) (VString '''')),
        m_adapters = [], m_receivers = [], m_persistencyPolicy = NoPersistency,
        w_heap = Map.empty, w_live_receivers = [], w_updates = [], w_callbacks = []\<rparr>"

definition registerAdapter :: "world \<Rightarrow> nat option \<Rightarrow> world" where
  "registerAdapter w ptr = w\<lparr>m_adapters := m_adapters w @ [ptr]\<rparr>"

text \<open>
  \<^verbatim>\<open>removeAdapter\<close>, by shared or by raw pointer: \<^verbatim>\<open>std::remove_if\<close> with its result discarded. A
  weak pointer that is moved from is empty.
\<close>

definition points_to :: "(nat \<Rightarrow> adapter option) \<Rightarrow> nat \<Rightarrow> nat option \<Rightarrow> bool" where
  "points_to h a ptr = (case lock h ptr of Some (i, _) \<Rightarrow> i = a | None \<Rightarrow> False)"

definition removeAdapter :: "world \<Rightarrow> nat \<Rightarrow> world" where
  "removeAdapter w a =
     w\<lparr>m_adapters := std_remove_if (points_to (w_heap w) a) (\<lambda>_. None) (m_adapters w)\<rparr>"

definition addReceiver :: "world \<Rightarrow> nat \<Rightarrow> world" where
  "addReceiver w r = w\<lparr>m_receivers := m_receivers w @ [r]\<rparr>"

definition removeReceiver :: "world \<Rightarrow> nat \<Rightarrow> world" where
  "removeReceiver w r =
     w\<lparr>m_receivers := std_remove_if (\<lambda>x. x = r) (\<lambda>x. x) (m_receivers w)\<rparr>"

text \<open>
  The destructor of an adapter; when it runs the last shared pointer is gone, so weak pointers
  to it are expired.
\<close>

definition destroy_adapter :: "world \<Rightarrow> nat \<Rightarrow> world" where
  "destroy_adapter w i =
     (case w_heap w i of
        None \<Rightarrow> w
      | Some a \<Rightarrow>
          let w1 = w\<lparr>w_heap := (w_heap w)(i := None)\<rparr>
          in if m_registry a then removeAdapter w1 i else w1)"

definition registry_adapters :: "world \<Rightarrow> nat option list" where
  "registry_adapters w = m_adapters w"

definition registry_receivers :: "world \<Rightarrow> nat list" where
  "registry_receivers w = m_receivers w"

text \<open>Replacing the policy destroys the old one.\<close>

fun persistency_destroy :: "bool \<Rightarrow> bool \<Rightarrow> persistency \<Rightarrow> unit res" where
  "persistency_destroy woken ok (DBPersistency p) = bindR (DB_destroy woken ok p) (\<lambda>_. Inr ())"
| "persistency_destroy woken ok _ = Inr ()"

definition setPersistencyPolicy :: "bool \<Rightarrow> bool \<Rightarrow> world \<Rightarrow> persistency \<Rightarrow> world res" where
  "setPersistencyPolicy woken ok w policy =
     bindR (persistency_destroy woken ok (m_persistencyPolicy w)) (\<lambda>_.
       Inr (w\<lparr>m_persistencyPolicy := policy\<rparr>))"

definition enablePersistencyPolicy ::
  "string option \<Rightarrow> string \<Rightarrow> string \<Rightarrow> world \<Rightarrow> world res" where
  "enablePersistencyPolicy home stamp dbFile w =
     bindR (persistency_enable home stamp dbFile (m_persistencyPolicy w)) (\<lambda>p.
       Inr (w\<lparr>m_persistencyPolicy := p\<rparr>))"

definition disablePersistencyPolicy :: "bool \<Rightarrow> bool \<Rightarrow> world \<Rightarrow> world res" where
  "disablePersistencyPolicy woken ok w =
     bindR (persistency_disable woken ok (m_persistencyPolicy w)) (\<lambda>p.
       Inr (w\<lparr>m_persistencyPolicy := p\<rparr>))"

section \<open>The arrays provide the entry interface\<close>

definition wf_arrays :: "arrays \<Rightarrow> bool" where
  "wf_arrays m \<longleftrightarrow> (\<forall>t. length (m t) = GetEntryCount t \<and> (\<forall>v \<in> set (m t). vtype v = t))"

lemma arr_at_eq: "wf_arrays m \<Longrightarrow> arr_at m t i = (if valid_prop t i then Inr (m t ! i) else Inl OutOfBounds)"
  by (simp add: arr_at_def wf_arrays_def valid_prop_def)

lemma arr_put_eq:
  "wf_arrays m \<Longrightarrow> arr_put m t i v =
     (if valid_prop t i then Inr (m(t := (m t)[i := v])) else Inl OutOfBounds)"
  by (simp add: arr_put_def wf_arrays_def valid_prop_def)

lemma wf_arrays_put [wf_intros]:
  "wf_arrays m \<Longrightarrow> vtype v = t \<Longrightarrow> wf_arrays (m(t := (m t)[i := v]))"
  unfolding wf_arrays_def by (simp split: if_splits)
    (blast dest: subsetD [OF set_update_subset_insert])

interpretation arr: entry_map arr_at arr_put wf_arrays "\<lambda>t v. vtype v = t"
proof unfold_locales
  fix m :: arrays and t s i j v m'
  assume m: "wf_arrays m"
  show "is_ok (arr_at m t i) \<longleftrightarrow> valid_prop t i" and "is_ok (arr_put m t i v) \<longleftrightarrow> valid_prop t i"
    using m by (simp_all add: arr_at_eq arr_put_eq)
  show "arr_at m t i = Inr v \<Longrightarrow> vtype v = t"
    using m by (auto simp: arr_at_def wf_arrays_def vec_at_Inr_iff)
  assume v: "vtype v = t" and put: "arr_put m t i v = Inr m'"
  then have m': "m' = m(t := (m t)[i := v])" and valid: "valid_prop t i"
    using m by (auto simp: arr_put_eq split: if_splits)
  show "wf_arrays m'" unfolding m' by (rule wf_arrays_put [OF m v])
  then show "arr_at m' s j = (if s = t \<and> j = i then Inr v else arr_at m s j)"
    using m valid by (auto simp: arr_at_eq m' wf_arrays_def valid_prop_def nth_list_update)
qed

section \<open>Well-formed worlds\<close>

definition wf_world :: "rcore \<Rightarrow> world \<Rightarrow> bool" where
  "wf_world env w \<longleftrightarrow> wf_arrays (m_arrays w) \<and>
     (\<forall>i a. w_heap w i = Some a \<longrightarrow> wf_adapter env a) \<and>
     set (m_receivers w) \<subseteq> set (w_live_receivers w)"

lemma registry_get_eq:
  "wf_world env w \<Longrightarrow> registry_get w t pid =
     (if valid_prop t (prop_index pid) then Inr (m_arrays w t ! prop_index pid)
      else Inl OutOfBounds)"
  by (simp add: registry_get_def getFromArray_def wf_world_def arr_at_eq)

lemma array_type: "wf_world env w \<Longrightarrow> valid_prop t i \<Longrightarrow> vtype (m_arrays w t ! i) = t"
  by (simp add: wf_world_def wf_arrays_def valid_prop_def)

lemma registry_get_typed: "wf_world env w \<Longrightarrow> typed_get (registry_get w)"
  unfolding typed_get_def registry_get_def getFromArray_def wf_world_def
  using arr.rd_val by blast

section \<open>What a set does\<close>

definition alive :: "(nat \<Rightarrow> adapter option) \<Rightarrow> nat option \<Rightarrow> bool" where
  "alive h ptr \<longleftrightarrow> lock h ptr \<noteq> None"

lemma alive_simps [simp]: "\<not> alive h None" "alive h (Some i) \<longleftrightarrow> h i \<noteq> None"
  by (simp_all add: alive_def lock_def)

lemma alive_update: "h i = Some a \<Longrightarrow> alive (h(i \<mapsto> b)) = alive h"
  by (rule ext) (auto simp: alive_def lock_def split: option.splits)

lemma forward_eq:
  assumes "\<And>a. ok_ad a \<Longrightarrow> put a = Inr (g a)" and "\<And>a. ok_ad a \<Longrightarrow> ok_ad (g a)"
  shows "(\<forall>i a. h i = Some a \<longrightarrow> ok_ad a) \<Longrightarrow> forward put h ptrs =
    Inr (filter (alive h) ptrs, \<lambda>i. map_option (g ^^ count_list ptrs (Some i)) (h i))"
proof (induction ptrs arbitrary: h)
  case Nil
  show ?case by (auto simp: option.map_id0 id_def [symmetric] intro!: ext)
next
  case (Cons ptr ptrs)
  show ?case
  proof (cases "lock h ptr")
    case None
    moreover from None have "map_option (g ^^ count_list (ptr # ptrs) (Some i)) (h i) =
        map_option (g ^^ count_list ptrs (Some i)) (h i)" for i
      by (cases "ptr = Some i") (simp_all add: lock_def)
    ultimately show ?thesis using Cons.IH [OF Cons.prems] by (simp add: alive_def)
  next
    case (Some x)
    then obtain i a where x: "x = (i, a)" "ptr = Some i" "h i = Some a"
      by (auto simp: lock_def split: option.splits)
    define h' where "h' = h(i \<mapsto> g a)"
    have a: "ok_ad a" using Cons.prems x by blast
    have "\<forall>j b. h' j = Some b \<longrightarrow> ok_ad b"
      using Cons.prems assms(2) [OF a] by (auto simp: h'_def)
    from Cons.IH [OF this] have "forward put h (ptr # ptrs) =
        Inr (ptr # filter (alive h') ptrs,
             \<lambda>j. map_option (g ^^ count_list ptrs (Some j)) (h' j))"
      using Some x assms(1) [OF a] by (simp flip: h'_def)
    moreover have "alive h' = alive h" unfolding h'_def using x(3) by (rule alive_update)
    moreover have "map_option (g ^^ count_list ptrs (Some j)) (h' j) =
        map_option (g ^^ count_list (ptr # ptrs) (Some j)) (h j)" for j
      using x by (auto simp: h'_def funpow_Suc_right simp del: funpow.simps)
    ultimately show ?thesis using x by simp
  qed
qed

lemma notify_receivers_eq:
  "notify_receivers live t i rs =
     (if set rs \<subseteq> set live then Inr (map (\<lambda>r. (r, t, i)) rs) else Inl NullDeref)"
  by (induction rs) auto

definition set_result :: "world \<Rightarrow> property \<Rightarrow> val \<Rightarrow> Reliability \<Rightarrow> world" where
  "set_result w pid v rel =
     (let t = vtype v; i = prop_index pid in
      if val_eq (m_arrays w t ! i) v then w
      else w\<lparr>m_arrays := (m_arrays w)(t := (m_arrays w t)[i := v]),
             m_adapters := filter (alive (w_heap w)) (m_adapters w),
             w_heap := \<lambda>j. map_option (adapter_put pid v rel ^^ count_list (m_adapters w) (Some j))
                             (w_heap w j),
             w_updates := w_updates w @ map (\<lambda>r. (r, t, i)) (m_receivers w)\<rparr>)"

lemma registry_set_eq:
  assumes "wf_world env w" and "valid_prop (vtype v) (prop_index pid)"
    and "vtype v \<noteq> String \<or> NDEBUG env"
  shows "registry_set env w pid v rel = Inr (set_result w pid v rel)"
proof -
  have put: "bindR (adapter_set env a pid v rel) (\<lambda>r. Inr (snd r)) = Inr (adapter_put pid v rel a)"
    if "wf_adapter env a" for a
    using adapter_set_eq [of a v pid env rel] assms(2,3) that by (simp add: wf_adapter_def)
  have "forward (\<lambda>a. bindR (adapter_set env a pid v rel) (\<lambda>r. Inr (snd r))) (w_heap w) ptrs =
      Inr (filter (alive (w_heap w)) ptrs,
           \<lambda>j. map_option (adapter_put pid v rel ^^ count_list ptrs (Some j)) (w_heap w j))" for ptrs
    by (rule forward_eq [where ok_ad = "wf_adapter env", OF put wf_adapter_put])
      (use assms(1) in \<open>simp_all add: wf_world_def\<close>)
  moreover have "wf_arrays (m_arrays w)" and "set (m_receivers w) \<subseteq> set (w_live_receivers w)"
    using assms(1) by (simp_all add: wf_world_def)
  ultimately show ?thesis
    using assms(2) by (simp add: registry_set_def registry_get_eq [OF assms(1)] setToArray_def
        arr_put_eq notify_receivers_eq set_result_def Let_def)
qed

lemma funpow_inv: "ok_ad a \<Longrightarrow> (\<And>a. ok_ad a \<Longrightarrow> ok_ad (g a)) \<Longrightarrow> ok_ad ((g ^^ n) a)"
  by (induction n) simp_all

lemma wf_set_result [wf_intros]:
  assumes "wf_world env w"
  shows "wf_world env (set_result w pid v rel)"
proof -
  have "wf_adapter env ((adapter_put pid v rel ^^ n) a)" if "w_heap w j = Some a" for j a n
  proof (rule funpow_inv [where ok_ad = "wf_adapter env"])
    show "wf_adapter env a" using that assms by (simp add: wf_world_def)
  qed (rule wf_adapter_put)
  moreover have "wf_arrays ((m_arrays w)(vtype v := (m_arrays w (vtype v))[prop_index pid := v]))"
    using assms by (simp add: wf_world_def wf_arrays_put)
  ultimately show ?thesis
    using assms unfolding set_result_def Let_def wf_world_def
    by (simp split: if_split) blast
qed

lemma set_result_frame [simp]:
  "m_receivers (set_result w pid v rel) = m_receivers w"
  "m_persistencyPolicy (set_result w pid v rel) = m_persistencyPolicy w"
  "w_live_receivers (set_result w pid v rel) = w_live_receivers w"
  "w_callbacks (set_result w pid v rel) = w_callbacks w"
  by (simp_all add: set_result_def Let_def)

lemma adapter_put_no: "\<not> accepts a v pid \<Longrightarrow> adapter_put pid v rel a = a"
  by (simp add: adapter_put_def)

lemma accepts_sent [simp]:
  "accepts (a\<lparr>m_currentReliability := r, m_transmit_buffer := b\<rparr>) v pid = accepts a v pid"
  by (simp add: accepts_def subscribed_at_def)

lemma put_funpow_no: "\<not> accepts a v pid \<Longrightarrow> (adapter_put pid v rel ^^ n) a = a"
  by (induction n) (simp_all add: adapter_put_no)

lemma put_funpow:
  assumes "accepts a v pid"
  shows "(adapter_put pid v rel ^^ Suc n) a =
    a\<lparr>m_currentReliability := rel,
      m_transmit_buffer := m_transmit_buffer a @ replicate (Suc n) (value_call pid v rel)\<rparr>"
proof (induction n)
  case 0
  then show ?case using assms by (simp add: adapter_put_def)
next
  case (Suc n)
  have "(adapter_put pid v rel ^^ Suc (Suc n)) a =
      adapter_put pid v rel ((adapter_put pid v rel ^^ Suc n) a)" by simp
  also have "\<dots> = a\<lparr>m_currentReliability := rel,
      m_transmit_buffer := m_transmit_buffer a @ replicate (Suc (Suc n)) (value_call pid v rel)\<rparr>"
    unfolding Suc.IH using assms by (simp add: adapter_put_def replicate_append_same)
  finally show ?case .
qed

lemma transmit_buffer_funpow:
  "m_transmit_buffer ((adapter_put pid v rel ^^ n) a) = m_transmit_buffer a @
     (if accepts a v pid then replicate n (value_call pid v rel) else [])"
  by (cases n; cases "accepts a v pid") (simp_all add: put_funpow put_funpow_no del: funpow.simps(2))

section \<open>Initialisation\<close>

text \<open>The values of a registry as a partial function of the entries.\<close>

definition registry_map :: "world \<Rightarrow> (Type \<times> nat) \<rightharpoonup> val" where
  "registry_map w = arr.contents (m_arrays w)"

lemma registry_map_eq:
  "wf_world env w \<Longrightarrow>
   registry_map w (t, i) = (if valid_prop t i then Some (m_arrays w t ! i) else None)"
  by (simp add: registry_map_def arr.contents_def wf_world_def arr_at_eq)

lemma set_result_arrays:
  assumes "wf_world env w" and "valid_prop (vtype v) (prop_index pid)"
  shows "m_arrays (set_result w pid v rel) s ! j =
    (if s = vtype v \<and> j = prop_index pid \<and> \<not> val_eq (m_arrays w s ! j) v then v
     else m_arrays w s ! j)"
proof -
  have "prop_index pid < length (m_arrays w (vtype v))"
    using assms by (simp add: wf_world_def wf_arrays_def valid_prop_def)
  then show ?thesis by (auto simp: set_result_def Let_def nth_list_update)
qed

lemma registry_map_set_result:
  assumes "wf_world env w" and "valid_prop (vtype v) (prop_index pid)"
  shows "registry_map (set_result w pid v rel) =
    (if val_eq (m_arrays w (vtype v) ! prop_index pid) v then registry_map w
     else (registry_map w)((vtype v, prop_index pid) \<mapsto> v))"
proof
  fix e :: "Type \<times> nat"
  obtain s j where "e = (s, j)" by fastforce
  then show "registry_map (set_result w pid v rel) e =
      (if val_eq (m_arrays w (vtype v) ! prop_index pid) v then registry_map w
       else (registry_map w)((vtype v, prop_index pid) \<mapsto> v)) e"
    using assms(2)
    by (auto simp: registry_map_eq [OF wf_set_result [OF assms(1)]] registry_map_eq [OF assms(1)]
        set_result_arrays [OF assms])
qed

lemma init_entry_eq:
  assumes "wf_world env w" and "valid_prop t i"
  shows "\<exists>w'. init_entry env t i w = Inr w' \<and> wf_world env w' \<and>
    (\<forall>s j. m_arrays w' s ! j = (if s = t \<and> j = i \<and> t \<noteq> String \<and>
        \<not> val_eq (m_arrays w s ! j) (entry_defaults t ! i)
      then entry_defaults t ! i else m_arrays w s ! j))"
proof (cases "t = String")
  case False
  let ?d = "entry_defaults t ! i"
  have i: "i < length (entry_defaults t)" using assms(2) False by (simp add: valid_prop_def)
  then have d: "vtype ?d = t" by (auto intro: vtype_entry_defaults)
  have pi: "prop_index (prop_of_int i) = i"
    using assms(2) GetEntryCount_le [of t] by (simp add: valid_prop_def)
  have "init_entry env t i w = Inr (set_result w (prop_of_int i) ?d DefaultReliability)"
    using registry_set_eq [OF assms(1), of ?d "prop_of_int i"] i False assms(2)
    by (simp add: init_entry_def d pi)
  with False assms show ?thesis
    using set_result_arrays [OF assms(1), of ?d "prop_of_int i" DefaultReliability]
    by (auto simp: d pi wf_set_result)
qed (use assms in \<open>simp add: init_entry_def\<close>)

lemma init_entries_eq:
  assumes "distinct es" and "\<forall>(t, i) \<in> set es. valid_prop t i"
  shows "wf_world env w \<Longrightarrow> \<exists>w'. init_entries env es w = Inr w' \<and> wf_world env w' \<and>
    (\<forall>s j. m_arrays w' s ! j = (if (s, j) \<in> set es \<and> s \<noteq> String \<and>
        \<not> val_eq (m_arrays w s ! j) (entry_defaults s ! j)
      then entry_defaults s ! j else m_arrays w s ! j))"
  using assms
proof (induction es arbitrary: w)
  case Nil
  then show ?case by simp
next
  case (Cons e es)
  obtain t i where e: "e = (t, i)" by (cases e)
  then have "valid_prop t i" using Cons.prems(3) by simp
  from init_entry_eq [OF Cons.prems(1) this] obtain w1 where
    w1: "init_entry env t i w = Inr w1" "wf_world env w1" and
    a1: "\<And>s j. m_arrays w1 s ! j = (if s = t \<and> j = i \<and> t \<noteq> String \<and>
        \<not> val_eq (m_arrays w s ! j) (entry_defaults t ! i)
      then entry_defaults t ! i else m_arrays w s ! j)" by blast
  from Cons.IH [OF w1(2)] Cons.prems(2,3) obtain w2 where
    w2: "init_entries env es w1 = Inr w2" "wf_world env w2" and
    a2: "\<And>s j. m_arrays w2 s ! j = (if (s, j) \<in> set es \<and> s \<noteq> String \<and>
        \<not> val_eq (m_arrays w1 s ! j) (entry_defaults s ! j)
      then entry_defaults s ! j else m_arrays w1 s ! j)" by auto
  have "(t, i) \<notin> set es" using Cons.prems(2) e by simp
  then have "m_arrays w2 s ! j = (if (s, j) \<in> set (e # es) \<and> s \<noteq> String \<and>
        \<not> val_eq (m_arrays w s ! j) (entry_defaults s ! j)
      then entry_defaults s ! j else m_arrays w s ! j)" for s j
    by (auto simp: a1 a2 e)
  with w1 w2 e show ?case by auto
qed

lemma initDefaults_entries: "initDefaults env w = init_entries env all_entries w"
  by (simp add: initDefaults_def all_entries_def)

lemma initDefaults_ok:
  assumes "wf_world env w"
  shows "\<exists>w'. initDefaults env w = Inr w' \<and> wf_world env w' \<and>
    (\<forall>t i. valid_prop t i \<longrightarrow>
       (if t = String then registry_map w' (t, i) = registry_map w (t, i)
        else \<exists>v. registry_map w' (t, i) = Some v \<and> val_eq v (entry_defaults t ! i)))"
proof -
  have es: "distinct all_entries" "\<forall>(t, i) \<in> set all_entries. valid_prop t i"
    by (simp_all add: distinct_all_entries set_all_entries)
  from init_entries_eq [OF es assms] obtain w' where
    w': "initDefaults env w = Inr w'" "wf_world env w'" and
    a: "\<And>s j. m_arrays w' s ! j = (if (s, j) \<in> set all_entries \<and> s \<noteq> String \<and>
        \<not> val_eq (m_arrays w s ! j) (entry_defaults s ! j)
      then entry_defaults s ! j else m_arrays w s ! j)"
    by (auto simp: initDefaults_entries)
  have "val_eq (m_arrays w' t ! i) (entry_defaults t ! i)" if "valid_prop t i" "t \<noteq> String" for t i
  proof -
    have "\<not> is_nan (entry_defaults t ! i)"
      using that by (intro entry_defaults_not_nan [of _ t]) (simp add: valid_prop_def)
    then show ?thesis using that by (simp add: a set_all_entries val_eq_refl_iff)
  qed
  with w' assms show ?thesis
    by (auto simp: registry_map_eq a)
qed

text \<open>\<^verbatim>\<open>initDefaults\<close> gives every entry but the strings its default of the entry tables,
  whatever the arrays held (an entry that already compares equal keeps its bits), and leaves
  the strings alone; it never fails.\<close>

theorem initDefaults_defaults:
  assumes "wf_world env w"
  shows "\<exists>w'. initDefaults env w = Inr w' \<and> wf_world env w' \<and>
    (\<forall>t i. valid_prop t i \<longrightarrow>
       (if t = String then registry_map w' (t, i) = registry_map w (t, i)
        else \<exists>v. registry_map w' (t, i) = Some v \<and> val_eq v (entry_defaults t ! i)))"
  using assms by (rule initDefaults_ok)

lemma registry_set_no_adapters:
  assumes "registry_set env w pid v rel = Inr w'" and "m_adapters w = []"
  shows "m_adapters w' = [] \<and> w_heap w' = w_heap w"
  using assms by (auto simp: registry_set_def bindR_Inr_conv split: if_splits)

lemma initDefaults_no_adapters:
  assumes "initDefaults env w = Inr w'" and "m_adapters w = []"
  shows "m_adapters w' = [] \<and> w_heap w' = w_heap w"
proof -
  have "m_adapters v' = [] \<and> w_heap v' = w_heap v"
    if "init_entries env es v = Inr v'" and "m_adapters v = []" for es v v'
    using that
  proof (induction env es v rule: init_entries.induct)
    case (2 env t i es w)
    from 2(2) obtain w1 where w1: "init_entry env t i w = Inr w1" "init_entries env es w1 = Inr v'"
      by (auto simp: bindR_Inr_conv)
    then have "m_adapters w1 = [] \<and> w_heap w1 = w_heap w"
      using 2(3) registry_set_no_adapters
      by (fastforce simp: init_entry_def bindR_Inr_conv split: if_splits)
    with 2(1) [OF w1] show ?case by simp
  qed simp
  with assms show ?thesis by (simp add: initDefaults_entries)
qed

lemma registry_init_ok:
  assumes "wf_arrays memory"
  shows "\<exists>w. registry_init env memory = Inr w \<and> wf_world env w \<and> m_adapters w = [] \<and>
    w_heap w = Map.empty \<and> (\<forall>t i. valid_prop t i \<longrightarrow> t \<noteq> String \<longrightarrow>
      (\<exists>v. registry_map w (t, i) = Some v \<and> val_eq v (entry_defaults t ! i)))"
proof -
  let ?w = "\<lparr>m_arrays = memory(String := replicate (GetEntryCount String) (VString '''')),
    m_adapters = [], m_receivers = [], m_persistencyPolicy = NoPersistency, w_heap = Map.empty,
    w_live_receivers = [], w_updates = [], w_callbacks = []\<rparr>"
  have "wf_world env ?w" using assms by (auto simp: wf_world_def wf_arrays_def)
  from initDefaults_ok [OF this] show ?thesis
    using initDefaults_no_adapters [of env ?w] by (fastforce simp: registry_init_def split: if_splits)
qed

text \<open>A registry whose memory held zeros, before the constructor's body runs.\<close>

fun zero_of :: "Type \<Rightarrow> val" where
  "zero_of Int8 = VInt8 0"
| "zero_of Int16 = VInt16 0"
| "zero_of Int32 = VInt32 0"
| "zero_of Int64 = VInt64 0"
| "zero_of Uint8 = VUint8 0"
| "zero_of Uint16 = VUint16 0"
| "zero_of Uint32 = VUint32 0"
| "zero_of Uint64 = VUint64 0"
| "zero_of Float = VFloat 0"
| "zero_of Double = VDouble 0"
| "zero_of Bool = VBool False"
| "zero_of String = VString ''''"

definition zero_world :: world where
  "zero_world =
     \<lparr>m_arrays = \<lambda>t. replicate (GetEntryCount t) (zero_of t), m_adapters = [], m_receivers = [],
      m_persistencyPolicy = NoPersistency, w_heap = Map.empty, w_live_receivers = [],
      w_updates = [], w_callbacks = []\<rparr>"

lemma vtype_zero_of [simp]: "vtype (zero_of t) = t"
  by (cases t) simp_all

lemma wf_zero_world [simp]: "wf_world env zero_world"
  by (simp add: zero_world_def wf_world_def wf_arrays_def)

theorem initDefaults_defaults_witness:
  "\<exists>w'. initDefaults example_rcore zero_world = Inr w' \<and> wf_world example_rcore w' \<and>
    (\<forall>t i. valid_prop t i \<longrightarrow>
       (if t = String then registry_map w' (t, i) = registry_map zero_world (t, i)
        else \<exists>v. registry_map w' (t, i) = Some v \<and> val_eq v (entry_defaults t ! i)))"
  by (rule initDefaults_defaults) simp

section \<open>Properties of the operations\<close>

text \<open>Property C10.  \<^verbatim>\<open>set\<close> refines the update of a map: on an entry of the catalogue it succeeds,
  keeps the registry well-formed, changes the map at that entry and nowhere else, and does not
  change it when the value compares equal; \<^verbatim>\<open>get\<close> then returns a value that is the one set, or
  equal to it. Outside the catalogue it reads out of range.\<close>

theorem registry_set_refines:
  assumes "wf_world env w" and "vtype v \<noteq> String \<or> NDEBUG env"
  shows "if valid_prop (vtype v) (prop_index pid)
    then \<exists>w' old. registry_set env w pid v rel = Inr w' \<and> wf_world env w' \<and>
      registry_map w (vtype v, prop_index pid) = Some old \<and>
      registry_map w' = (if val_eq old v then registry_map w
        else (registry_map w)((vtype v, prop_index pid) \<mapsto> v)) \<and>
      registry_get w' (vtype v) pid = Inr (if val_eq old v then old else v)
    else registry_set env w pid v rel = Inl OutOfBounds"
proof (cases "valid_prop (vtype v) (prop_index pid)")
  case True
  let ?w = "set_result w pid v rel"
  have w: "wf_world env ?w" using assms(1) by (rule wf_set_result)
  note registry_map_set_result [OF assms(1) True, of rel]
  moreover have "registry_get ?w (vtype v) pid = Inr
      (if val_eq (m_arrays w (vtype v) ! prop_index pid) v
       then m_arrays w (vtype v) ! prop_index pid else v)"
    using True by (simp add: registry_get_eq [OF w] set_result_arrays [OF assms(1) True])
  ultimately show ?thesis
    using True w registry_set_eq [OF assms(1) True assms(2)] registry_map_eq [OF assms(1)] by auto
qed (simp add: registry_set_def registry_get_eq [OF assms(1)])

theorem registry_set_refines_witness:
  "if valid_prop (vtype (VInt16 7)) (prop_index 2)
    then \<exists>w' old. registry_set example_rcore zero_world 2 (VInt16 7) BasicDelivery = Inr w' \<and>
      wf_world example_rcore w' \<and>
      registry_map zero_world (vtype (VInt16 7), prop_index 2) = Some old \<and>
      registry_map w' = (if val_eq old (VInt16 7) then registry_map zero_world
        else (registry_map zero_world)((vtype (VInt16 7), prop_index 2) \<mapsto> VInt16 7)) \<and>
      registry_get w' (vtype (VInt16 7)) 2 =
        Inr (if val_eq old (VInt16 7) then old else VInt16 7)
    else registry_set example_rcore zero_world 2 (VInt16 7) BasicDelivery = Inl OutOfBounds"
  by (rule registry_set_refines) simp_all

text \<open>Property C11.  A \<^verbatim>\<open>set\<close> that changes a value reaches everyone registered, exactly once per
  registration: each adapter that is alive, accepts properties and has the entry subscribed
  sends the value as often as it is registered, every other adapter sends nothing, the
  receivers are called in the order of their registration, and expired adapters are forgotten.
  A \<^verbatim>\<open>set\<close> of an equal value changes nothing and reaches no one.\<close>

theorem registry_set_propagates:
  assumes "wf_world env w" and "valid_prop (vtype v) (prop_index pid)" and "vtype v \<noteq> String"
  shows "\<exists>w' old. registry_set env w pid v rel = Inr w' \<and> registry_get w (vtype v) pid = Inr old \<and>
    (if val_eq old v then w' = w
     else (\<forall>j. map_option m_transmit_buffer (w_heap w' j) =
             map_option (\<lambda>a. m_transmit_buffer a @
               (if m_acceptProperty a \<and> subscribed_at a (vtype v) (prop_index pid)
                then replicate (count_list (m_adapters w) (Some j)) (value_call pid v rel)
                else [])) (w_heap w j)) \<and>
          w_updates w' = w_updates w @ map (\<lambda>r. (r, vtype v, prop_index pid)) (m_receivers w) \<and>
          m_adapters w' = filter (alive (w_heap w)) (m_adapters w))"
proof -
  have buf: "map_option m_transmit_buffer (w_heap (set_result w pid v rel) j) =
      map_option (\<lambda>a. m_transmit_buffer a @
        (if m_acceptProperty a \<and> subscribed_at a (vtype v) (prop_index pid)
         then replicate (count_list (m_adapters w) (Some j)) (value_call pid v rel)
         else [])) (w_heap w j)"
    if "\<not> val_eq (m_arrays w (vtype v) ! prop_index pid) v" for j
    using that assms(3)
    by (cases "w_heap w j") (simp_all add: set_result_def Let_def transmit_buffer_funpow accepts_def)
  have "w_updates (set_result w pid v rel) =
        w_updates w @ map (\<lambda>r. (r, vtype v, prop_index pid)) (m_receivers w)"
    and "m_adapters (set_result w pid v rel) = filter (alive (w_heap w)) (m_adapters w)"
    if "\<not> val_eq (m_arrays w (vtype v) ! prop_index pid) v"
    using that by (simp_all add: set_result_def Let_def)
  moreover have "set_result w pid v rel = w" if "val_eq (m_arrays w (vtype v) ! prop_index pid) v"
    using that by (simp add: set_result_def Let_def)
  ultimately show ?thesis
    using registry_set_eq [OF assms(1,2), of rel] assms buf registry_get_eq [OF assms(1)]
    by auto
qed

text \<open>A registry with an adapter that is alive, one that is gone, and a receiver.\<close>

definition example_world :: world where
  "example_world = zero_world\<lparr>m_adapters := [Some 1, Some 2, Some 1],
     m_receivers := [5], w_live_receivers := [5], w_heap := [1 \<mapsto> example_adapter]\<rparr>"

lemma wf_example_world [simp]: "wf_world example_rcore example_world"
  using wf_zero_world [of example_rcore] by (simp add: example_world_def wf_world_def)

theorem registry_set_propagates_witness:
  "\<exists>w' old. registry_set example_rcore example_world 2 (VInt16 7) BasicDelivery = Inr w' \<and>
    registry_get example_world (vtype (VInt16 7)) 2 = Inr old \<and>
    (if val_eq old (VInt16 7) then w' = example_world
     else (\<forall>j. map_option m_transmit_buffer (w_heap w' j) =
             map_option (\<lambda>a. m_transmit_buffer a @
               (if m_acceptProperty a \<and> subscribed_at a (vtype (VInt16 7)) (prop_index 2)
                then replicate (count_list (m_adapters example_world) (Some j))
                       (value_call 2 (VInt16 7) BasicDelivery)
                else [])) (w_heap example_world j)) \<and>
          w_updates w' = w_updates example_world @
            map (\<lambda>r. (r, vtype (VInt16 7), prop_index 2)) (m_receivers example_world) \<and>
          m_adapters w' = filter (alive (w_heap example_world)) (m_adapters example_world))"
  by (rule registry_set_propagates) (simp_all add: valid_prop_def prop_index_def)

text \<open>The reliability that clients choose makes no difference: \<^verbatim>\<open>set\<close> with
  \<^verbatim>\<open>reliable = true\<close> does exactly what it does with \<^verbatim>\<open>false\<close>, and the messages of both ask for no
  acknowledgement.\<close>

theorem reliable_flag_no_effect:
  "setIntPropertyBooleanReliability env w i v True =
     setIntPropertyBooleanReliability env w i v False \<and>
   value_call i v DefaultReliability = TbSend (word_of_nat (Type_int (vtype v))) (ucast i) v False"
  by (simp add: setIntPropertyBooleanReliability_def registry_set_reliable_def
      DefaultReliability_def BasicDelivery_def value_call_def reliability_contains_def
      Acknowledged_def)

text \<open>\<^verbatim>\<open>removeReceiver\<close> leaves the vector as long as it was: the kept receivers move to
  the front and the old tail follows, so a receiver at the end stays registered, and a receiver
  that a kept one was copied from is registered twice.\<close>

theorem removeReceiver_effect:
  "m_receivers (removeReceiver w r) =
     filter (\<lambda>x. x \<noteq> r) (m_receivers w) @
     drop (length (filter (\<lambda>x. x \<noteq> r) (m_receivers w))) (m_receivers w) \<and>
   m_receivers (removeReceiver (w\<lparr>m_receivers := rs @ [r]\<rparr>) r) = filter (\<lambda>x. x \<noteq> r) rs @
     drop (length (filter (\<lambda>x. x \<noteq> r) rs)) rs @ [r] \<and>
   m_receivers (removeReceiver (w\<lparr>m_receivers := [r, s]\<rparr>) r) = [s, s]"
  by (cases "s = r") (simp_all add: removeReceiver_def std_remove_if_copy)

text \<open>The consequence: a receiver registered last that is removed and destroyed, as a
  client does in its destructor, is still called by the next \<^verbatim>\<open>set\<close> that changes a value, a use
  of a dangling pointer.\<close>

theorem removed_receiver_dangles:
  assumes "wf_world env w" and "valid_prop (vtype v) (prop_index pid)" and "vtype v \<noteq> String"
    and "m_receivers w = rs @ [r]"
    and "registry_get w (vtype v) pid = Inr old" and "\<not> val_eq old v"
  shows "registry_set env
    (removeReceiver w r\<lparr>w_live_receivers := removeAll r (w_live_receivers w)\<rparr>) pid v rel =
      Inl NullDeref"
proof -
  let ?w = "removeReceiver w r\<lparr>w_live_receivers := removeAll r (w_live_receivers w)\<rparr>"
  have "r \<in> set (m_receivers ?w)"
    by (simp add: removeReceiver_def std_remove_if_copy assms(4))
  then have "notify_receivers (w_live_receivers ?w) (vtype v) (prop_index pid) (m_receivers ?w) =
      Inl NullDeref"
    by (auto simp: notify_receivers_eq)
  moreover have "registry_get ?w (vtype v) pid = Inr old" and "m_arrays ?w = m_arrays w"
    and "w_heap ?w = w_heap w"
    using assms(5) by (simp_all add: registry_get_def removeReceiver_def)
  moreover have "wf_arrays (m_arrays w)" using assms(1) by (simp add: wf_world_def)
  moreover have put: "bindR (adapter_set env a pid v rel) (\<lambda>r. Inr (snd r)) =
      Inr (adapter_put pid v rel a)" if "wf_adapter env a" for a
    using adapter_set_eq [of a v pid env rel] assms(2,3) that by (simp add: wf_adapter_def)
  have "\<exists>ptrs h. forward (\<lambda>a. bindR (adapter_set env a pid v rel) (\<lambda>r. Inr (snd r)))
      (w_heap w) (m_adapters ?w) = Inr (ptrs, h)"
    by (subst forward_eq [where ok_ad = "wf_adapter env", OF put wf_adapter_put])
      (use assms(1) in \<open>auto simp: wf_world_def\<close>)
  ultimately show ?thesis
    using assms(2,6) by (auto simp: registry_set_def setToArray_def arr_put_eq)
qed

theorem removed_receiver_dangles_witness:
  "registry_set example_rcore
    (removeReceiver example_world 5\<lparr>w_live_receivers :=
       removeAll 5 (w_live_receivers example_world)\<rparr>) 2 (VInt16 7) BasicDelivery = Inl NullDeref"
proof (rule removed_receiver_dangles [where rs = "[]" and old = "VInt16 0"])
  show "registry_get example_world (vtype (VInt16 7)) 2 = Inr (VInt16 0)"
    using registry_get_eq [OF wf_example_world, of Int16 2]
    by (simp add: valid_prop_def prop_index_def example_world_def zero_world_def)
  show "m_receivers example_world = [] @ [5]" by (simp add: example_world_def)
qed (simp_all add: valid_prop_def prop_index_def)

text \<open>\<^verbatim>\<open>removeAdapter\<close> keeps the length of the vector too: an adapter still registered
  behind the kept ones keeps getting values. In an adapter's destructor the call removes
  nothing, since the weak pointers to it are expired by then; the next changing \<^verbatim>\<open>set\<close> erases them.\<close>

theorem removeAdapter_effect:
  assumes "w_heap w a \<noteq> None"
  shows "m_adapters (removeAdapter w a) =
      filter (\<lambda>p. p \<noteq> Some a) (m_adapters w) @
      map (\<lambda>p. if p = Some a then p else None)
        (drop (length (filter (\<lambda>p. p \<noteq> Some a) (m_adapters w))) (m_adapters w)) \<and>
    m_adapters (removeAdapter (w\<lparr>m_adapters := ps @ [Some a]\<rparr>) a) \<noteq>
      filter (\<lambda>p. p \<noteq> Some a) ps \<and>
    Some a \<in> set (m_adapters (removeAdapter (w\<lparr>m_adapters := ps @ [Some a]\<rparr>) a)) \<and>
    m_adapters (destroy_adapter w a) = m_adapters w"
proof -
  have pt: "points_to (w_heap w) a = (\<lambda>p. p = Some a)"
    using assms by (auto simp: points_to_def lock_def split: option.splits)
  have no: "filter (\<lambda>x. \<not> points_to ((w_heap w)(a := None)) a x) ps = ps" for ps
    by (auto simp: filter_id_conv points_to_def lock_def split: option.splits if_splits)
  show ?thesis
    using assms
    by (auto simp: removeAdapter_def pt std_remove_if_closed destroy_adapter_def no Let_def)
qed

theorem removeAdapter_effect_witness:
  "m_adapters (removeAdapter example_world 1) =
      filter (\<lambda>p. p \<noteq> Some 1) (m_adapters example_world) @
      map (\<lambda>p. if p = Some 1 then p else None)
        (drop (length (filter (\<lambda>p. p \<noteq> Some 1) (m_adapters example_world)))
           (m_adapters example_world)) \<and>
    m_adapters (removeAdapter (example_world\<lparr>m_adapters := [Some 2] @ [Some 1]\<rparr>) 1) \<noteq>
      filter (\<lambda>p. p \<noteq> Some 1) [Some 2] \<and>
    Some 1 \<in> set (m_adapters (removeAdapter (example_world\<lparr>m_adapters := [Some 2] @ [Some 1]\<rparr>) 1)) \<and>
    m_adapters (destroy_adapter example_world 1) = m_adapters example_world"
  by (rule removeAdapter_effect) (simp add: example_world_def)

end
