(* ===== verification/LiteComm.thy ===== *)
theory LiteComm
  imports Registry
begin

text \<open>
  The handler of received messages in \<^verbatim>\<open>RComm/include/RComm/LiteCommAdapter.hpp\<close>, the callback
  that the constructor registers for finished entries of the transmit buffer: an update is
  written to the registry (and so forwarded to the other adapters), a request is answered, a
  subscription is recorded; then the client's callback is called and the entry is pushed to the
  persistency policy.

  The handler runs to its end before another message is handled. The clock that the
  persistency policy reads is the argument \<open>now\<close>.
\<close>

section \<open>The handler\<close>

text \<open>The adapter \<open>i\<close> of the world, which must be alive, and its update.\<close>

definition put_adapter :: "world \<Rightarrow> nat \<Rightarrow> adapter \<Rightarrow> world" where
  "put_adapter w i a = w\<lparr>w_heap := (w_heap w)(i \<mapsto> a)\<rparr>"

text \<open>
  \<^verbatim>\<open>case LRT_RCP_MESSAGE_TYPE_UPDATE\<close>: whether the handler goes on after the switch, and the
  world.
\<close>

definition change_adapter :: "world \<Rightarrow> nat \<Rightarrow> (adapter \<Rightarrow> adapter) \<Rightarrow> world" where
  "change_adapter w i f = w\<lparr>w_heap := (w_heap w)(i := map_option f (w_heap w i))\<rparr>"

text \<open>
  \<^verbatim>\<open>m_registry->set(property, lrt_librcp_CLASS_from_data(entry->data->s, sizeof(...)))\<close>: neither
  the pointer to the data nor its length is checked, so an update with fewer bytes than its type
  has is read past its end.
\<close>

definition store_update ::
  "rcore \<Rightarrow> world \<Rightarrow> adapter \<Rightarrow> Type \<Rightarrow> tb_entry \<Rightarrow> world res" where
  "store_update env w a t e =
     (if \<not> m_registry a \<or> t = String then Inr w
      else case e_data e of
             None \<Rightarrow> Inl NullDeref
           | Some s \<Rightarrow> (case from_data env t s of
               None \<Rightarrow> Inl OutOfBounds
             | Some v \<Rightarrow> registry_set env w (prop_of_id (e_property e)) v DefaultReliability))"

definition handle_update ::
  "rcore \<Rightarrow> world \<Rightarrow> nat \<Rightarrow> adapter \<Rightarrow> Type \<Rightarrow> tb_entry \<Rightarrow> (bool \<times> world) res" where
  "handle_update env w i a t e =
     bindR (shouldBeDropped (m_dropperPolicy a) (e_reliable e) (e_type e) (e_property e)
              (e_seq_number e) (m_adapterId a)) (\<lambda>(dropped, policy).
       if dropped then Inr (False, put_adapter w i (a\<lparr>m_dropperPolicy := policy\<rparr>))
       else
         let a1 = a\<lparr>m_dropperPolicy := policy, m_hadUpdate := True, m_acceptProperty := False\<rparr>
         in bindR (store_update env (put_adapter w i a1) a1 t e) (\<lambda>w1.
              Inr (True, change_adapter w1 i (\<lambda>a2. a2\<lparr>m_acceptProperty := True\<rparr>))))"

definition handle_request ::
  "rcore \<Rightarrow> world \<Rightarrow> nat \<Rightarrow> adapter \<Rightarrow> Type \<Rightarrow> tb_entry \<Rightarrow> world res" where
  "handle_request env w i a t e =
     bindR (setBack env (registry_get w) a t (prop_of_id (e_property e))) (\<lambda>r.
       Inr (put_adapter w i (snd r)))"

definition handle_subscription ::
  "world \<Rightarrow> nat \<Rightarrow> adapter \<Rightarrow> tb_entry \<Rightarrow> bool \<Rightarrow> world res" where
  "handle_subscription w i a e subscribed =
     bindR (sub_put (m_subscriptions a) (unat (e_type e)) (unat (e_property e)) subscribed) (\<lambda>m.
       Inr (put_adapter w i (a\<lparr>m_subscriptions := m\<rparr>)))"

text \<open>\<^verbatim>\<open>switch(entry->message_type)\<close>; a message type without a case falls through.\<close>

definition handle_message ::
  "rcore \<Rightarrow> world \<Rightarrow> nat \<Rightarrow> adapter \<Rightarrow> Type \<Rightarrow> tb_entry \<Rightarrow> (bool \<times> world) res" where
  "handle_message env w i a t e =
     (case e_message_type e of
        MSG_UPDATE \<Rightarrow> handle_update env w i a t e
      | MSG_REQUEST \<Rightarrow> bindR (handle_request env w i a t e) (\<lambda>w1. Inr (True, w1))
      | MSG_SUBSCRIBE \<Rightarrow> bindR (handle_subscription w i a e True) (\<lambda>w1. Inr (True, w1))
      | MSG_UNSUBSCRIBE \<Rightarrow> bindR (handle_subscription w i a e False) (\<lambda>w1. Inr (True, w1))
      | MSG_OTHER _ \<Rightarrow> Inr (True, w))"

text \<open>After the switch: the message callback, then the persistency policy of the registry.\<close>

definition after_message ::
  "rcore \<Rightarrow> int \<Rightarrow> world \<Rightarrow> nat \<Rightarrow> Type \<Rightarrow> tb_entry \<Rightarrow> world res" where
  "after_message env now w i t e =
     (case w_heap w i of
        None \<Rightarrow> Inl NullDeref
      | Some a \<Rightarrow>
          bindR (callMessageCallback env a (e_message_type e) t (e_property e)) (\<lambda>cbs.
            if \<not> m_registry a then Inl NullDeref
            else bindR (persistency_push (registry_get w) now (m_persistencyPolicy w)
                          (ucast (m_adapterId a)) (Some t) (e_property e)) (\<lambda>p.
              Inr (w\<lparr>w_callbacks := w_callbacks w @ cbs, m_persistencyPolicy := p\<rparr>))))"

text \<open>\<^verbatim>\<open>static_cast<CLASS>(entry->property) >= CLASS::_COUNT\<close>.\<close>

definition outside_type :: "Type \<Rightarrow> 16 word \<Rightarrow> bool" where
  [simp]: "outside_type t p \<longleftrightarrow> GetEntryCount t \<le> unat p"

text \<open>
  The whole callback. The first switch returns for a type that is not a registry type and
  for a property that is not an entry of its type.
\<close>

definition on_finished :: "rcore \<Rightarrow> int \<Rightarrow> world \<Rightarrow> nat \<Rightarrow> tb_entry \<Rightarrow> world res" where
  "on_finished env now w i e =
     (case w_heap w i of
        None \<Rightarrow> Inl NullDeref
      | Some a \<Rightarrow>
          (case Type_of (unat (e_type e)) of
             None \<Rightarrow> Inr w
           | Some t \<Rightarrow>
               if outside_type t (e_property e) then Inr w
               else bindR (handle_message env w i a t e) (\<lambda>(continue, w1).
                 if continue then after_message env now w1 i t e else Inr w1)))"

section \<open>Basic facts\<close>

lemma prop_index_id_valid [simp]:
  "valid_prop t (prop_index (prop_of_id p)) = valid_prop t (unat p)"
  by simp

lemma put_adapter_frame [simp]:
  "m_arrays (put_adapter w i a) = m_arrays w"
  "m_adapters (put_adapter w i a) = m_adapters w"
  "m_receivers (put_adapter w i a) = m_receivers w"
  "m_persistencyPolicy (put_adapter w i a) = m_persistencyPolicy w"
  "w_live_receivers (put_adapter w i a) = w_live_receivers w"
  "w_updates (put_adapter w i a) = w_updates w"
  "w_callbacks (put_adapter w i a) = w_callbacks w"
  "w_heap (put_adapter w i a) i = Some a"
  "j \<noteq> i \<Longrightarrow> w_heap (put_adapter w i a) j = w_heap w j"
  by (simp_all add: put_adapter_def)

lemma change_adapter_frame [simp]:
  "m_arrays (change_adapter w i f) = m_arrays w"
  "m_adapters (change_adapter w i f) = m_adapters w"
  "m_receivers (change_adapter w i f) = m_receivers w"
  "m_persistencyPolicy (change_adapter w i f) = m_persistencyPolicy w"
  "w_live_receivers (change_adapter w i f) = w_live_receivers w"
  "w_updates (change_adapter w i f) = w_updates w"
  "w_callbacks (change_adapter w i f) = w_callbacks w"
  "w_heap (change_adapter w i f) i = map_option f (w_heap w i)"
  "j \<noteq> i \<Longrightarrow> w_heap (change_adapter w i f) j = w_heap w j"
  by (simp_all add: change_adapter_def)

lemma wf_put_adapter [wf_intros]:
  "wf_world env w \<Longrightarrow> wf_adapter env a \<Longrightarrow> wf_world env (put_adapter w i a)"
  by (auto simp: wf_world_def put_adapter_def)

lemma wf_change_adapter [wf_intros]:
  "wf_world env w \<Longrightarrow> (\<And>a. wf_adapter env a \<Longrightarrow> wf_adapter env (f a)) \<Longrightarrow>
   wf_world env (change_adapter w i f)"
  by (auto simp: wf_world_def change_adapter_def split: if_splits)

lemma wf_world_adapter: "wf_world env w \<Longrightarrow> w_heap w i = Some a \<Longrightarrow> wf_adapter env a"
  by (simp add: wf_world_def)

lemma registry_get_put [simp]:
  "registry_get (put_adapter w i a) = registry_get w"
  "registry_get (change_adapter w i f) = registry_get w"
  by (rule ext, rule ext, simp add: registry_get_def)+

section \<open>The handler never leaves defined behaviour\<close>

lemma wf_world_after [wf_intros, simp]:
  "wf_world env (w\<lparr>w_callbacks := c, m_persistencyPolicy := p\<rparr>) = wf_world env w"
  by (simp add: wf_world_def)

lemma after_message_ok:
  assumes "wf_world env w" and "w_heap w i = Some a" and "m_registry a"
    and "message_type_to_num env (e_message_type e) < MESSAGE_TYPE_COUNT env"
    and "valid_prop t (unat (e_property e))" and "t \<noteq> String"
  shows "\<exists>c p. after_message env now w i t e = Inr (w\<lparr>w_callbacks := c, m_persistencyPolicy := p\<rparr>)"
proof -
  have len: "length (m_messageCallback a) = MESSAGE_TYPE_COUNT env"
    using wf_world_adapter [OF assms(1,2)] by (simp add: wf_adapter_def)
  have "\<exists>cbs. callMessageCallback env a (e_message_type e) t (e_property e) = Inr cbs"
    using assms(4) len by (simp add: callMessageCallback_def split: option.splits)
  then obtain cbs where
    cbs: "callMessageCallback env a (e_message_type e) t (e_property e) = Inr cbs" ..
  have "is_ok (persistency_push (registry_get w) now (m_persistencyPolicy w)
      (ucast (m_adapterId a)) (Some t) (e_property e))"
  proof (rule persistency.push_ok)
    show "pushable (registry_get w, now, ucast (m_adapterId a), Some t, e_property e)"
      using assms(5,6) registry_get_eq [OF assms(1)] by (simp add: pushable_def)
  qed
  then obtain q where "persistency_push (registry_get w) now (m_persistencyPolicy w)
      (ucast (m_adapterId a)) (Some t) (e_property e) = Inr q" by (rule is_okE)
  with cbs assms(2,3) show ?thesis
    by (intro exI [of _ "w_callbacks w @ cbs"] exI [of _ q]) (simp add: after_message_def)
qed

lemma policy_ok:
  assumes "wf_adapter env a" and "Type_of (unat ty) = Some t" and "valid_prop t (unat pid)"
  obtains d p where "shouldBeDropped (m_dropperPolicy a) r ty pid sn aid = Inr (d, p)"
    and "wf_dropper p"
proof -
  have wf: "wf_dropper (m_dropperPolicy a)" using assms(1) by (simp add: wf_adapter_def)
  from policy.answers [OF wf assms(2,3)] obtain d p where
    dp: "shouldBeDropped (m_dropperPolicy a) r ty pid sn aid = Inr (d, p)" by blast
  with policy.keeps_inv [OF wf dp] that show ?thesis by blast
qed

text \<open>While the handler stores an update, the adapter itself does not accept properties.\<close>

definition updating :: "adapter \<Rightarrow> dropper \<Rightarrow> adapter" where
  "updating a p = a\<lparr>m_dropperPolicy := p, m_hadUpdate := True, m_acceptProperty := False\<rparr>"

lemma updating_frame [simp]:
  "m_registry (updating a p) = m_registry a"
  "m_transmit_buffer (updating a p) = m_transmit_buffer a"
  "m_acceptProperty (updating a p) = False"
  "m_messageCallback (updating a p) = m_messageCallback a"
  "m_subscriptions (updating a p) = m_subscriptions a"
  "m_adapterId (updating a p) = m_adapterId a"
  "m_hadUpdate (updating a p) = True"
  by (simp_all add: updating_def)

lemma wf_updating [wf_intros]:
  "wf_adapter env a \<Longrightarrow> wf_dropper p \<Longrightarrow> wf_adapter env (updating a p)"
  by (simp add: wf_adapter_def updating_def)

lemma set_result_self:
  assumes "w_heap w i = Some a" and "\<not> m_acceptProperty a"
  shows "w_heap (set_result w pid v rel) i = Some a"
proof -
  have "\<not> accepts a v pid" using assms(2) by (simp add: accepts_def)
  then show ?thesis using assms(1) by (simp add: set_result_def Let_def put_funpow_no)
qed

lemma store_update_eq:
  assumes "wf_world env w" and "m_registry a" and "valid_prop t (unat (e_property e))"
    and "e_data e = Some s" and "from_data env t s = Some v"
  shows "store_update env w a t e =
    Inr (set_result w (prop_of_id (e_property e)) v DefaultReliability)"
proof -
  have "vtype v = t" "t \<noteq> String" using from_data_type [OF assms(5)] by simp_all
  then show ?thesis
    using assms registry_set_eq [OF assms(1), of v "prop_of_id (e_property e)"]
    by (simp add: store_update_def)
qed

lemma handle_update_stored:
  assumes "wf_world env w" and "w_heap w i = Some a" and "m_registry a"
    and "valid_prop t (unat (e_property e))" and "e_data e = Some s" and "from_data env t s = Some v"
    and "shouldBeDropped (m_dropperPolicy a) (e_reliable e) (e_type e) (e_property e)
           (e_seq_number e) (m_adapterId a) = Inr (False, p)" and "wf_dropper p"
  shows "handle_update env w i a t e = Inr (True,
    change_adapter (set_result (put_adapter w i (updating a p)) (prop_of_id (e_property e)) v
      DefaultReliability) i (\<lambda>a. a\<lparr>m_acceptProperty := True\<rparr>))"
proof -
  have "wf_world env (put_adapter w i (updating a p))"
    by (intro wf_put_adapter wf_updating assms wf_world_adapter [OF assms(1,2)])
  from store_update_eq [OF this, of "updating a p" t e s v] assms show ?thesis
    by (simp add: handle_update_def updating_def Let_def)
qed

text \<open>The update that the dropper swallows.\<close>

definition swallowed :: "adapter \<Rightarrow> tb_entry \<Rightarrow> bool" where
  "swallowed a e \<longleftrightarrow> e_message_type e = MSG_UPDATE \<and>
     (case shouldBeDropped (m_dropperPolicy a) (e_reliable e) (e_type e) (e_property e)
             (e_seq_number e) (m_adapterId a) of
        Inl _ \<Rightarrow> False
      | Inr (dropped, _) \<Rightarrow> dropped)"

text \<open>
  What the switch over the message types relies on: an update of a decoded type has data of
  that type's size; a request of a string is not answered in a debug build.
\<close>

definition switch_defined :: "rcore \<Rightarrow> Type \<Rightarrow> tb_entry \<Rightarrow> bool" where
  "switch_defined env t e \<longleftrightarrow>
     (case e_message_type e of
        MSG_UPDATE \<Rightarrow> t = String \<or>
          (case e_data e of None \<Rightarrow> False | Some s \<Rightarrow> enough_data t s)
      | MSG_REQUEST \<Rightarrow> t = String \<longrightarrow> NDEBUG env
      | _ \<Rightarrow> True)"

text \<open>
  What the whole handler relies on, for an entry that passes its two bounds checks: the message
  type has a callback slot, and no string is pushed to a policy that is \<open>capturing\<close>.
\<close>

definition defined_entry :: "rcore \<Rightarrow> bool \<Rightarrow> tb_entry \<Rightarrow> bool" where
  "defined_entry env capturing e \<longleftrightarrow>
     (case Type_of (unat (e_type e)) of
        None \<Rightarrow> True
      | Some t \<Rightarrow> outside_type t (e_property e) \<or>
          message_type_to_num env (e_message_type e) < MESSAGE_TYPE_COUNT env \<and>
          (t = String \<longrightarrow> \<not> capturing) \<and> switch_defined env t e)"

definition capturing :: "world \<Rightarrow> bool" where
  "capturing w = (case m_persistencyPolicy w of DBPersistency p \<Rightarrow> \<not> m_stop p | _ \<Rightarrow> False)"

lemma swallowed_iff:
  "e_message_type e = MSG_UPDATE \<Longrightarrow> shouldBeDropped (m_dropperPolicy a) (e_reliable e) (e_type e)
     (e_property e) (e_seq_number e) (m_adapterId a) = Inr (d, p) \<Longrightarrow> swallowed a e = d"
  by (simp add: swallowed_def)

lemma swallowed_update: "swallowed a e \<Longrightarrow> e_message_type e = MSG_UPDATE"
  by (simp add: swallowed_def)

lemma handle_update_swallowed:
  assumes "wf_world env w" and "w_heap w i = Some a" and "m_registry a"
    and "Type_of (unat (e_type e)) = Some t" and "valid_prop t (unat (e_property e))"
    and "swallowed a e"
  shows "\<exists>w1 a1. handle_message env w i a t e = Inr (False, w1) \<and> wf_world env w1 \<and>
    w_heap w1 i = Some a1 \<and> m_registry a1 \<and> m_persistencyPolicy w1 = m_persistencyPolicy w \<and>
    m_dropperPolicy a \<noteq> BasePolicy"
proof -
  have wfa: "wf_adapter env a" by (rule wf_world_adapter [OF assms(1,2)])
  obtain d p where p: "shouldBeDropped (m_dropperPolicy a) (e_reliable e) (e_type e)
      (e_property e) (e_seq_number e) (m_adapterId a) = Inr (d, p)" "wf_dropper p"
    using policy_ok [OF wfa assms(4,5)] by blast
  have "wf_world env (put_adapter w i (a\<lparr>m_dropperPolicy := p\<rparr>))"
    using assms(1) wfa p(2) by (intro wf_put_adapter) (simp_all add: wf_adapter_def)
  then show ?thesis
    using p(1) assms(3,6) swallowed_update [OF assms(6)]
    by (auto simp: handle_message_def handle_update_def swallowed_def Base_shouldBeDropped_def)
qed

text \<open>The update that is not swallowed.\<close>

lemma handle_update_kept:
  assumes "wf_world env w" and "w_heap w i = Some a" and "m_registry a"
    and "Type_of (unat (e_type e)) = Some t" and "valid_prop t (unat (e_property e))"
    and "e_message_type e = MSG_UPDATE" and "\<not> swallowed a e"
  shows "if switch_defined env t e
    then \<exists>w1 a1. handle_message env w i a t e = Inr (True, w1) \<and> wf_world env w1 \<and>
      w_heap w1 i = Some a1 \<and> m_registry a1 \<and> m_persistencyPolicy w1 = m_persistencyPolicy w \<and>
      (m_dropperPolicy a = BasePolicy \<longrightarrow> m_dropperPolicy a1 = BasePolicy)
    else \<exists>err. handle_message env w i a t e = Inl err"
proof -
  have wfa: "wf_adapter env a" by (rule wf_world_adapter [OF assms(1,2)])
  obtain p where p: "shouldBeDropped (m_dropperPolicy a) (e_reliable e) (e_type e)
      (e_property e) (e_seq_number e) (m_adapterId a) = Inr (False, p)" "wf_dropper p"
    using policy_ok [OF wfa assms(4,5)] swallowed_iff [OF assms(6)] assms(7) by metis
  have base: "m_dropperPolicy a = BasePolicy \<longrightarrow> p = BasePolicy"
    using p(1) by (auto simp: Base_shouldBeDropped_def)
  let ?start = "put_adapter w i (updating a p)"
  have wf0: "wf_world env ?start" by (intro wf_put_adapter wf_updating assms(1) wfa p(2))
  have eq: "handle_message env w i a t e = bindR (store_update env ?start (updating a p) t e)
      (\<lambda>w1. Inr (True, change_adapter w1 i (\<lambda>a2. a2\<lparr>m_acceptProperty := True\<rparr>)))"
    using p assms(6) by (simp add: handle_message_def handle_update_def updating_def Let_def)
  have stored: "store_update env ?start (updating a p) t e = Inr w1 \<Longrightarrow> wf_world env w1 \<Longrightarrow>
      w_heap w1 i = Some (updating a p) \<Longrightarrow> m_persistencyPolicy w1 = m_persistencyPolicy w \<Longrightarrow>
      \<exists>w1 a1. handle_message env w i a t e = Inr (True, w1) \<and> wf_world env w1 \<and>
        w_heap w1 i = Some a1 \<and> m_registry a1 \<and> m_persistencyPolicy w1 = m_persistencyPolicy w \<and>
        (m_dropperPolicy a = BasePolicy \<longrightarrow> m_dropperPolicy a1 = BasePolicy)"
    for w1
    using assms(3) base wf_change_adapter [of env w1 "\<lambda>a. a\<lparr>m_acceptProperty := True\<rparr>" i]
    unfolding eq by (simp add: wf_adapter_def updating_def)
  show ?thesis
  proof (cases "t = String")
    case True
    with stored [of ?start] wf0 assms(6) show ?thesis
      by (simp add: store_update_def switch_defined_def)
  next
    case False
    show ?thesis
    proof (cases "\<exists>s. e_data e = Some s \<and> enough_data t s")
      case True
      then obtain s where s: "e_data e = Some s" "enough_data t s" by blast
      then obtain v where v: "from_data env t s = Some v"
        using False from_data_None [of env t s] by (cases "from_data env t s") auto
      let ?stored = "set_result ?start (prop_of_id (e_property e)) v DefaultReliability"
      have "store_update env ?start (updating a p) t e = Inr ?stored"
        using store_update_eq [OF wf0, of "updating a p" t e s v] s(1) v assms(3,5) by simp
      moreover have "w_heap ?stored i = Some (updating a p)" by (rule set_result_self) simp_all
      ultimately show ?thesis
        using stored [of ?stored] wf_set_result [OF wf0] s assms(6) by (simp add: switch_defined_def)
    next
      case no: False
      then have "\<exists>err. store_update env ?start (updating a p) t e = Inl err"
        using False assms(3) by (auto simp: store_update_def from_data_def split: option.split)
      with no False assms(6) show ?thesis
        unfolding eq by (auto simp: switch_defined_def split: option.splits)
    qed
  qed
qed

lemma handle_message_outcome:
  assumes "wf_world env w" and "w_heap w i = Some a" and "m_registry a"
    and "Type_of (unat (e_type e)) = Some t" and "valid_prop t (unat (e_property e))"
    and "\<not> swallowed a e"
  shows "if switch_defined env t e
    then \<exists>w1 a1. handle_message env w i a t e = Inr (True, w1) \<and> wf_world env w1 \<and>
      w_heap w1 i = Some a1 \<and> m_registry a1 \<and> m_persistencyPolicy w1 = m_persistencyPolicy w \<and>
      (m_dropperPolicy a = BasePolicy \<longrightarrow> m_dropperPolicy a1 = BasePolicy)
    else \<exists>err. handle_message env w i a t e = Inl err"
proof -
  have wfa: "wf_adapter env a" by (rule wf_world_adapter [OF assms(1,2)])
  have ty: "unat (e_type e) = Type_int t" using assms(4) by (simp add: Type_of_Some_iff)
  show ?thesis
  proof (cases "e_message_type e")
    case MSG_UPDATE
    then show ?thesis by (rule handle_update_kept [OF assms(1-5) _ assms(6)])
  next
    case MSG_REQUEST
    let ?pid = "prop_of_id (e_property e)"
    obtain v where v: "registry_get w t ?pid = Inr v" "vtype v = t"
      using registry_get_eq [OF assms(1), of t ?pid] registry_get_typed [OF assms(1)] assms(5)
      by (auto simp: typed_get_def)
    show ?thesis
    proof (cases "t = String \<longrightarrow> NDEBUG env")
      case True
      then have "setBack env (registry_get w) a t ?pid =
          Inr (adapter_event env a ?pid v DefaultReliability, adapter_put ?pid v DefaultReliability a)"
        using adapter_set_eq [of a v ?pid env] wfa assms(3,5) v
        by (auto simp: setBack_def wf_adapter_def)
      with MSG_REQUEST True assms(1,3) wfa show ?thesis
        by (simp add: handle_message_def handle_request_def wf_put_adapter wf_adapter_put
            switch_defined_def)
    next
      case False
      with MSG_REQUEST v assms(3) show ?thesis
        by (simp add: handle_message_def handle_request_def setBack_def adapter_set_def
            set_String_def switch_defined_def)
    qed
  next
    case (MSG_OTHER n)
    with assms show ?thesis by (simp add: handle_message_def switch_defined_def)
  qed (use assms wfa in \<open>simp_all add: handle_message_def handle_subscription_def ty sub_put_wf
      wf_adapter_def wf_put_adapter wf_map_update switch_defined_def\<close>)
qed

lemma after_message_outcome:
  assumes "wf_world env w" and "w_heap w i = Some a" and "m_registry a"
    and "valid_prop t (unat (e_property e))"
  shows "if message_type_to_num env (e_message_type e) < MESSAGE_TYPE_COUNT env \<and>
      (t = String \<longrightarrow> \<not> capturing w)
    then \<exists>c p. after_message env now w i t e = Inr (w\<lparr>w_callbacks := c, m_persistencyPolicy := p\<rparr>)
    else \<exists>err. after_message env now w i t e = Inl err"
proof -
  have len: "length (m_messageCallback a) = MESSAGE_TYPE_COUNT env"
    using wf_world_adapter [OF assms(1,2)] by (simp add: wf_adapter_def)
  show ?thesis
  proof (cases "message_type_to_num env (e_message_type e) < MESSAGE_TYPE_COUNT env")
    case True
    show ?thesis
    proof (cases "t = String")
      case False
      with after_message_ok [OF assms(1-3) True assms(4)] True show ?thesis by simp
    next
      case string: True
      have "\<exists>cbs. callMessageCallback env a (e_message_type e) t (e_property e) = Inr cbs"
        using True len by (simp add: callMessageCallback_def split: option.splits)
      then obtain cbs where
        cbs: "callMessageCallback env a (e_message_type e) t (e_property e) = Inr cbs" ..
      have get: "registry_get w String (prop_of_id (e_property e)) =
          Inr (m_arrays w String ! unat (e_property e))"
        using registry_get_eq [OF assms(1), of String "prop_of_id (e_property e)"] assms(4) string
        by simp
      show ?thesis
      proof (cases "m_persistencyPolicy w")
        case (DBPersistency p)
        with cbs get string True assms(2,3) show ?thesis
          by (cases "m_stop p") (auto simp: after_message_def capturing_def DB_push_eq
              push_record_def push_data_def
              intro: exI [of _ "w_callbacks w @ cbs"] exI [of _ "DBPersistency p"])
      qed (use cbs string True assms(2,3) in \<open>auto simp: after_message_def capturing_def
          Base_push_def intro: exI [of _ "w_callbacks w @ cbs"] exI [of _ "m_persistencyPolicy w"]\<close>)
    qed
  next
    case False
    with len assms(2) show ?thesis by (simp add: after_message_def callMessageCallback_def vec_at_def)
  qed
qed

lemma after_message_capturing:
  assumes "after_message env now w i t e = Inr w'"
  shows "capturing w' = capturing w"
proof (cases "m_persistencyPolicy w")
  case (DBPersistency p)
  with assms show ?thesis
    by (auto simp: after_message_def capturing_def res_simps split: option.splits if_splits
        elim!: DB_push_cases)
qed (use assms in \<open>auto simp: after_message_def capturing_def res_simps
    split: option.splits if_splits\<close>)

lemma on_finished_outcome:
  assumes "wf_world env w" and "w_heap w i = Some a" and "m_registry a"
  shows "if defined_entry env (capturing w) e \<or> swallowed a e
    then \<exists>w' a'. on_finished env now w i e = Inr w' \<and> wf_world env w' \<and>
      w_heap w' i = Some a' \<and> m_registry a' \<and> capturing w' = capturing w \<and>
      (m_dropperPolicy a = BasePolicy \<longrightarrow> m_dropperPolicy a' = BasePolicy)
    else \<exists>err. on_finished env now w i e = Inl err"
proof (cases "\<exists>t. Type_of (unat (e_type e)) = Some t \<and> valid_prop t (unat (e_property e))")
  case False
  with assms show ?thesis
    by (auto simp: on_finished_def defined_entry_def valid_prop_def split: option.splits)
next
  case True
  then obtain t where t: "Type_of (unat (e_type e)) = Some t" "valid_prop t (unat (e_property e))"
    by blast
  have fin: "on_finished env now w i e = bindR (handle_message env w i a t e) (\<lambda>(continue, w1).
      if continue then after_message env now w1 i t e else Inr w1)"
    using t assms(2) by (simp add: on_finished_def valid_prop_def)
  have def_iff: "defined_entry env (capturing w) e \<longleftrightarrow>
      message_type_to_num env (e_message_type e) < MESSAGE_TYPE_COUNT env \<and>
      (t = String \<longrightarrow> \<not> capturing w) \<and> switch_defined env t e"
    using t by (simp add: defined_entry_def valid_prop_def)
  show ?thesis
  proof (cases "swallowed a e")
    case True
    with handle_update_swallowed [OF assms t True] fin show ?thesis by (auto simp: capturing_def)
  next
    case False
    note h = handle_message_outcome [OF assms t False]
    show ?thesis
    proof (cases "switch_defined env t e")
      case True
      with h obtain w1 a1 where w1: "handle_message env w i a t e = Inr (True, w1)"
        "wf_world env w1" "w_heap w1 i = Some a1" "m_registry a1"
        "m_persistencyPolicy w1 = m_persistencyPolicy w"
        "m_dropperPolicy a = BasePolicy \<longrightarrow> m_dropperPolicy a1 = BasePolicy" by auto
      have cap: "capturing w1 = capturing w" using w1(5) by (simp add: capturing_def)
      show ?thesis
        using after_message_outcome [OF w1(2-4) t(2), of now] w1 fin def_iff False True
          after_message_capturing [of env now w1 i t e]
        by (auto simp: cap split: if_splits)
    qed (use h fin def_iff False in auto)
  qed
qed

text \<open>Property C15.  The handler of a message on a connected adapter, exactly: it leaves no defined
  behaviour, keeps the world well-formed and the adapter connected, if the dropper swallows the
  message, if its type is no registry type or its entry is outside its type, or else if its
  message type has a callback slot, an update carries at least as many bytes as its type has,
  a string is neither requested in a debug build nor pushed to a persistency policy that is
  recording. In every other case it does leave defined behaviour.\<close>

theorem on_finished_safe:
  assumes "wf_world env w" and "w_heap w i = Some a" and "m_registry a"
  shows "if defined_entry env (capturing w) e \<or> swallowed a e
    then \<exists>w' a'. on_finished env now w i e = Inr w' \<and> wf_world env w' \<and>
      w_heap w' i = Some a' \<and> m_registry a'
    else \<exists>err. on_finished env now w i e = Inl err"
  using on_finished_outcome [OF assms, of e now] by (auto split: if_splits)

text \<open>A message that the handler is safe for, whatever the policies do.\<close>

definition safe_entry :: "rcore \<Rightarrow> tb_entry \<Rightarrow> bool" where
  "safe_entry env e = defined_entry env True e"

lemma defined_entry_mono: "defined_entry env True e \<Longrightarrow> defined_entry env b e"
  by (auto simp: defined_entry_def split: option.splits)

lemma on_finished_ok:
  assumes "wf_world env w" and "w_heap w i = Some a" and "m_registry a" and "safe_entry env e"
  shows "\<exists>w' a'. on_finished env now w i e = Inr w' \<and> wf_world env w' \<and>
    w_heap w' i = Some a' \<and> m_registry a'"
proof -
  have "defined_entry env (capturing w) e"
    using assms(4) unfolding safe_entry_def by (rule defined_entry_mono)
  with on_finished_outcome [OF assms(1-3), of e now] show ?thesis by auto
qed

text \<open>Several messages, one after the other.\<close>

fun on_finished_all :: "rcore \<Rightarrow> int \<Rightarrow> world \<Rightarrow> nat \<Rightarrow> tb_entry list \<Rightarrow> world res" where
  "on_finished_all env now w i [] = Inr w"
| "on_finished_all env now w i (e # es) =
     bindR (on_finished env now w i e) (\<lambda>w1. on_finished_all env now w1 i es)"

lemma on_finished_all_ok:
  assumes "wf_world env w" and "w_heap w i = Some a" and "m_registry a"
    and "list_all (safe_entry env) es"
  shows "\<exists>w' a'. on_finished_all env now w i es = Inr w' \<and> wf_world env w' \<and>
    w_heap w' i = Some a' \<and> m_registry a'"
  using assms
proof (induction es arbitrary: w a)
  case (Cons e es)
  from on_finished_ok [OF Cons.prems(1-3), of e now] Cons.prems(4) obtain w1 a1 where
    "on_finished env now w i e = Inr w1" "wf_world env w1" "w_heap w1 i = Some a1" "m_registry a1"
    by auto
  with Cons.IH [of w1 a1] Cons.prems(4) show ?case by simp
qed simp

text \<open>With a dropper that drops nothing the messages are handled exactly if each is defined.\<close>

lemma on_finished_all_outcome:
  assumes "wf_world env w" and "w_heap w i = Some a" and "m_registry a"
    and "m_dropperPolicy a = BasePolicy"
  shows "if list_all (defined_entry env (capturing w)) es
    then \<exists>w' a'. on_finished_all env now w i es = Inr w' \<and> wf_world env w' \<and>
      w_heap w' i = Some a' \<and> m_registry a' \<and> m_dropperPolicy a' = BasePolicy \<and>
      capturing w' = capturing w
    else \<exists>err. on_finished_all env now w i es = Inl err"
  using assms
proof (induction es arbitrary: w a)
  case (Cons e es)
  have "\<not> swallowed a e"
    using Cons.prems(4) by (simp add: swallowed_def Base_shouldBeDropped_def)
  then have out: "if defined_entry env (capturing w) e
    then \<exists>w' a'. on_finished env now w i e = Inr w' \<and> wf_world env w' \<and>
      w_heap w' i = Some a' \<and> m_registry a' \<and> capturing w' = capturing w \<and>
      m_dropperPolicy a' = BasePolicy
    else \<exists>err. on_finished env now w i e = Inl err"
    using on_finished_outcome [OF Cons.prems(1-3), of e now] Cons.prems(4)
    by (auto split: if_splits)
  show ?case
  proof (cases "defined_entry env (capturing w) e")
    case True
    with out obtain w1 a1 where w1: "on_finished env now w i e = Inr w1" "wf_world env w1"
      "w_heap w1 i = Some a1" "m_registry a1" "m_dropperPolicy a1 = BasePolicy"
      "capturing w1 = capturing w" by auto
    with Cons.IH [OF w1(2-5)] True show ?thesis by (simp split del: if_split cong: if_cong)
  qed (use out in auto)
qed simp

section \<open>Messages of the four kinds\<close>

lemma on_finished_continue:
  assumes "w_heap w i = Some a" and "Type_of (unat (e_type e)) = Some t"
    and "valid_prop t (unat (e_property e))" and "t \<noteq> String"
    and "handle_message env w i a t e = Inr (True, w1)" and "wf_world env w1"
    and "w_heap w1 i = Some a1" and "m_registry a1"
    and "message_type_to_num env (e_message_type e) < MESSAGE_TYPE_COUNT env"
  shows "\<exists>c p. on_finished env now w i e = Inr (w1\<lparr>w_callbacks := c, m_persistencyPolicy := p\<rparr>)"
  using after_message_ok [OF assms(6-9,3,4), of now] assms(1,2,3,5)
  by (simp add: on_finished_def valid_prop_def)

lemma registry_map_after [simp]:
  "registry_map (w\<lparr>w_callbacks := c, m_persistencyPolicy := p\<rparr>) = registry_map w"
  "registry_map (change_adapter w i f) = registry_map w"
  "registry_map (put_adapter w i a) = registry_map w"
  "registry_map (w\<lparr>w_heap := h\<rparr>) = registry_map w"
  by (simp_all add: registry_map_def)

lemma forwarded_heap:
  assumes "w_heap w j = Some b" and "\<not> val_eq (m_arrays w (vtype v) ! prop_index pid) v"
    and "vtype v \<noteq> String"
  shows "\<exists>b'. w_heap (set_result w pid v rel) j = Some b' \<and>
    m_transmit_buffer b' = m_transmit_buffer b @
      (if m_acceptProperty b \<and> subscribed_at b (vtype v) (prop_index pid)
       then replicate (count_list (m_adapters w) (Some j)) (value_call pid v rel) else [])"
  using assms by (simp add: set_result_def Let_def transmit_buffer_funpow accepts_def)

text \<open>The world after an update that is stored, but for the calls that follow the switch.\<close>

definition stored_world :: "world \<Rightarrow> nat \<Rightarrow> adapter \<Rightarrow> dropper \<Rightarrow> property \<Rightarrow> val \<Rightarrow> world" where
  "stored_world w i a p pid v =
     change_adapter (set_result (put_adapter w i (updating a p)) pid v DefaultReliability) i
       (\<lambda>a. a\<lparr>m_acceptProperty := True\<rparr>)"

lemma stored_world_adapter:
  "w_heap (stored_world w i a p pid v) i = Some (updating a p\<lparr>m_acceptProperty := True\<rparr>)"
proof -
  have "w_heap (set_result (put_adapter w i (updating a p)) pid v DefaultReliability) i =
      Some (updating a p)" by (rule set_result_self) simp_all
  then show ?thesis by (simp add: stored_world_def)
qed

lemma stored_world_map:
  assumes "wf_world env w" and "wf_adapter env a" and "wf_dropper p"
    and "valid_prop (vtype v) (prop_index pid)"
  shows "wf_world env (stored_world w i a p pid v) \<and>
    registry_map (stored_world w i a p pid v) =
      (if val_eq (m_arrays w (vtype v) ! prop_index pid) v then registry_map w
       else (registry_map w)((vtype v, prop_index pid) \<mapsto> v))"
proof -
  have start: "wf_world env (put_adapter w i (updating a p))"
    by (intro wf_put_adapter wf_updating assms(1-3))
  have "wf_world env (stored_world w i a p pid v)"
    unfolding stored_world_def
    by (rule wf_change_adapter [OF wf_set_result [OF start]]) (simp add: wf_adapter_def)
  then show ?thesis
    using registry_map_set_result [OF start assms(4), of DefaultReliability]
    by (simp add: stored_world_def)
qed

lemma stored_world_others:
  assumes "j \<noteq> i" and "w_heap w j = Some b" and "\<not> val_eq (m_arrays w (vtype v) ! prop_index pid) v"
    and "vtype v \<noteq> String"
  shows "\<exists>b'. w_heap (stored_world w i a p pid v) j = Some b' \<and>
    m_transmit_buffer b' = m_transmit_buffer b @
      (if m_acceptProperty b \<and> subscribed_at b (vtype v) (prop_index pid)
       then replicate (count_list (m_adapters w) (Some j)) (value_call pid v DefaultReliability)
       else [])"
  using forwarded_heap [of "put_adapter w i (updating a p)" j b v pid DefaultReliability] assms
  by (simp add: stored_world_def split del: if_split cong: if_cong)

lemma on_finished_stored:
  assumes "wf_world env w" and "w_heap w i = Some a" and "m_registry a"
    and "message_type_to_num env MSG_UPDATE < MESSAGE_TYPE_COUNT env"
    and "e_message_type e = MSG_UPDATE" and "Type_of (unat (e_type e)) = Some t"
    and "valid_prop t (unat (e_property e))" and "e_data e = Some s" and "from_data env t s = Some v"
    and "shouldBeDropped (m_dropperPolicy a) (e_reliable e) (e_type e) (e_property e)
           (e_seq_number e) (m_adapterId a) = Inr (False, p)"
  shows "wf_adapter env a \<and> wf_dropper p \<and> vtype v = t \<and> t \<noteq> String \<and>
    (\<exists>c q. on_finished env now w i e =
       Inr (stored_world w i a p (prop_of_id (e_property e)) v
         \<lparr>w_callbacks := c, m_persistencyPolicy := q\<rparr>))"
proof -
  let ?w = "stored_world w i a p (prop_of_id (e_property e)) v"
  have v: "vtype v = t" "t \<noteq> String" using from_data_type [OF assms(9)] by simp_all
  have wfa: "wf_adapter env a" by (rule wf_world_adapter [OF assms(1,2)])
  have wfp: "wf_dropper p"
    using policy.keeps_inv [OF _ assms(10)] wfa by (simp add: wf_adapter_def)
  have "handle_message env w i a t e = Inr (True, ?w)"
    using handle_update_stored [OF assms(1-3,7-10) wfp] assms(5)
    by (simp add: handle_message_def stored_world_def)
  moreover have "wf_world env ?w"
    using stored_world_map [OF assms(1) wfa wfp] assms(7) v by simp
  ultimately show ?thesis
    using on_finished_continue [OF assms(2,6,7) v(2) _ _ stored_world_adapter] assms(3,4,5)
      v wfa wfp by simp
qed

text \<open>Property C12.  An update that the dropper lets through is applied: the registry's map changes at
  the entry to the decoded value (unless it compares equal) and nowhere else; the change is
  forwarded to every other adapter as often as it is registered, if that adapter accepts it and
  has it subscribed, but never echoed to the sender, which ends accepting properties again,
  also when the client had switched that off.\<close>

theorem on_finished_update:
  assumes "wf_world env w" and "w_heap w i = Some a" and "m_registry a"
    and "message_type_to_num env MSG_UPDATE < MESSAGE_TYPE_COUNT env"
    and "e_message_type e = MSG_UPDATE" and "Type_of (unat (e_type e)) = Some t"
    and "valid_prop t (unat (e_property e))" and "e_data e = Some s" and "from_data env t s = Some v"
    and "shouldBeDropped (m_dropperPolicy a) (e_reliable e) (e_type e) (e_property e)
           (e_seq_number e) (m_adapterId a) = Inr (False, p)"
  shows "\<exists>w' a' old. on_finished env now w i e = Inr w' \<and>
    registry_map w (t, unat (e_property e)) = Some old \<and>
    registry_map w' = (if val_eq old v then registry_map w
      else (registry_map w)((t, unat (e_property e)) \<mapsto> v)) \<and>
    w_heap w' i = Some a' \<and> m_transmit_buffer a' = m_transmit_buffer a \<and>
    m_hadUpdate a' \<and> m_acceptProperty a' \<and>
    (\<forall>j b. j \<noteq> i \<and> w_heap w j = Some b \<and> \<not> val_eq old v \<longrightarrow>
      (\<exists>b'. w_heap w' j = Some b' \<and> m_transmit_buffer b' = m_transmit_buffer b @
        (if m_acceptProperty b \<and> subscribed_at b t (unat (e_property e))
         then replicate (count_list (m_adapters w) (Some j))
                (value_call (prop_of_id (e_property e)) v DefaultReliability)
         else [])))"
proof -
  let ?pid = "prop_of_id (e_property e)"
  let ?w = "stored_world w i a p ?pid v"
  from on_finished_stored [OF assms, of now] obtain c q where
    wf: "wf_adapter env a" "wf_dropper p" and v: "vtype v = t" "t \<noteq> String" and
    fin: "on_finished env now w i e = Inr (?w\<lparr>w_callbacks := c, m_persistencyPolicy := q\<rparr>)" by auto
  have "registry_map ?w = (if val_eq (m_arrays w t ! unat (e_property e)) v then registry_map w
      else (registry_map w)((t, unat (e_property e)) \<mapsto> v))"
    using stored_world_map [OF assms(1) wf, of v ?pid i] assms(7) v by simp
  then show ?thesis
    using fin stored_world_adapter [of w i a p ?pid v] stored_world_others [of _ i w _ v ?pid a p]
      assms(7) v registry_map_eq [OF assms(1), of t "unat (e_property e)"]
    by (intro exI [of _ "?w\<lparr>w_callbacks := c, m_persistencyPolicy := q\<rparr>"]
        exI [of _ "updating a p\<lparr>m_acceptProperty := True\<rparr>"]
        exI [of _ "m_arrays w t ! unat (e_property e)"])
      (simp split del: if_split cong: if_cong)
qed

text \<open>An update of entry 2 of type Int16 with the value 258.\<close>

definition example_entry :: tb_entry where
  "example_entry = \<lparr>e_type = 1, e_property = 2, e_message_type = MSG_UPDATE, e_seq_number = 9,
     e_reliable = False, e_data = Some [2, 1]\<rparr>"



lemma safe_example_entry: "safe_entry example_rcore example_entry"
proof -
  have "Type_of (Suc 0) = Some Int16" by (simp add: Type_of_Some_iff)
  then show ?thesis
    by (simp add: safe_entry_def defined_entry_def example_entry_def example_rcore_def
        switch_defined_def enough_data_def)
qed

lemma example_heap: "w_heap example_world 1 = Some example_adapter" "m_registry example_adapter"
  by (simp_all add: example_world_def example_adapter_def adapter_init_def)

text \<open>With its two bytes the update is handled, with one byte it is read past its end.\<close>

theorem on_finished_safe_witness:
  "(\<exists>w' a'. on_finished example_rcore 0 example_world 1 example_entry = Inr w' \<and>
     wf_world example_rcore w' \<and> w_heap w' 1 = Some a' \<and> m_registry a') \<and>
   (\<exists>err. on_finished example_rcore 0 example_world 1 (example_entry\<lparr>e_data := Some [2]\<rparr>) = Inl err)"
proof -
  have t: "Type_of (Suc 0) = Some Int16" by (simp add: Type_of_Some_iff)
  have "defined_entry example_rcore (capturing example_world) example_entry"
    and "\<not> defined_entry example_rcore (capturing example_world) (example_entry\<lparr>e_data := Some [2]\<rparr>)"
    by (simp_all add: defined_entry_def example_entry_def example_rcore_def t switch_defined_def
        enough_data_def)
  moreover have "\<not> swallowed example_adapter (example_entry\<lparr>e_data := Some [2]\<rparr>)"
    by (simp add: swallowed_def example_adapter_def adapter_init_def Base_shouldBeDropped_def)
  ultimately show ?thesis
    using on_finished_safe [OF wf_example_world example_heap, of example_entry 0]
      on_finished_safe [OF wf_example_world example_heap, of "example_entry\<lparr>e_data := Some [2]\<rparr>" 0]
    by simp
qed

theorem on_finished_update_witness:
  "\<exists>w' a' old. on_finished example_rcore 0 example_world 1 example_entry = Inr w' \<and>
    registry_map example_world (Int16, unat (e_property example_entry)) = Some old \<and>
    registry_map w' = (if val_eq old (VInt16 258) then registry_map example_world
      else (registry_map example_world)((Int16, unat (e_property example_entry)) \<mapsto> VInt16 258)) \<and>
    w_heap w' 1 = Some a' \<and> m_transmit_buffer a' = m_transmit_buffer example_adapter \<and>
    m_hadUpdate a' \<and> m_acceptProperty a' \<and>
    (\<forall>j b. j \<noteq> 1 \<and> w_heap example_world j = Some b \<and> \<not> val_eq old (VInt16 258) \<longrightarrow>
      (\<exists>b'. w_heap w' j = Some b' \<and> m_transmit_buffer b' = m_transmit_buffer b @
        (if m_acceptProperty b \<and> subscribed_at b Int16 (unat (e_property example_entry))
         then replicate (count_list (m_adapters example_world) (Some j))
                (value_call (prop_of_id (e_property example_entry)) (VInt16 258)
                   DefaultReliability)
         else [])))"
proof (rule on_finished_update [OF wf_example_world example_heap])
  show "shouldBeDropped (m_dropperPolicy example_adapter) (e_reliable example_entry)
      (e_type example_entry) (e_property example_entry) (e_seq_number example_entry)
      (m_adapterId example_adapter) = Inr (False, BasePolicy)"
    by (simp add: example_adapter_def adapter_init_def Base_shouldBeDropped_def)
  show "Type_of (unat (e_type example_entry)) = Some Int16"
    by (simp add: Type_of_Some_iff example_entry_def)
  show "from_data example_rcore Int16 [2, 1] = Some (VInt16 258)" by code_simp
qed (simp_all add: example_entry_def example_rcore_def valid_prop_def)

lemma on_finished_drop:
  assumes "w_heap w i = Some a" and "e_message_type e = MSG_UPDATE"
    and "Type_of (unat (e_type e)) = Some t" and "valid_prop t (unat (e_property e))"
    and "shouldBeDropped (m_dropperPolicy a) (e_reliable e) (e_type e) (e_property e)
           (e_seq_number e) (m_adapterId a) = Inr (True, p)"
  shows "on_finished env now w i e = Inr (put_adapter w i (a\<lparr>m_dropperPolicy := p\<rparr>))"
  using assms by (simp add: on_finished_def handle_message_def handle_update_def valid_prop_def)


definition lossy_world :: world where
  "lossy_world = example_world\<lparr>w_heap :=
     [1 \<mapsto> example_adapter\<lparr>m_dropperPolicy := LossyPolicy Lossy_init\<rparr>]\<rparr>"

definition reset_entry :: tb_entry where
  "reset_entry = example_entry\<lparr>e_type := word_of_nat (Type_int Bool),
     e_property := word_of_nat (Bool_int CTRL_RESET_SEQ_NUMBERS)\<rparr>"


section \<open>Subscriptions\<close>

text \<open>A subscription message for an entry of the catalogue that is no string.\<close>

definition control_message :: "tb_entry \<Rightarrow> bool" where
  "control_message e \<longleftrightarrow> e_message_type e \<in> {MSG_SUBSCRIBE, MSG_UNSUBSCRIBE} \<and>
     (\<exists>t. Type_of (unat (e_type e)) = Some t \<and> t \<noteq> String \<and> valid_prop t (unat (e_property e)))"

text \<open>The specification: the last message about an entry decides.\<close>

fun subscribed_after :: "tb_entry list \<Rightarrow> Type \<Rightarrow> nat \<Rightarrow> bool \<Rightarrow> bool" where
  "subscribed_after [] t j b = b"
| "subscribed_after (e # es) t j b = subscribed_after es t j
     (if unat (e_type e) = Type_int t \<and> unat (e_property e) = j
      then e_message_type e = MSG_SUBSCRIBE else b)"

lemma subscribed_at_put:
  assumes "wf_map (m_subscriptions a)" and "sub_put (m_subscriptions a) (Type_int t) i b = Inr m"
  shows "subscribed_at (a\<lparr>m_subscriptions := m\<rparr>) s j = (if s = t \<and> j = i then b else subscribed_at a s j)"
  using sub_map.rd_wr [OF assms(1) _ assms(2), of s j] by (simp add: subscribed_at_def)

lemma on_finished_subscribed:
  assumes "wf_world env w" and "w_heap w i = Some a" and "m_registry a" and "control_message e"
    and "message_type_to_num env (e_message_type e) < MESSAGE_TYPE_COUNT env"
  shows "\<exists>m c p. on_finished env now w i e = Inr (put_adapter w i (a\<lparr>m_subscriptions := m\<rparr>)
      \<lparr>w_callbacks := c, m_persistencyPolicy := p\<rparr>) \<and>
    wf_adapter env (a\<lparr>m_subscriptions := m\<rparr>) \<and>
    (\<forall>s j. subscribed_at (a\<lparr>m_subscriptions := m\<rparr>) s j = subscribed_after [e] s j (subscribed_at a s j))"
proof -
  obtain t where t: "Type_of (unat (e_type e)) = Some t" "t \<noteq> String"
    "valid_prop t (unat (e_property e))"
    and mt: "e_message_type e = MSG_SUBSCRIBE \<or> e_message_type e = MSG_UNSUBSCRIBE"
    using assms(4) by (auto simp: control_message_def)
  have ty: "unat (e_type e) = Type_int t" using t(1) by (simp add: Type_of_Some_iff)
  let ?b = "e_message_type e = MSG_SUBSCRIBE"
  have wfa: "wf_adapter env a" by (rule wf_world_adapter [OF assms(1,2)])
  then have wfm: "wf_map (m_subscriptions a)" by (simp add: wf_adapter_def)
  from sub_map.wr_total [OF this t(3) TrueI, of ?b] obtain m where
    m: "sub_put (m_subscriptions a) (Type_int t) (unat (e_property e)) ?b = Inr m" "wf_map m" by blast
  let ?w = "put_adapter w i (a\<lparr>m_subscriptions := m\<rparr>)"
  have wf: "wf_adapter env (a\<lparr>m_subscriptions := m\<rparr>)" using m(2) wfa by (simp add: wf_adapter_def)
  have "handle_message env w i a t e = Inr (True, ?w)"
    using m(1) mt by (auto simp: handle_message_def handle_subscription_def ty)
  then have "\<exists>c p. on_finished env now w i e =
      Inr (?w\<lparr>w_callbacks := c, m_persistencyPolicy := p\<rparr>)"
    using on_finished_continue [OF assms(2) t(1,3,2) _ wf_put_adapter [OF assms(1) wf]]
      assms(3,5) by simp
  moreover have "subscribed_at (a\<lparr>m_subscriptions := m\<rparr>) s j = subscribed_after [e] s j
      (subscribed_at a s j)" for s j
    using subscribed_at_put [OF wfm m(1)] ty by auto
  ultimately show ?thesis using wf by blast
qed

lemma on_finished_control:
  assumes "wf_world env w" and "w_heap w i = Some a" and "m_registry a" and "control_message e"
    and "message_type_to_num env (e_message_type e) < MESSAGE_TYPE_COUNT env"
  shows "\<exists>w' a'. on_finished env now w i e = Inr w' \<and> wf_world env w' \<and>
    w_heap w' i = Some a' \<and> m_registry a' \<and> m_arrays w' = m_arrays w \<and>
    m_adapters w' = m_adapters w \<and> m_receivers w' = m_receivers w \<and>
    m_acceptProperty a' = m_acceptProperty a \<and> m_transmit_buffer a' = m_transmit_buffer a \<and>
    (\<forall>t j. subscribed_at a' t j = subscribed_after [e] t j (subscribed_at a t j))"
proof -
  from on_finished_subscribed [OF assms, of now] obtain m c p where
    fin: "on_finished env now w i e = Inr (put_adapter w i (a\<lparr>m_subscriptions := m\<rparr>)
      \<lparr>w_callbacks := c, m_persistencyPolicy := p\<rparr>)" and
    wf: "wf_adapter env (a\<lparr>m_subscriptions := m\<rparr>)" and
    sub: "\<And>s j. subscribed_at (a\<lparr>m_subscriptions := m\<rparr>) s j =
      subscribed_after [e] s j (subscribed_at a s j)" by blast
  have "wf_world env (put_adapter w i (a\<lparr>m_subscriptions := m\<rparr>))"
    by (rule wf_put_adapter [OF assms(1) wf])
  with fin sub assms(3) show ?thesis
    by (intro exI [of _ "put_adapter w i (a\<lparr>m_subscriptions := m\<rparr>)
          \<lparr>w_callbacks := c, m_persistencyPolicy := p\<rparr>"]
        exI [of _ "a\<lparr>m_subscriptions := m\<rparr>"]) auto
qed

text \<open>Property C21.  Subscriptions follow their messages: after any sequence of subscribe and
  unsubscribe messages the adapter sends a changed value exactly when the last message about
  the entry was a subscription, or when there was none and the entry was subscribed before;
  the messages change neither the registry's values nor the messages sent so far.\<close>

theorem subscriptions_decide_sends:
  assumes "wf_world env w" and "w_heap w i = Some a" and "m_registry a"
    and "\<forall>e \<in> set es. control_message e \<and>
      message_type_to_num env (e_message_type e) < MESSAGE_TYPE_COUNT env"
    and "m_acceptProperty a" and "valid_prop (vtype v) (prop_index pid)" and "vtype v \<noteq> String"
    and "registry_get w (vtype v) pid = Inr old" and "\<not> val_eq old v"
  shows "\<exists>w1 w2 a2. on_finished_all env now w i es = Inr w1 \<and> registry_map w1 = registry_map w \<and>
    registry_set env w1 pid v rel = Inr w2 \<and> w_heap w2 i = Some a2 \<and>
    m_transmit_buffer a2 = m_transmit_buffer a @
      (if subscribed_after es (vtype v) (prop_index pid)
            (subscribed_at a (vtype v) (prop_index pid))
       then replicate (count_list (m_adapters w) (Some i)) (value_call pid v rel) else [])"
  using assms(1-5,8)
proof (induction es arbitrary: w a)
  case Nil
  from forwarded_heap [of w i a v pid rel] Nil assms(6,7,9) registry_get_eq [OF Nil(1)]
    registry_set_eq [OF Nil(1) assms(6), of rel]
  show ?case by (simp split del: if_split cong: if_cong)
next
  case (Cons e es)
  from on_finished_control [OF Cons.prems(1-3), of e now] Cons.prems(4) obtain w' a' where
    s: "on_finished env now w i e = Inr w'" "wf_world env w'" "w_heap w' i = Some a'"
      "m_registry a'" "m_arrays w' = m_arrays w" "m_adapters w' = m_adapters w"
      "m_acceptProperty a' = m_acceptProperty a" "m_transmit_buffer a' = m_transmit_buffer a"
    and sub: "\<And>t j. subscribed_at a' t j = subscribed_after [e] t j (subscribed_at a t j)" by auto
  have "registry_get w' (vtype v) pid = Inr old" "registry_map w' = registry_map w"
    using Cons.prems(6) s(5) by (simp_all add: registry_get_def registry_map_def)
  with Cons.IH [OF s(2-4)] Cons.prems(4,5) s sub show ?case
    by (simp split del: if_split cong: if_cong)
qed

definition unsubscribe_entry :: tb_entry where
  "unsubscribe_entry = example_entry\<lparr>e_message_type := MSG_UNSUBSCRIBE\<rparr>"

lemma example_get: "registry_get example_world Int16 2 = Inr (VInt16 0)"
  using registry_get_eq [OF wf_example_world, of Int16 2]
  by (simp add: valid_prop_def prop_index_def example_world_def zero_world_def)

theorem subscriptions_decide_sends_witness:
  "\<exists>w1 w2 a2. on_finished_all example_rcore 0 example_world 1 [unsubscribe_entry] = Inr w1 \<and>
    registry_map w1 = registry_map example_world \<and>
    registry_set example_rcore w1 2 (VInt16 7) BasicDelivery = Inr w2 \<and> w_heap w2 1 = Some a2 \<and>
    m_transmit_buffer a2 = m_transmit_buffer example_adapter @
      (if subscribed_after [unsubscribe_entry] (vtype (VInt16 7)) (prop_index 2)
            (subscribed_at example_adapter (vtype (VInt16 7)) (prop_index 2))
       then replicate (count_list (m_adapters example_world) (Some 1))
              (value_call 2 (VInt16 7) BasicDelivery) else [])"
proof (rule subscriptions_decide_sends [OF wf_example_world example_heap])
  have "Type_of (unat (e_type unsubscribe_entry)) = Some Int16"
    by (simp add: Type_of_Some_iff example_entry_def unsubscribe_entry_def)
  then show "\<forall>e \<in> set [unsubscribe_entry]. control_message e \<and>
      message_type_to_num example_rcore (e_message_type e) < MESSAGE_TYPE_COUNT example_rcore"
    by (simp add: control_message_def unsubscribe_entry_def example_entry_def valid_prop_def
        example_rcore_def)
  show "registry_get example_world (vtype (VInt16 7)) 2 = Inr (VInt16 0)"
    by (simp add: example_get)
qed (simp_all add: example_adapter_def adapter_init_def valid_prop_def prop_index_def)

text \<open>The world after a request, but for the calls that follow the switch.\<close>

lemma on_finished_requested:
  assumes "wf_world env w" and "w_heap w i = Some a" and "m_registry a"
    and "message_type_to_num env MSG_REQUEST < MESSAGE_TYPE_COUNT env"
    and "e_message_type e = MSG_REQUEST" and "Type_of (unat (e_type e)) = Some t" and "t \<noteq> String"
    and "valid_prop t (unat (e_property e))"
  shows "\<exists>v c p. registry_map w (t, unat (e_property e)) = Some v \<and> vtype v = t \<and>
    on_finished env now w i e = Inr (put_adapter w i
      (adapter_put (prop_of_id (e_property e)) v DefaultReliability a)
        \<lparr>w_callbacks := c, m_persistencyPolicy := p\<rparr>)"
proof -
  let ?pid = "prop_of_id (e_property e)"
  have wfa: "wf_adapter env a" by (rule wf_world_adapter [OF assms(1,2)])
  obtain v where v: "registry_get w t ?pid = Inr v" "vtype v = t"
    using registry_get_eq [OF assms(1), of t ?pid] registry_get_typed [OF assms(1)] assms(8)
    by (auto simp: typed_get_def)
  let ?a = "adapter_put ?pid v DefaultReliability a"
  have "setBack env (registry_get w) a t ?pid =
      Inr (adapter_event env a ?pid v DefaultReliability, ?a)"
    using adapter_set_eq [of a v ?pid env] wfa assms(3,7,8) v by (simp add: setBack_def wf_adapter_def)
  then have "handle_message env w i a t e = Inr (True, put_adapter w i ?a)"
    using assms(5) by (simp add: handle_message_def handle_request_def)
  moreover have "wf_world env (put_adapter w i ?a)"
    by (intro wf_put_adapter wf_adapter_put assms(1) wfa)
  ultimately have "\<exists>c p. on_finished env now w i e =
      Inr (put_adapter w i ?a\<lparr>w_callbacks := c, m_persistencyPolicy := p\<rparr>)"
    using on_finished_continue [OF assms(2,6,8,7), of env "put_adapter w i ?a" ?a now] assms(3,4,5)
    by auto
  moreover have "registry_map w (t, unat (e_property e)) = Some v"
    using v registry_get_eq [OF assms(1), of t ?pid] registry_map_eq [OF assms(1)] assms(8) by simp
  ultimately show ?thesis using v(2) by blast
qed

lemma word_of_Type: "Type_of (unat (ty :: 8 word)) = Some t \<Longrightarrow> word_of_nat (Type_int t) = ty"
proof -
  have "word_of_nat (unat ty) = ty" by simp
  then show "Type_of (unat ty) = Some t \<Longrightarrow> ?thesis" by (simp only: Type_of_Some_iff)
qed

lemma ucast_prop_of_id [simp]: "(ucast (prop_of_id p) :: 16 word) = p"
  by (simp add: prop_of_id_def ucast_up_ucast_id is_up)


text \<open>The handler checks the registry pointer before it stores an update and uses it
  unchecked afterwards: on an adapter without a registry every update, subscription or request
  of a valid entry ends in a null dereference, unless the dropper drops it.\<close>

theorem on_finished_null_registry:
  assumes "wf_world env w" and "w_heap w i = Some a" and "\<not> m_registry a"
    and "message_type_to_num env (e_message_type e) < MESSAGE_TYPE_COUNT env"
    and "Type_of (unat (e_type e)) = Some t" and "valid_prop t (unat (e_property e))"
    and "m_dropperPolicy a = BasePolicy"
  shows "on_finished env now w i e = Inl NullDeref"
proof -
  have wfa: "wf_adapter env a" by (rule wf_world_adapter [OF assms(1,2)])
  have after: "after_message env now w1 i t e = Inl NullDeref"
    if "w_heap w1 i = Some a1" "\<not> m_registry a1" "m_messageCallback a1 = m_messageCallback a"
    for w1 a1
    using that assms(4) wfa
    by (simp add: after_message_def callMessageCallback_def wf_adapter_def split: option.splits)
  have ty: "unat (e_type e) = Type_int t" using assms(5) by (simp add: Type_of_Some_iff)
  have "handle_message env w i a t e = Inl NullDeref \<or>
    (\<exists>w1 a1. handle_message env w i a t e = Inr (True, w1) \<and> w_heap w1 i = Some a1 \<and>
       \<not> m_registry a1 \<and> m_messageCallback a1 = m_messageCallback a)"
  proof (cases "e_message_type e")
    case MSG_UPDATE
    then show ?thesis
      using assms(3,7) by (simp add: handle_message_def handle_update_def store_update_def
          Base_shouldBeDropped_def Let_def)
  next
    case MSG_REQUEST
    then show ?thesis
      using assms(3) by (simp add: handle_message_def handle_request_def setBack_def)
  next
    case (MSG_OTHER n)
    then show ?thesis using assms(2,3) by (simp add: handle_message_def)
  qed (use assms wfa in \<open>simp_all add: handle_message_def handle_subscription_def ty sub_put_wf
      wf_adapter_def\<close>)
  then show ?thesis
    using assms(2,5,6) after by (auto simp: on_finished_def valid_prop_def)
qed


definition null_world :: world where
  "null_world = example_world\<lparr>w_heap := [1 \<mapsto> example_adapter\<lparr>m_registry := False\<rparr>]\<rparr>"

theorem on_finished_null_registry_witness:
  "on_finished example_rcore 0 null_world 1 example_entry = Inl NullDeref"
proof (rule on_finished_null_registry [where a = "example_adapter\<lparr>m_registry := False\<rparr>"])
  have "wf_adapter example_rcore (example_adapter\<lparr>m_registry := False\<rparr>)"
    by (rule wf_adapter_cong [OF wf_example_adapter]) simp_all
  then show "wf_world example_rcore null_world"
    using wf_example_world by (simp add: null_world_def wf_world_def)
  show "Type_of (unat (e_type example_entry)) = Some Int16"
    by (simp add: Type_of_Some_iff example_entry_def)
qed (simp_all add: null_world_def example_entry_def example_rcore_def valid_prop_def
    example_adapter_def adapter_init_def)

section \<open>The interface of a transport\<close>

text \<open>The adapter \<open>i\<close> is alive and has a registry.\<close>

definition connected_to :: "world \<Rightarrow> nat \<Rightarrow> bool" where
  "connected_to w i \<longleftrightarrow> (\<exists>a. w_heap w i = Some a \<and> m_registry a)"

text \<open>
  A transport gives what it reads to the adapter \<open>i\<close>: \<open>feed x\<close> is one reading, \<open>x\<close> what varies from
  one to the next, with a result, its own state and the world. The contract is that a reading
  leaves no defined behaviour and keeps the world well-formed and the adapter connected, under
  what the transport itself relies on, \<open>good\<close>.
\<close>

fun feed_all ::
  "('i \<Rightarrow> 's \<times> world \<Rightarrow> ('r \<times> 's \<times> world) res) \<Rightarrow> 'i list \<Rightarrow> 's \<times> world \<Rightarrow>
     ('r list \<times> 's \<times> world) res" where
  "feed_all feed [] (s, w) = Inr ([], s, w)"
| "feed_all feed (x # xs) (s, w) =
     bindR (feed x (s, w)) (\<lambda>(r, s1, w1).
       bindR (feed_all feed xs (s1, w1)) (\<lambda>(rs, s2, w2). Inr (r # rs, s2, w2)))"

locale message_source =
  fixes feed :: "'i \<Rightarrow> 's \<times> world \<Rightarrow> ('r \<times> 's \<times> world) res"
    and env :: rcore and i :: nat and good :: bool
  assumes feed_ok: "good \<Longrightarrow> wf_world env w \<Longrightarrow> connected_to w i \<Longrightarrow>
    \<exists>r s' w'. feed x (s, w) = Inr (r, s', w') \<and> wf_world env w' \<and> connected_to w' i"
begin

lemma feed_all_ok:
  "good \<Longrightarrow> wf_world env w \<Longrightarrow> connected_to w i \<Longrightarrow>
   \<exists>rs s' w'. feed_all feed xs (s, w) = Inr (rs, s', w') \<and> length rs = length xs \<and>
     wf_world env w' \<and> connected_to w' i"
proof (induction xs arbitrary: s w)
  case (Cons x xs)
  from feed_ok [OF Cons.prems, of x s] obtain r s1 w1 where
    r: "feed x (s, w) = Inr (r, s1, w1)" "wf_world env w1" "connected_to w1 i" by blast
  from Cons.IH [OF Cons.prems(1) r(2,3), of s1] r(1) show ?case by auto
qed simp

text \<open>Readings may be grouped in any way.\<close>

lemma feed_all_append:
  "feed_all feed (xs @ ys) (s, w) =
     bindR (feed_all feed xs (s, w)) (\<lambda>(rs, s1, w1).
       bindR (feed_all feed ys (s1, w1)) (\<lambda>(rs', s2, w2). Inr (rs @ rs', s2, w2)))"
proof (induction xs arbitrary: s w)
  case Nil
  show ?case by (cases "feed_all feed ys (s, w)") auto
next
  case (Cons x xs)
  show ?case by (cases "feed x (s, w)") (auto simp: Cons bindR_assoc split_beta)
qed

end

end
