(* ===== verification/Console.thy ===== *)
theory Console
  imports LiteComm
begin

text \<open>
  \<^verbatim>\<open>RSupport/src/ConsoleAdapter.cpp\<close> and its header: an adapter whose messages are lines of text,
  \<^verbatim>\<open>!:\<close> followed by base64, written to the standard output or to callbacks and read from the
  standard input.

  The Boost iterators that encode and decode base64 are the arguments \<open>enc\<close> and \<open>dec\<close> (\<open>None\<close>
  for the exception); the RComm library's parser is the argument \<open>parse\<close>, which gives the
  entries that parsing some bytes finishes, from the bytes parsed before.  Each of them is handed
  to the message handler of theory \<open>LiteComm\<close>.
\<close>

section \<open>State\<close>

datatype Mode = STDOUT | CALLBACK | MIXED

fun Mode_int :: "Mode \<Rightarrow> 32 word" where
  "Mode_int STDOUT = 1"
| "Mode_int CALLBACK = 2"
| "Mode_int MIXED = 3"

definition mode_has :: "Mode \<Rightarrow> Mode \<Rightarrow> bool" where
  "mode_has m flag \<longleftrightarrow> Mode_int m AND Mode_int flag \<noteq> 0"

record console =
  m_callbacks :: "nat list"
  m_mode :: Mode
  m_readTimeout :: int
  c_stdout :: string                    \<comment> \<open>what was written to \<open>cout\<close>\<close>
  c_calls :: "(nat \<times> string) list"     \<comment> \<open>the calls of the callbacks\<close>
  c_parsed :: "bytes list"              \<comment> \<open>what the RComm handle has parsed\<close>

definition console_init :: console where
  "console_init = \<lparr>m_callbacks = [], m_mode = STDOUT, m_readTimeout = 0, c_stdout = '''',
     c_calls = [], c_parsed = []\<rparr>"

definition addCallback :: "console \<Rightarrow> nat \<Rightarrow> console" where
  "addCallback c cb = c\<lparr>m_callbacks := m_callbacks c @ [cb]\<rparr>"

definition setMode :: "console \<Rightarrow> Mode \<Rightarrow> console" where
  "setMode c mode = c\<lparr>m_mode := mode\<rparr>"

section \<open>Writing\<close>

abbreviation newline :: char where
  "newline \<equiv> CHR 0x0A"

text \<open>\<^verbatim>\<open>while(writePaddChars >= 0) { append "="; writePaddChars--; }\<close>.\<close>

function pad_loop :: "int \<Rightarrow> string \<Rightarrow> string \<times> int" where
  "pad_loop n s = (if 0 \<le> n then pad_loop (n - 1) (s @ ''='') else (s, n))"
  by pat_completeness auto
termination
  by (relation "measure (\<lambda>(n, s). nat (n + 1))") auto

declare pad_loop.simps [simp del]

definition writePaddChars :: "nat \<Rightarrow> int" where
  "writePaddChars bytes = int ((3 - bytes mod 3) mod 3 + 1)"

text \<open>The callback that transmits the bytes of a message.\<close>

definition console_transmit ::
  "rcore \<Rightarrow> (bytes \<Rightarrow> string) \<Rightarrow> console \<Rightarrow> bytes \<Rightarrow> (rcore_event \<times> console) res" where
  "console_transmit env enc c data =
     (if \<not> NDEBUG env \<and> data = [] then Inl AssertFailed
      else
        let pad = writePaddChars (length data);
            (c1, pad1) =
              (if mode_has (m_mode c) STDOUT
               then (case pad_loop pad (''!:'' @ enc data) of
                       (s, pad1) \<Rightarrow> (c\<lparr>c_stdout := c_stdout c @ s @ [newline]\<rparr>, pad1))
               else (c, pad));
            c2 =
              (if mode_has (m_mode c) CALLBACK
               then (case pad_loop pad1 (''!:'' @ enc data) of
                       (s, _) \<Rightarrow> c1\<lparr>c_calls := c_calls c1 @
                         map (\<lambda>cb. (cb, s @ [newline])) (m_callbacks c1)\<rparr>)
               else c1)
        in Inr (LRT_RCORE_OK, c2))"

text \<open>
  The constructor: the base class with its name and number left at their defaults, and the
  members. \<open>registry\<close> says whether the pointer to the registry is not null.
\<close>

definition ConsoleAdapter_new :: "rcore \<Rightarrow> Reliability \<Rightarrow> bool \<Rightarrow> bool \<Rightarrow> adapter \<times> console" where
  "ConsoleAdapter_new env rel0 registry subscribedToAll =
     (adapter_init env rel0 registry subscribedToAll ''Unnamed Adapter'' 0, console_init)"

text \<open>
  \<^verbatim>\<open>send\<close>: the library's \<^verbatim>\<open>rcomm_send_tb_entry\<close>, which gets the callback that transmits, and the
  callback for an accepted message, which hands it to the transmit buffer by the library's
  \<^verbatim>\<open>rcomm_transfer_message_to_tb\<close>.
\<close>

definition console_send ::
  "((bytes \<Rightarrow> console \<Rightarrow> (rcore_event \<times> console) res) \<Rightarrow> tb_entry option \<Rightarrow> console \<Rightarrow>
      (rcore_event \<times> console) res) \<Rightarrow>
     rcore \<Rightarrow> (bytes \<Rightarrow> string) \<Rightarrow> console \<Rightarrow> tb_entry option \<Rightarrow> Reliability \<Rightarrow>
     (rcore_event \<times> console) res" where
  "console_send rcomm_send_tb_entry env enc c entry reliability =
     rcomm_send_tb_entry (\<lambda>data c. console_transmit env enc c data) entry c"

definition console_accept :: "('m \<Rightarrow> 's \<Rightarrow> rcore_event \<times> 's) \<Rightarrow> 'm \<Rightarrow> 's \<Rightarrow> rcore_event \<times> 's" where
  "console_accept rcomm_transfer_message_to_tb message s = rcomm_transfer_message_to_tb message s"

section \<open>Reading\<close>

definition calculateCorrectDataLength :: "nat \<Rightarrow> nat" where
  "calculateCorrectDataLength len = (len div 8) * 8 + 1"

text \<open>\<^verbatim>\<open>line[0] == '!' && line[1] == ':'\<close> for a line longer than two characters.\<close>

definition is_message_line :: "string \<Rightarrow> bool" where
  "is_message_line line \<longleftrightarrow> 2 < length line \<and> line ! 0 = CHR ''!'' \<and> line ! 1 = CHR '':''"

text \<open>\<^verbatim>\<open>substr(0, find('\n'))\<close>, then every \<^verbatim>\<open>=\<close> replaced by \<^verbatim>\<open>A\<close>.\<close>

definition base64_digits :: "string \<Rightarrow> string" where
  "base64_digits s =
     map (\<lambda>ch. if ch = CHR ''='' then CHR ''A'' else ch) (takeWhile (\<lambda>ch. ch \<noteq> newline) s)"

definition extractBinaryStreamFromLine :: "(string \<Rightarrow> bytes option) \<Rightarrow> string \<Rightarrow> bytes option" where
  "extractBinaryStreamFromLine dec line =
     (if is_message_line line then dec (base64_digits (drop 2 line)) else Some [])"

text \<open>
  \<^verbatim>\<open>binary[i]\<close> of a \<^verbatim>\<open>std::string\<close>: at its length it is the terminating zero, past it undefined.
\<close>

definition string_at :: "bytes \<Rightarrow> nat \<Rightarrow> 8 word res" where
  "string_at s i = vec_at (s @ [0]) i"

definition byte_bits :: "8 word \<Rightarrow> string" where
  "byte_bits b = map (\<lambda>n. if bit b n then CHR ''1'' else CHR ''0'') (rev [0..<8])"

fun bits_loop :: "bytes \<Rightarrow> nat list \<Rightarrow> string res" where
  "bits_loop s [] = Inr ''''"
| "bits_loop s (i # is) =
     bindR (string_at s i) (\<lambda>b. bindR (bits_loop s is) (\<lambda>r. Inr (byte_bits b @ '' '' @ r)))"

definition binaryStreamToBitRepresentation :: "bytes \<Rightarrow> string res" where
  "binaryStreamToBitRepresentation s =
     bits_loop s [0..<calculateCorrectDataLength (length s)]"

text \<open>
  The bytes handed to the parser: \<^verbatim>\<open>binaryStr.data()\<close> with the corrected length, which may
  include the string's terminating zero.
\<close>

definition parsed_bytes :: "bytes \<Rightarrow> bytes" where
  "parsed_bytes s = take (calculateCorrectDataLength (length s)) (s @ [0])"

type_synonym parser = "bytes list \<Rightarrow> bytes \<Rightarrow> tb_entry list \<times> rcore_event"

definition LRT_RCORE_GENERIC_ACCEPTOR_ERROR :: rcore_event where
  "LRT_RCORE_GENERIC_ACCEPTOR_ERROR = LRT_RCORE_OTHER 1"

text \<open>\<^verbatim>\<open>parseBase64\<close> of the adapter \<open>i\<close> of the world.\<close>

definition parseBase64 ::
  "rcore \<Rightarrow> (string \<Rightarrow> bytes option) \<Rightarrow> parser \<Rightarrow> int \<Rightarrow> nat \<Rightarrow> string \<Rightarrow> console \<times> world \<Rightarrow>
     (rcore_event \<times> console \<times> world) res" where
  "parseBase64 env dec parse now i base64 cw =
     (case cw of (c, w) \<Rightarrow>
       (case dec (base64_digits base64) of
          None \<Rightarrow> Inr (LRT_RCORE_GENERIC_ACCEPTOR_ERROR, c, w)
        | Some s \<Rightarrow>
            (case parse (c_parsed c) (parsed_bytes s) of (es, ev) \<Rightarrow>
              bindR (on_finished_all env now w i es) (\<lambda>w1.
                Inr (ev, c\<lparr>c_parsed := c_parsed c @ [parsed_bytes s]\<rparr>, w1)))))"

definition parseLine ::
  "rcore \<Rightarrow> (string \<Rightarrow> bytes option) \<Rightarrow> parser \<Rightarrow> int \<Rightarrow> nat \<Rightarrow> string \<Rightarrow> console \<times> world \<Rightarrow>
     (rcore_event \<times> console \<times> world) res" where
  "parseLine env dec parse now i line cw =
     (if is_message_line line then parseBase64 env dec parse now i (drop 2 line) cw
      else Inr (LRT_RCORE_OK, cw))"

text \<open>
  \<^verbatim>\<open>read\<close>; the standard input is the list of its remaining lines, and at its end
  \<^verbatim>\<open>std::getline\<close> leaves the line empty.
\<close>

definition console_read ::
  "rcore \<Rightarrow> (string \<Rightarrow> bytes option) \<Rightarrow> parser \<Rightarrow> int \<Rightarrow> nat \<Rightarrow> console \<times> world \<times> string list \<Rightarrow>
     (rcore_event \<times> console \<times> world \<times> string list) res" where
  "console_read env dec parse now i s =
     (case s of (c, w, input) \<Rightarrow>
       if m_readTimeout c < 10
       then Inr (LRT_RCORE_OK, c\<lparr>m_readTimeout := m_readTimeout c + 1\<rparr>, w, input)
       else bindR (parseLine env dec parse now i (case input of [] \<Rightarrow> '''' | l # ls \<Rightarrow> l) (c, w))
              (\<lambda>(ev, c1, w1). Inr (ev, c1, w1, tl input)))"

section \<open>Reading is safe\<close>

text \<open>A parser whose messages are ones that the handler is safe for.\<close>

definition safe_parser :: "rcore \<Rightarrow> parser \<Rightarrow> bool" where
  "safe_parser env parse \<longleftrightarrow> (\<forall>old new. list_all (safe_entry env) (fst (parse old new)))"

interpretation lines: message_source "\<lambda>(now, line). parseLine env dec parse now i line" env i
  "safe_parser env parse"
proof unfold_locales
  fix w and x :: "int \<times> string" and c :: console
  assume good: "safe_parser env parse" and w: "wf_world env w" "connected_to w i"
  obtain now line where x: "x = (now, line)" by (cases x)
  from w(2) obtain a where a: "w_heap w i = Some a" "m_registry a" by (auto simp: connected_to_def)
  have "\<exists>w'. on_finished_all env now w i (fst (parse old new)) = Inr w' \<and> wf_world env w' \<and>
      connected_to w' i" for old new
    using on_finished_all_ok [OF w(1) a, of "fst (parse old new)" now] good
    unfolding safe_parser_def connected_to_def by blast
  then obtain f where f: "\<And>old new. on_finished_all env now w i (fst (parse old new)) =
      Inr (f old new) \<and> wf_world env (f old new) \<and> connected_to (f old new) i" by metis
  show "\<exists>r s' w'. (case x of (now, line) \<Rightarrow> parseLine env dec parse now i line) (c, w) =
      Inr (r, s', w') \<and> wf_world env w' \<and> connected_to w' i"
    using w f by (simp add: x parseLine_def parseBase64_def split_beta split: option.split)
qed

text \<open>
  What a line gives to the parser: nothing if it is no message or its digits are not base64.
  The entries that lines finish, from what the parser had parsed before them.
\<close>

definition line_data :: "(string \<Rightarrow> bytes option) \<Rightarrow> string \<Rightarrow> bytes option" where
  "line_data dec line =
     (if is_message_line line then map_option parsed_bytes (dec (base64_digits (drop 2 line)))
      else None)"

fun received_entries ::
  "(string \<Rightarrow> bytes option) \<Rightarrow> parser \<Rightarrow> bytes list \<Rightarrow> string list \<Rightarrow> tb_entry list" where
  "received_entries dec parse old [] = []"
| "received_entries dec parse old (line # lines) =
     (case line_data dec line of
        None \<Rightarrow> received_entries dec parse old lines
      | Some d \<Rightarrow> fst (parse old d) @ received_entries dec parse (old @ [d]) lines)"

lemma parseLine_eq:
  "\<exists>ev. parseLine env dec parse now i line (c, w) =
     (case line_data dec line of
        None \<Rightarrow> Inr (ev, c, w)
      | Some d \<Rightarrow> bindR (on_finished_all env now w i (fst (parse (c_parsed c) d))) (\<lambda>w1.
          Inr (ev, c\<lparr>c_parsed := c_parsed c @ [d]\<rparr>, w1)))"
  by (auto simp: parseLine_def parseBase64_def line_data_def split_beta split: option.split)

lemma lines_answered:
  assumes "wf_world env w" and "connected_to w i"
    and "list_all (safe_entry env) (received_entries dec parse (c_parsed c) (map snd xs))"
  shows "\<exists>rs c' w'. feed_all (\<lambda>(now, line). parseLine env dec parse now i line) xs (c, w) =
      Inr (rs, c', w') \<and> length rs = length xs \<and> wf_world env w' \<and> connected_to w' i"
  using assms
proof (induction xs arbitrary: c w)
  case (Cons x xs)
  obtain now line where x: "x = (now, line)" by (cases x)
  from Cons.prems(2) obtain a where a: "w_heap w i = Some a" "m_registry a"
    by (auto simp: connected_to_def)
  obtain ev where ev: "parseLine env dec parse now i line (c, w) =
     (case line_data dec line of
        None \<Rightarrow> Inr (ev, c, w)
      | Some d \<Rightarrow> bindR (on_finished_all env now w i (fst (parse (c_parsed c) d))) (\<lambda>w1.
          Inr (ev, c\<lparr>c_parsed := c_parsed c @ [d]\<rparr>, w1)))"
    using parseLine_eq by blast
  show ?case
  proof (cases "line_data dec line")
    case None
    with Cons.IH [OF Cons.prems(1,2), of c] Cons.prems(3) ev show ?thesis by (auto simp: x)
  next
    case (Some d)
    then have "list_all (safe_entry env) (fst (parse (c_parsed c) d))"
      using Cons.prems(3) by (simp add: x)
    from on_finished_all_ok [OF Cons.prems(1) a this, of now] obtain w1 where
      w1: "on_finished_all env now w i (fst (parse (c_parsed c) d)) = Inr w1" "wf_world env w1"
        "connected_to w1 i" by (auto simp: connected_to_def)
    with Cons.IH [OF w1(2,3), of "c\<lparr>c_parsed := c_parsed c @ [d]\<rparr>"] Cons.prems(3) ev Some
    show ?thesis by (auto simp: x)
  qed
qed simp

lemma lines_answered_iff:
  assumes "wf_world env w" and "w_heap w i = Some a" and "m_registry a"
    and "m_dropperPolicy a = BasePolicy"
  shows "is_ok (feed_all (\<lambda>(now, line). parseLine env dec parse now i line) xs (c, w)) \<longleftrightarrow>
    list_all (defined_entry env (capturing w))
      (received_entries dec parse (c_parsed c) (map snd xs))"
  using assms
proof (induction xs arbitrary: c w a)
  case (Cons x xs)
  obtain now line where x: "x = (now, line)" by (cases x)
  obtain ev where ev: "parseLine env dec parse now i line (c, w) =
     (case line_data dec line of
        None \<Rightarrow> Inr (ev, c, w)
      | Some d \<Rightarrow> bindR (on_finished_all env now w i (fst (parse (c_parsed c) d))) (\<lambda>w1.
          Inr (ev, c\<lparr>c_parsed := c_parsed c @ [d]\<rparr>, w1)))"
    using parseLine_eq by blast
  have tail: "is_ok (bindR r (\<lambda>(rs, s, w). Inr (ev # rs, s, w))) = is_ok r"
    for r :: "(rcore_event list \<times> console \<times> world) res"
    by (cases r) auto
  show ?case
  proof (cases "line_data dec line")
    case None
    with Cons.IH [OF Cons.prems, of c] ev show ?thesis by (simp add: x tail)
  next
    case (Some d)
    let ?es = "fst (parse (c_parsed c) d)"
    note out = on_finished_all_outcome [OF Cons.prems, of ?es now]
    show ?thesis
    proof (cases "list_all (defined_entry env (capturing w)) ?es")
      case True
      with out obtain w1 a1 where w1: "on_finished_all env now w i ?es = Inr w1" "wf_world env w1"
        "w_heap w1 i = Some a1" "m_registry a1" "m_dropperPolicy a1 = BasePolicy"
        "capturing w1 = capturing w" by auto
      with Cons.IH [OF w1(2-5), of "c\<lparr>c_parsed := c_parsed c @ [d]\<rparr>"] ev Some True
      show ?thesis by (simp add: x tail)
    next
      case False
      with out obtain err where "on_finished_all env now w i ?es = Inl err" by auto
      with ev Some False show ?thesis by (simp add: x)
    qed
  qed
qed simp

text \<open>Property C26.  Reading lines on a connected console adapter, exactly. Lines that are no messages,
  and messages that are not base64, are answered whatever they hold. Lines are all answered,
  with the registry well-formed and the adapter connected, if every entry that the parser
  finishes from them is one the handler is safe for (\<open>safe_entry\<close>: outside the catalogue, or
  with enough bytes for its type, a message type that has a callback slot, and no string). For
  an adapter whose dropper drops nothing this is sharp: some line leaves defined behaviour
  exactly when some finished entry is not one the handler defines, and neither the console nor
  the handler rejects such an entry.\<close>

theorem console_lines_safe:
  assumes "wf_world env w" and "w_heap w i = Some a" and "m_registry a"
  shows "(list_all (safe_entry env) (received_entries dec parse (c_parsed c) (map snd xs)) \<longrightarrow>
     (\<exists>rs c' w'. feed_all (\<lambda>(now, line). parseLine env dec parse now i line) xs (c, w) =
        Inr (rs, c', w') \<and> length rs = length xs \<and> wf_world env w' \<and> connected_to w' i)) \<and>
    (m_dropperPolicy a = BasePolicy \<longrightarrow>
     (is_ok (feed_all (\<lambda>(now, line). parseLine env dec parse now i line) xs (c, w)) \<longleftrightarrow>
      list_all (defined_entry env (capturing w))
        (received_entries dec parse (c_parsed c) (map snd xs))))"
proof -
  have "connected_to w i" using assms(2,3) by (simp add: connected_to_def)
  with lines_answered [OF assms(1)] lines_answered_iff [OF assms] show ?thesis by blast
qed

text \<open>A parser that finishes one entry with each call.\<close>

definition one_entry :: "tb_entry \<Rightarrow> parser" where
  "one_entry e = (\<lambda>old new. ([e], LRT_RCORE_OK))"

lemma one_entry_received:
  "received_entries (\<lambda>_. Some [2, 1]) (one_entry e) [] (map snd [(3 :: int, ''!:AA''), (4, ''x'')]) = [e]"
  by (simp add: line_data_def is_message_line_def one_entry_def)

theorem console_lines_safe_witness:
  "(\<exists>rs c' w'. feed_all (\<lambda>(now, line). parseLine example_rcore (\<lambda>_. Some [2, 1])
      (one_entry example_entry) now 1 line) [(3, ''!:AA''), (4, ''x'')]
      (console_init, example_world) = Inr (rs, c', w') \<and>
    length rs = length [(3, ''!:AA''), (4 :: int, ''x'')] \<and> wf_world example_rcore w' \<and>
    connected_to w' 1) \<and>
   \<not> is_ok (feed_all (\<lambda>(now, line). parseLine example_rcore (\<lambda>_. Some [2, 1])
      (one_entry (example_entry\<lparr>e_data := Some [2]\<rparr>)) now 1 line) [(3, ''!:AA''), (4, ''x'')]
      (console_init, example_world))"
proof -
  let ?short = "example_entry\<lparr>e_data := Some [2]\<rparr>"
  have "Type_of (Suc 0) = Some Int16" by (simp add: Type_of_Some_iff)
  then have "\<not> defined_entry example_rcore (capturing example_world) ?short"
    by (simp add: defined_entry_def example_entry_def example_rcore_def switch_defined_def
        enough_data_def)
  moreover have "c_parsed console_init = []" "m_dropperPolicy example_adapter = BasePolicy"
    by (simp_all add: console_init_def example_adapter_def adapter_init_def)
  moreover note safe = console_lines_safe [OF wf_example_world example_heap, of "\<lambda>_. Some [2, 1]"
      "one_entry example_entry" console_init "[(3, ''!:AA''), (4, ''x'')]"]
  moreover note console_lines_safe [OF wf_example_world example_heap, of "\<lambda>_. Some [2, 1]"
      "one_entry ?short" console_init "[(3, ''!:AA''), (4, ''x'')]"]
  ultimately show ?thesis
    using safe_example_entry by (simp only: one_entry_received list.pred_inject simp_thms)
qed

section \<open>Framing\<close>

lemma pad_loop_eq:
  "pad_loop n s = (s @ replicate (nat (n + 1)) CHR ''='', if 0 \<le> n then - 1 else n)"
proof (induction n s rule: pad_loop.induct)
  case (1 n s)
  show ?case
  proof (cases "0 \<le> n")
    case True
    then have "nat (n + 1) = Suc (nat n)" by simp
    with True 1 show ?thesis by (subst pad_loop.simps) (auto simp: replicate_app_Cons_same)
  qed (subst pad_loop.simps, simp)
qed

lemma mode_has_simps [simp]:
  "mode_has STDOUT STDOUT" "mode_has MIXED STDOUT" "\<not> mode_has CALLBACK STDOUT"
  "mode_has CALLBACK CALLBACK" "mode_has MIXED CALLBACK" "\<not> mode_has STDOUT CALLBACK"
  by (simp_all add: mode_has_def)

lemma calculateCorrectDataLength_le: "calculateCorrectDataLength n \<le> Suc n"
  by (simp add: calculateCorrectDataLength_def)

lemma bits_loop_ok: "\<forall>i \<in> set is. i \<le> length s \<Longrightarrow> is_ok (bits_loop s is)"
  by (induction "is") (auto simp: string_at_def is_ok_iff)

text \<open>The bit representation never reads past the terminating zero.\<close>

lemma binaryStreamToBitRepresentation_ok: "is_ok (binaryStreamToBitRepresentation s)"
  unfolding binaryStreamToBitRepresentation_def using calculateCorrectDataLength_le [of "length s"]
  by (intro bits_loop_ok) auto

text \<open>
  What the code relies on of the base64 iterators for some data: the number of digits, no
  padding or newline among them, and a decoder that gives the data back from the digits
  followed by up to four \<^verbatim>\<open>A\<close>, with as many bytes more as those digits hold bits for.
\<close>

definition decodes_at :: "(bytes \<Rightarrow> string) \<Rightarrow> (string \<Rightarrow> bytes option) \<Rightarrow> bytes \<Rightarrow> nat \<Rightarrow> bool" where
  "decodes_at enc dec data p \<longleftrightarrow>
     (case dec (enc data @ replicate p CHR ''A'') of
        None \<Rightarrow> False
      | Some s \<Rightarrow> take (length data) s = data \<and> length data \<le> length s \<and>
          8 * length s \<le> 6 * (length (enc data) + p) + 7)"

definition base64_on :: "(bytes \<Rightarrow> string) \<Rightarrow> (string \<Rightarrow> bytes option) \<Rightarrow> bytes \<Rightarrow> bool" where
  "base64_on enc dec data \<longleftrightarrow>
     length (enc data) = (4 * length data + 2) div 3 \<and>
     list_all (\<lambda>ch. ch \<noteq> CHR ''='' \<and> ch \<noteq> newline) (enc data) \<and>
     list_all (decodes_at enc dec data) [0..<5]"

text \<open>A line from which the receiver gets the data.\<close>

definition receives :: "(string \<Rightarrow> bytes option) \<Rightarrow> string \<Rightarrow> bytes \<Rightarrow> bool" where
  "receives dec line data \<longleftrightarrow> is_message_line line \<and>
     (\<exists>s. dec (base64_digits (drop 2 line)) = Some s \<and> parsed_bytes s = data)"

lemma base64_digits_newline: "base64_digits (s @ [newline]) = base64_digits s"
  by (simp add: base64_digits_def takeWhile_tail)

lemma base64_digits_framed:
  assumes "list_all (\<lambda>ch. ch \<noteq> CHR ''='' \<and> ch \<noteq> newline) ds"
  shows "base64_digits (ds @ replicate p CHR ''='' @ [newline]) = ds @ replicate p CHR ''A''"
proof -
  have "\<forall>ch \<in> set ds. ch \<noteq> newline" using assms by (simp add: list_all_iff)
  moreover have "\<forall>ch \<in> set (replicate p CHR ''=''). ch \<noteq> newline" by simp
  ultimately have "\<And>ch. ch \<in> set (ds @ replicate p CHR ''='') \<Longrightarrow> ch \<noteq> newline"
    unfolding set_append by blast
  then have "takeWhile (\<lambda>ch. ch \<noteq> newline) ((ds @ replicate p CHR ''='') @ [newline]) =
      (ds @ replicate p CHR ''='') @ takeWhile (\<lambda>ch. ch \<noteq> newline) [newline]"
    by (rule takeWhile_append2)
  then have "takeWhile (\<lambda>ch. ch \<noteq> newline) (ds @ replicate p CHR ''='' @ [newline]) =
      ds @ replicate p CHR ''=''"
    by (simp only: append_assoc takeWhile.simps simp_thms if_False append_Nil2)
  moreover have "map (\<lambda>ch. if ch = CHR ''='' then CHR ''A'' else ch) ds = ds"
    using assms by (induction ds) simp_all
  ultimately show ?thesis by (simp add: base64_digits_def)
qed

lemma framed_line_received:
  assumes "base64_on enc dec data" and "length data = 8 * k + 1" and "p < 5"
  shows "receives dec (''!:'' @ enc data @ replicate p CHR ''='' @ [newline]) data"
proof -
  have "p \<in> set [0..<5]" using assms(3) by (simp del: upt_rec_numeral)
  with assms(1) have "decodes_at enc dec data p" unfolding base64_on_def list_all_iff by blast
  then obtain s where s: "dec (enc data @ replicate p CHR ''A'') = Some s"
    "take (length data) s = data" "length data \<le> length s"
    "8 * length s \<le> 6 * (length (enc data) + p) + 7"
    unfolding decodes_at_def by (cases "dec (enc data @ replicate p CHR ''A'')") auto
  have e: "length (enc data) = (4 * (8 * k + 1) + 2) div 3"
    using assms(1,2) by (simp add: base64_on_def)
  have "3 * ((4 * (8 * k + 1) + 2) div 3) \<le> 4 * (8 * k + 1) + 2" by simp
  then have "3 * length (enc data) \<le> 32 * k + 6" unfolding e by simp
  with s(4) assms(3) have "8 * length s < 8 * (8 * k + 8)" by (simp add: distrib_left)
  then have "length s < 8 * k + 8" by simp
  moreover have "8 * k \<le> length s" using s(3) assms(2) by linarith
  ultimately have "length s div 8 = k" by (intro div_nat_eqI) simp_all
  then have c: "calculateCorrectDataLength (length s) = length data"
    using assms(2) by (simp add: calculateCorrectDataLength_def)
  have "parsed_bytes s = data" using s(2,3) by (simp add: parsed_bytes_def c)
  moreover have "base64_digits (drop 2 (''!:'' @ enc data @ replicate p CHR ''='' @ [newline])) =
      enc data @ replicate p CHR ''A''"
    using assms(1) by (simp add: base64_on_def base64_digits_framed numeral_2_eq_2)
  ultimately show ?thesis
    using s(1) e by (simp add: receives_def is_message_line_def)
qed

lemma receives_newline:
  assumes "receives dec (line @ [newline]) data" and "2 < length line"
  shows "receives dec line data"
proof -
  have "drop 2 (line @ [newline]) = drop 2 line @ [newline]" using assms(2) by simp
  then show ?thesis
    using assms by (cases line)
      (auto simp: receives_def base64_digits_newline is_message_line_def nth_append)
qed

lemma console_transmit_line:
  assumes "base64_on enc dec data" and "length data = 8 * k + 1" and "mode_has (m_mode c) STDOUT"
  shows "\<exists>c' line. console_transmit env enc c data = Inr (LRT_RCORE_OK, c') \<and>
    c_stdout c' = c_stdout c @ line @ [newline] \<and> receives dec line data"
proof -
  define p where "p = nat (writePaddChars (length data) + 1)"
  define line where "line = ''!:'' @ enc data @ replicate p CHR ''=''"
  have w: "0 \<le> writePaddChars (length data)" and p: "0 < p" "p < 5"
    by (auto simp: p_def writePaddChars_def)
  have d: "data \<noteq> []" using assms(2) by auto
  have "receives dec line data"
  proof (rule receives_newline)
    show "receives dec (line @ [newline]) data"
      using framed_line_received [OF assms(1,2) p(2)] by (simp only: line_def append_assoc)
    show "2 < length line" using p(1) by (simp add: line_def)
  qed
  moreover have "\<exists>c'. console_transmit env enc c data = Inr (LRT_RCORE_OK, c') \<and>
      c_stdout c' = c_stdout c @ line @ [newline]"
    using assms(3) d w
    by (cases "m_mode c") (simp_all add: console_transmit_def pad_loop_eq Let_def p_def line_def)
  ultimately show ?thesis by blast
qed

text \<open>Property C25.  A message survives the console: for the sizes that the RComm library uses, a
  multiple of eight and one, every line that transmitting it writes to the standard output or
  hands to a callback is a message line from which the receiver's parser gets exactly the
  message's bytes, in every mode, although the padding is never the one of base64.\<close>

theorem console_frame_roundtrip:
  assumes "base64_on enc dec data" and "length data = 8 * k + 1"
  shows "\<exists>c'. console_transmit env enc c data = Inr (LRT_RCORE_OK, c') \<and>
    (if mode_has (m_mode c) STDOUT
     then \<exists>line. c_stdout c' = c_stdout c @ line \<and> receives dec line data
     else c_stdout c' = c_stdout c) \<and>
    (if mode_has (m_mode c) CALLBACK
     then \<exists>line. c_calls c' = c_calls c @ map (\<lambda>cb. (cb, line)) (m_callbacks c) \<and>
       receives dec line data
     else c_calls c' = c_calls c)"
proof -
  define p where "p = nat (writePaddChars (length data) + 1)"
  have w: "0 \<le> writePaddChars (length data)" and p: "p < 5"
    by (auto simp: p_def writePaddChars_def)
  have d: "data \<noteq> []" using assms(2) by auto
  note framed = framed_line_received [OF assms(1,2) p]
    framed_line_received [OF assms(1,2), of 0, simplified]
  show ?thesis
  proof (cases "m_mode c")
    case STDOUT
    then show ?thesis
      using d w framed(1) by (auto simp: console_transmit_def pad_loop_eq Let_def p_def)
  next
    case CALLBACK
    then show ?thesis
      using d w framed(1) by (auto simp: console_transmit_def pad_loop_eq Let_def p_def)
  next
    case MIXED
    then show ?thesis
      using d w framed
      by (auto simp: console_transmit_def pad_loop_eq Let_def p_def)
  qed
qed

text \<open>A concrete base64, for the witness.\<close>

definition base64_alphabet :: string where
  "base64_alphabet = ''ABCDEFGHIJKLMNOPQRSTUVWXYZabcdefghijklmnopqrstuvwxyz0123456789+/''"

definition groups :: "nat \<Rightarrow> bool list \<Rightarrow> bool list list" where
  "groups n bs = map (\<lambda>i. take n (drop (i * n) bs)) [0..<length bs div n]"

definition number :: "bool list \<Rightarrow> nat" where
  "number bs = foldl (\<lambda>a b. 2 * a + (if b then 1 else 0)) 0 bs"

definition digits :: "nat \<Rightarrow> nat \<Rightarrow> bool list" where
  "digits n x = map (\<lambda>i. odd (x div 2 ^ i)) (rev [0..<n])"

definition example_enc :: "bytes \<Rightarrow> string" where
  "example_enc s = map (\<lambda>g. base64_alphabet ! number g)
     (groups 6 (concat (map (digits 8 \<circ> unat) s) @
        replicate ((6 - (8 * length s) mod 6) mod 6) False))"

definition example_dec :: "string \<Rightarrow> bytes option" where
  "example_dec s = Some (map (word_of_nat \<circ> number)
     (groups 8 (concat (map (\<lambda>ch. digits 6 (length (takeWhile (\<lambda>x. x \<noteq> ch) base64_alphabet))) s))))"

text \<open>The digits of a group of bits, and back.\<close>

lemma number_Cons: "number (b # bs) = of_bool b * 2 ^ length bs + number bs"
proof -
  have "foldl (\<lambda>a b. 2 * a + (if b then 1 else 0)) a bs = a * 2 ^ length bs + number bs" for a :: nat
  proof (induction bs arbitrary: a)
    case (Cons c bs)
    from Cons [of "2 * a + (if c then 1 else 0)"] Cons [of "if c then 1 else 0"] show ?case
      by (simp add: number_def algebra_simps)
  qed (simp add: number_def)
  from this [of "of_bool b"] show ?thesis by (cases b) (simp_all add: number_def)
qed

lemma digits_Suc: "digits (Suc n) x = odd (x div 2 ^ n) # digits n x"
  by (simp add: digits_def)

lemma length_digits [simp]: "length (digits n x) = n"
  by (simp add: digits_def)

lemma number_digits: "number (digits n x) = x mod 2 ^ n"
proof (induction n)
  case (Suc n)
  have "x mod 2 ^ Suc n = 2 ^ n * (x div 2 ^ n mod 2) + x mod 2 ^ n"
    using mod_mult2_eq [of x "2 ^ n" 2] by (simp add: mult.commute)
  with Suc show ?case by (simp add: digits_Suc number_Cons odd_iff_mod_2_eq_one of_bool_def)
qed (simp add: digits_def number_def)

lemma groups_append:
  assumes "length x = n" and "0 < n"
  shows "groups n (x @ y) = x # groups n y"
proof -
  have "length (x @ y) div n = Suc (length y div n)" using assms by (simp add: div_add_self1)
  then have "groups n (x @ y) = map (\<lambda>i. take n (drop (i * n) (x @ y))) (0 # map Suc [0..<length y div n])"
    by (simp only: groups_def upt_conv_Cons map_Suc_upt zero_less_Suc)
  then show ?thesis using assms(1) by (simp add: groups_def comp_def)
qed

lemma groups_concat:
  assumes "\<forall>x \<in> set xs. length x = n" and "0 < n"
  shows "groups n (concat xs @ y) = xs @ groups n y"
  using assms(1) by (induction xs) (simp_all add: groups_append [OF _ assms(2)])

lemma concat_groups:
  assumes "n dvd length bs" and "0 < n"
  shows "concat (groups n bs) = bs \<and> (\<forall>g \<in> set (groups n bs). length g = n)"
proof -
  obtain k where "length bs = n * k" using assms(1) ..
  then show ?thesis
  proof (induction k arbitrary: bs)
    case (Suc k)
    then have "n \<le> length bs" and drop: "length (drop n bs) = n * k" by simp_all
    have "groups n bs = take n bs # groups n (drop n bs)"
      using groups_append [of "take n bs" n "drop n bs"] assms(2) \<open>n \<le> length bs\<close> by simp
    moreover have "length (take n bs) = n" using \<open>n \<le> length bs\<close> by simp
    ultimately show ?case
      using Suc.IH [OF drop] by (simp only: concat.simps append_take_drop_id list.set ball_simps simp_thms) blast
  qed (simp add: groups_def)
qed

text \<open>What a digit stands for.\<close>

definition digit_bits :: "char \<Rightarrow> bool list" where
  "digit_bits ch = digits 6 (length (takeWhile (\<lambda>x. x \<noteq> ch) base64_alphabet))"

lemma base64_alphabet_ok:
  "distinct base64_alphabet" "length base64_alphabet = 64" "CHR ''='' \<notin> set base64_alphabet"
  "newline \<notin> set base64_alphabet"
  by code_simp+

lemma digit_bits_nth: "i < 64 \<Longrightarrow> digit_bits (base64_alphabet ! i) = digits 6 i"
proof -
  assume i: "i < 64"
  then have "takeWhile (\<lambda>x. x \<noteq> base64_alphabet ! i) base64_alphabet = take i base64_alphabet"
    using base64_alphabet_ok(1,2)
    by (intro takeWhile_eq_take_P_nth) (auto simp: nth_eq_iff_index_eq)
  with i base64_alphabet_ok(2) show ?thesis by (simp add: digit_bits_def)
qed

lemma number_less: "number bs < 2 ^ length bs"
  by (induction bs) (auto simp: number_Cons, simp add: number_def)

lemma digits_mod: "digits n (x mod 2 ^ n) = digits n x"
  by (simp add: digits_def bit_iff_odd [symmetric] take_bit_eq_mod [symmetric] bit_take_bit_iff)

lemma digits_number: "digits (length bs) (number bs) = bs"
proof (induction bs)
  case (Cons b bs)
  have "digits (length bs) (number (b # bs)) = digits (length bs) (number bs)"
    using digits_mod [of "length bs" "number (b # bs)"] number_less [of bs] by (simp add: number_Cons)
  with Cons number_less [of bs] show ?case by (simp add: digits_Suc number_Cons)
qed (simp add: digits_def)

lemma digit_bits_number: "length g = 6 \<Longrightarrow> digit_bits (base64_alphabet ! number g) = g"
  using digit_bits_nth [of "number g"] number_less [of g] digits_number [of g] by simp

lemma word_mod8: "word_of_nat (unat b mod 256) = (b :: 8 word)"
  using unsigned_less [of b, where 'a = nat] by simp

lemma example_dec_bits:
  "example_dec s = Some (map (word_of_nat \<circ> number) (groups 8 (concat (map digit_bits s))))"
  by (simp add: example_dec_def digit_bits_def [abs_def])

lemma length_groups [simp]: "length (groups n bs) = length bs div n"
  by (simp add: groups_def)

text \<open>The example encoding is one on which the frames rely, for data without a rest.\<close>

lemma example_base64_on:
  assumes "length data mod 3 = 0"
  shows "base64_on example_enc example_dec data"
proof -
  let ?bits = "concat (map (digits 8 \<circ> unat) data)"
  let ?gs = "groups 6 ?bits"
  have len: "length ?bits = 8 * length data" by (induction data) simp_all
  have len8: "8 * length data mod 6 = 0" using assms by presburger
  then have dvd: "6 dvd length ?bits" unfolding len by presburger
  then have gs: "concat ?gs = ?bits" "\<forall>g \<in> set ?gs. length g = 6"
    using concat_groups [of 6 ?bits] by simp_all
  have enc: "example_enc data = map (\<lambda>g. base64_alphabet ! number g) ?gs"
    using assms by (simp add: example_enc_def len8)
  have digit: "base64_alphabet ! number g \<in> set base64_alphabet" if "length g = 6" for g
    using that number_less [of g] base64_alphabet_ok(2) by simp
  have "number g < 64" if "g \<in> set ?gs" for g
    using that gs(2) number_less [of g] by simp
  have "map digit_bits (example_enc data) = ?gs"
    using gs(2) unfolding enc by (simp add: comp_def digit_bits_number cong: map_cong)
  moreover have "digit_bits CHR ''A'' = replicate 6 False" by code_simp
  ultimately have bits: "concat (map digit_bits (example_enc data @ replicate p CHR ''A'')) =
      ?bits @ concat (replicate p (replicate 6 False))" for p
    using gs(1) by simp
  have "\<forall>x \<in> set (map (digits 8 \<circ> unat) data). length x = 8" by auto
  from groups_concat [OF this] have dec: "example_dec (example_enc data @ replicate p CHR ''A'') =
      Some (data @ map (word_of_nat \<circ> number) (groups 8 (concat (replicate p (replicate 6 False)))))" for p
    unfolding example_dec_bits bits
    by (simp add: comp_def number_digits word_mod8)
  have l: "length (example_enc data) = (4 * length data + 2) div 3" "6 * length (example_enc data) = 8 * length data"
    using assms unfolding enc length_map length_groups len by presburger+
  have sub: "ch \<in> set base64_alphabet" if "ch \<in> set (example_enc data)" for ch
    using that digit gs(2) unfolding enc set_map by blast
  have "list_all (\<lambda>ch. ch \<noteq> CHR ''='' \<and> ch \<noteq> newline) (example_enc data)"
    unfolding list_all_iff using sub base64_alphabet_ok(3,4) by metis
  moreover have "decodes_at example_enc example_dec data p" for p
  proof -
    have "length (concat (replicate p (replicate 6 False))) = 6 * p"
      by (simp add: length_concat sum_list_replicate)
    moreover have "8 * (6 * p div 8) \<le> 6 * p" by simp
    then have "8 * (length data + 6 * p div 8) \<le> 6 * (length (example_enc data) + p) + 7"
      unfolding add_mult_distrib2 l(2) by linarith
    ultimately show ?thesis by (simp add: decodes_at_def dec)
  qed
  ultimately show ?thesis using l(1) by (simp add: base64_on_def list_all_iff)
qed

definition example_message :: bytes where
  "example_message = [1, 2, 0, 255, 16, 7, 200, 33, 90]"

lemma example_base64: "base64_on example_enc example_dec example_message"
  by (rule example_base64_on) (simp add: example_message_def)

theorem console_frame_roundtrip_witness:
  "\<exists>c'. console_transmit example_rcore example_enc
      (addCallback (setMode console_init MIXED) 4) example_message = Inr (LRT_RCORE_OK, c') \<and>
    (if mode_has (m_mode (addCallback (setMode console_init MIXED) 4)) STDOUT
     then \<exists>line. c_stdout c' = c_stdout (addCallback (setMode console_init MIXED) 4) @ line \<and>
       receives example_dec line example_message
     else c_stdout c' = c_stdout (addCallback (setMode console_init MIXED) 4)) \<and>
    (if mode_has (m_mode (addCallback (setMode console_init MIXED) 4)) CALLBACK
     then \<exists>line. c_calls c' = c_calls (addCallback (setMode console_init MIXED) 4) @
         map (\<lambda>cb. (cb, line)) (m_callbacks (addCallback (setMode console_init MIXED) 4)) \<and>
       receives example_dec line example_message
     else c_calls c' = c_calls (addCallback (setMode console_init MIXED) 4))"
  by (rule console_frame_roundtrip [OF example_base64, of 1]) (simp add: example_message_def)

end
