(* ===== verification/Pacing.thy ===== *)
theory Pacing
  imports Console
begin

text \<open>
  The loop of \<^verbatim>\<open>rsupport_handle_service\<close> in \<^verbatim>\<open>RSupport/src/RSupport.cpp\<close> that paces a program whose
  registry is connected to the console: it reads lines until one of them has brought an update.
  The loop may never end; theory \<open>Prelude\<close> gives it the value \<open>None\<close> then. The clock that the
  handler of theory \<open>LiteComm\<close> reads in the \<open>k\<close>-th round is \<open>clock k\<close>.
\<close>

section \<open>The loop\<close>

type_synonym console_state = "console \<times> world \<times> string list"

definition reset_update :: "world \<Rightarrow> nat \<Rightarrow> world" where
  "reset_update w i = change_adapter w i resetHadUpdate"

text \<open>\<^verbatim>\<open>resetHadUpdate(); read();\<close> and the \<^verbatim>\<open>hadUpdate()\<close> of the loop's condition.\<close>

definition pace_round ::
  "rcore \<Rightarrow> (string \<Rightarrow> bytes option) \<Rightarrow> parser \<Rightarrow> (nat \<Rightarrow> int) \<Rightarrow> nat \<Rightarrow> nat \<Rightarrow> console_state \<Rightarrow>
     (bool \<times> console_state) res" where
  "pace_round env dec parse clock i k s =
     (case s of (c, w, input) \<Rightarrow>
        if w_heap w i = None then Inl NullDeref
        else bindR (console_read env dec parse (clock k) i (c, reset_update w i, input))
          (\<lambda>(ev, c1, w1, input1). case w_heap w1 i of
             None \<Rightarrow> Inl NullDeref
           | Some a \<Rightarrow> Inr (hadUpdate a, c1, w1, input1)))"

definition pace ::
  "rcore \<Rightarrow> (string \<Rightarrow> bytes option) \<Rightarrow> parser \<Rightarrow> (nat \<Rightarrow> int) \<Rightarrow> nat \<Rightarrow> nat \<Rightarrow> console_state \<Rightarrow>
     console_state res option" where
  "pace env dec parse clock i k s = do_until (pace_round env dec parse clock i) k s"

lemma pace_rounds:
  "pace_round env dec parse clock i k s = Inr (False, s') \<Longrightarrow>
   pace env dec parse clock i k s = pace env dec parse clock i (Suc k) s'"
  "pace_round env dec parse clock i k s = Inr (True, s') \<Longrightarrow>
   pace env dec parse clock i k s = Some (Inr s')"
  by (simp_all add: pace_def do_until_rounds)

section \<open>Rounds without a message\<close>

lemma reset_update_frame [simp]:
  "w_heap (reset_update w i) i = map_option resetHadUpdate (w_heap w i)"
  "reset_update (reset_update w i) i = reset_update w i"
  by (simp_all add: reset_update_def change_adapter_def map_option.compositionality comp_def)
    (simp add: resetHadUpdate_def [abs_def])

text \<open>A line that is no message, and an empty input, which reads as an empty line.\<close>

lemma not_message_empty [simp]: "\<not> is_message_line ''''"
  by (simp add: is_message_line_def)

lemma pace_round_timeout:
  assumes "w_heap w i \<noteq> None" and "m_readTimeout c < 10"
  shows "pace_round env dec parse clock i k (c, w, input) =
    Inr (False, c\<lparr>m_readTimeout := m_readTimeout c + 1\<rparr>, reset_update w i, input)"
  using assms by (auto simp: pace_round_def console_read_def hadUpdate_def resetHadUpdate_def)

lemma pace_round_noise:
  assumes "w_heap w i \<noteq> None" and "\<not> m_readTimeout c < 10"
    and "input = [] \<or> \<not> is_message_line (hd input)"
  shows "pace_round env dec parse clock i k (c, w, input) =
    Inr (False, c, reset_update w i, tl input)"
  using assms
  by (cases input)
    (auto simp: pace_round_def console_read_def parseLine_def hadUpdate_def resetHadUpdate_def)

lemma pace_round_reset:
  "pace_round env dec parse clock i k (c, reset_update w i, input) =
   pace_round env dec parse clock i k (c, w, input)"
  by (simp add: pace_round_def)

lemma pace_reset: "pace env dec parse clock i k (c, reset_update w i, input) =
   pace env dec parse clock i k (c, w, input)"
  by (simp add: pace_def do_until.simps [of _ k] pace_round_reset)

text \<open>The loop passes the first ten rounds and every line that is no message.\<close>

lemma pace_waits:
  assumes "w_heap w i \<noteq> None" and "m_readTimeout c < 10"
  shows "pace env dec parse clock i k (c, w, input) =
    pace env dec parse clock i (k + nat (10 - m_readTimeout c))
      (c\<lparr>m_readTimeout := 10\<rparr>, w, input)"
  using assms
proof (induction "nat (10 - m_readTimeout c)" arbitrary: c k w)
  case (Suc n)
  let ?c = "c\<lparr>m_readTimeout := m_readTimeout c + 1\<rparr>"
  have step: "pace env dec parse clock i k (c, w, input) =
      pace env dec parse clock i (Suc k) (?c, w, input)"
    unfolding pace_reset [of env dec parse clock i "Suc k" ?c w input, symmetric]
    by (rule pace_rounds(1) [OF pace_round_timeout [OF Suc.prems]])
  show ?case
  proof (cases "m_readTimeout ?c < 10")
    case True
    have "n = nat (10 - m_readTimeout ?c)" using Suc.hyps(2) by simp
    moreover have "Suc k + nat (10 - m_readTimeout ?c) = k + nat (10 - m_readTimeout c)"
      using True by simp
    ultimately show ?thesis
      using Suc.hyps(1) [OF _ Suc.prems(1) True, of "Suc k"] by (simp only: step) simp
  next
    case False
    then have "m_readTimeout c = 9" using Suc.prems(2) by simp
    then show ?thesis by (simp add: step)
  qed
qed simp

lemma pace_skips:
  assumes "w_heap w i \<noteq> None" and "\<not> m_readTimeout c < 10"
    and "\<forall>line \<in> set noise. \<not> is_message_line line"
  shows "pace env dec parse clock i k (c, w, noise @ input) =
    pace env dec parse clock i (k + length noise) (c, w, input)"
  using assms
proof (induction noise arbitrary: k w)
  case (Cons line noise)
  have "pace_round env dec parse clock i k (c, w, (line # noise) @ input) =
      Inr (False, c, reset_update w i, noise @ input)"
    using pace_round_noise [OF Cons.prems(1,2), of "(line # noise) @ input"] Cons.prems(3) by simp
  then have "pace env dec parse clock i k (c, w, (line # noise) @ input) =
      pace env dec parse clock i (Suc k) (c, reset_update w i, noise @ input)"
    by (rule pace_rounds(1))
  then show ?case using Cons by (simp add: pace_reset)
qed simp

lemma pace_reaches:
  assumes "w_heap w i \<noteq> None" and "\<forall>line \<in> set noise. \<not> is_message_line line"
  obtains k' c' where "\<not> m_readTimeout c' < 10"
    and "pace env dec parse clock i k (c, w, noise @ input) =
         pace env dec parse clock i k' (c', w, input)"
proof (cases "m_readTimeout c < 10")
  case True
  show thesis
    by (rule that [of "c\<lparr>m_readTimeout := 10\<rparr>"], simp)
      (subst pace_waits [OF assms(1) True], rule pace_skips [OF assms(1) _ assms(2)], simp)
next
  case False
  show thesis by (rule that [OF False pace_skips [OF assms(1) False assms(2)]])
qed

section \<open>When the loop ends\<close>

text \<open>A round that reads a message that brings an update ends the loop.\<close>

lemma pace_ends:
  assumes "w_heap w i \<noteq> None" and "\<not> m_readTimeout c < 10"
    and "receives dec line data" and "parse (c_parsed c) data = (es, ev)"
    and "on_finished_all env (clock k) (reset_update w i) i es = Inr w1"
    and "w_heap w1 i = Some a" and "m_hadUpdate a"
  shows "pace env dec parse clock i k (c, w, line # input) =
    Some (Inr (c\<lparr>c_parsed := c_parsed c @ [data]\<rparr>, w1, input))"
proof (rule pace_rounds(2))
  show "pace_round env dec parse clock i k (c, w, line # input) =
      Inr (True, c\<lparr>c_parsed := c_parsed c @ [data]\<rparr>, w1, input)"
    using assms
    by (auto simp: pace_round_def console_read_def receives_def parseLine_def parseBase64_def
        hadUpdate_def)
qed

text \<open>How many rounds are left before the input has ended.\<close>

fun rounds_left :: "console_state \<Rightarrow> nat" where
  "rounds_left (c, w, input) = nat (10 - m_readTimeout c) + length input"

lemma console_read_left:
  assumes "console_read env dec parse now i (c, w, input) = Inr (ev, c', w', input')"
    and "0 < rounds_left (c, w, input)"
  shows "rounds_left (c', v, input') < rounds_left (c, w, input)"
proof -
  have "m_readTimeout c' = m_readTimeout c" if
    "parseLine env dec parse now i line (c, w) = Inr (ev, c', w')" for line
    using that by (auto simp: parseLine_def parseBase64_def bindR_Inr_conv split: if_splits
        option.splits prod.splits)
  then show ?thesis
    using assms by (cases input)
      (fastforce simp: console_read_def bindR_Inr_conv split: if_splits)+
qed

text \<open>Property C18.  The pacing loop ends within a bounded number of rounds or never: the ten reads that
  are ignored, one round for each line of the input and one more decide it, whatever the lines,
  the parser and the registry are. A loop that has read the input to its end without an update
  goes round for ever.\<close>

theorem pace_bounded:
  "pace env dec parse clock i k s =
     until_fuel (rounds_left s + 1) (pace_round env dec parse clock i) k s"
proof -
  let ?body = "pace_round env dec parse clock i"
  define stuck :: "console_state \<Rightarrow> bool" where
    "stuck = (\<lambda>(c, w, input). w_heap w i \<noteq> None \<and> \<not> m_readTimeout c < 10 \<and> input = [])"
  have going: "\<exists>s'. ?body k s = Inr (False, s') \<and> stuck s'" if "stuck s" for k s
    using that pace_round_noise by (auto simp: stuck_def)
  have zero: "\<not> fst r \<and> stuck (snd r)" if "?body k s = Inr r" and "rounds_left s = 0" for k s r
  proof -
    obtain c w input where s: "s = (c, w, input)" by (cases s)
    have "stuck s" using that
      by (cases "w_heap w i = None") (auto simp: s stuck_def pace_round_def)
    from going [OF this, of k] that(1) show ?thesis by auto
  qed
  have less: "rounds_left s' < rounds_left s"
    if "?body k s = Inr (False, s')" and "0 < rounds_left s" for k s s'
  proof -
    obtain c w input c' w' input' where s: "s = (c, w, input)" "s' = (c', w', input')"
      by (cases s, cases s') auto
    from that(1) obtain ev where
      "console_read env dec parse (clock k) i (c, reset_update w i, input) = Inr (ev, c', w', input')"
      by (auto simp: s pace_round_def bindR_Inr_conv split: if_splits option.splits)
    from console_read_left [OF this, of w'] that(2) show ?thesis by (simp add: s)
  qed
  show ?thesis
    unfolding pace_def Suc_eq_plus1 [symmetric]
    by (rule do_until_bounded [where stuck = stuck and m = rounds_left, OF less zero going])
qed

text \<open>Property C36.  Without a message among the lines that are left, servicing never returns, also when
  the input has ended: every further read gives an empty line at once.\<close>

theorem pace_starves:
  assumes "w_heap w i \<noteq> None" and "\<forall>line \<in> set input. \<not> is_message_line line"
  shows "pace env dec parse clock i k (c, w, input) = None"
proof -
  let ?stuck = "\<lambda>(c, w, input). w_heap w i \<noteq> None \<and> \<not> m_readTimeout c < 10 \<and> input = []"
  have ended: "pace env dec parse clock i k (c, w, []) = None"
    if "w_heap w i \<noteq> None" and "\<not> m_readTimeout c < 10" for k c w
    unfolding pace_def using that
    by (intro do_until_stuck [where stuck = ?stuck]) (auto simp: pace_round_noise)
  have read: "pace env dec parse clock i k (c, w, input) = None"
    if "\<not> m_readTimeout c < 10" for k c
    using pace_skips [OF assms(1) that assms(2), of env dec parse clock k "[]"] ended [OF assms(1) that]
    by simp
  then show ?thesis
    by (cases "m_readTimeout c < 10") (simp_all add: pace_waits [OF assms(1)])
qed

theorem pace_starves_witness:
  "pace example_rcore example_dec (\<lambda>old new. ([], LRT_RCORE_OK)) (\<lambda>k. 0) 1 0
     (console_init, example_world, [''hello'', ''!:'']) = None"
  by (rule pace_starves) (simp_all add: is_message_line_def example_heap [unfolded One_nat_def])

end
