(* ===== verification/Status.thy ===== *)
theory Status
  imports Prelude
begin

text \<open>
  The status codes and options of \<^verbatim>\<open>RSupport/include/RSupport/RSupport.hpp\<close> and the tables of their
  names in \<^verbatim>\<open>RSupport/src/RSupport.cpp\<close>. A C enumeration is a datatype with the number of every
  enumerator; where the code takes any value of the enumeration, the model takes its number.
\<close>

section \<open>Statuses and options\<close>

datatype RSupportStatus =
    RSupportStatus_CouldNotOpenSocket
  | RSupportStatus_ConnectionFailed
  | RSupportStatus_IOError
  | RSupportStatus_SocketNotOpenForReading
  | RSupportStatus_OtherError
  | RSupportStatus_InvalidOption
  | RSupportStatus_Ok
  | RSupportStatus_Updates
  | RSupportStatus__Count

fun RSupportStatus_int :: "RSupportStatus \<Rightarrow> nat" where
  "RSupportStatus_int RSupportStatus_CouldNotOpenSocket = 0"
| "RSupportStatus_int RSupportStatus_ConnectionFailed = 1"
| "RSupportStatus_int RSupportStatus_IOError = 2"
| "RSupportStatus_int RSupportStatus_SocketNotOpenForReading = 3"
| "RSupportStatus_int RSupportStatus_OtherError = 4"
| "RSupportStatus_int RSupportStatus_InvalidOption = 5"
| "RSupportStatus_int RSupportStatus_Ok = 6"
| "RSupportStatus_int RSupportStatus_Updates = 7"
| "RSupportStatus_int RSupportStatus__Count = 8"

datatype RSupportOption =
    RSupportOption_AutoFrequency
  | RSupportOption_AutoMovementBurst
  | RSupportOption__Count

fun RSupportOption_int :: "RSupportOption \<Rightarrow> nat" where
  "RSupportOption_int RSupportOption_AutoFrequency = 0"
| "RSupportOption_int RSupportOption_AutoMovementBurst = 1"
| "RSupportOption_int RSupportOption__Count = 2"

definition rsupport_is_error :: "RSupportStatus \<Rightarrow> bool" where
  "rsupport_is_error status \<longleftrightarrow> RSupportStatus_int status < RSupportStatus_int RSupportStatus_Ok"

section \<open>Names\<close>

text \<open>
  An array of C strings: an element without initialiser is the null pointer, and adjacent
  string literals are one.
\<close>

definition c_strings :: "nat \<Rightarrow> string list \<Rightarrow> string option list" where
  "c_strings n xs = map Some xs @ replicate (n - length xs) None"

definition RSupportStatusNames :: "string option list" where
  "RSupportStatusNames = c_strings (RSupportStatus_int RSupportStatus__Count)
     [''Could not open Socket'', ''Connection Failed'', ''IO-Error'',
      ''Socket not open for reading'', ''Other Error'',
      ''Invalid Option'' @ ''Okay'',
      ''Updates Received'']"

definition RSupportOptionNames :: "string option list" where
  "RSupportOptionNames = c_strings (RSupportOption_int RSupportOption__Count)
     [''Automatic Frequency Adjustment'' @ ''Automatic Movement Updates'']"

definition rsupport_status_msg :: "nat \<Rightarrow> string option res" where
  "rsupport_status_msg status = vec_at RSupportStatusNames status"

definition rsupport_option_msg :: "nat \<Rightarrow> string option res" where
  "rsupport_option_msg option = vec_at RSupportOptionNames option"

section \<open>What the tables say\<close>

text \<open>The description that the enumeration means, for each status that the code returns.\<close>

fun status_description :: "RSupportStatus \<Rightarrow> string" where
  "status_description RSupportStatus_CouldNotOpenSocket = ''Could not open Socket''"
| "status_description RSupportStatus_ConnectionFailed = ''Connection Failed''"
| "status_description RSupportStatus_IOError = ''IO-Error''"
| "status_description RSupportStatus_SocketNotOpenForReading = ''Socket not open for reading''"
| "status_description RSupportStatus_OtherError = ''Other Error''"
| "status_description RSupportStatus_InvalidOption = ''Invalid Option''"
| "status_description RSupportStatus_Ok = ''Okay''"
| "status_description RSupportStatus_Updates = ''Updates Received''"
| "status_description RSupportStatus__Count = ''''"

lemma length_names [simp]:
  "length RSupportStatusNames = 8" "length RSupportOptionNames = 2"
  by (simp_all add: RSupportStatusNames_def RSupportOptionNames_def c_strings_def)

lemma is_error_iff: "rsupport_is_error s \<longleftrightarrow>
  s \<notin> {RSupportStatus_Ok, RSupportStatus_Updates, RSupportStatus__Count}"
  by (cases s) (simp_all add: rsupport_is_error_def)

text \<open>The name of a status is the one meant exactly for the first five statuses,
  which are all the errors that servicing or connecting a handle returns; the two literals that
  no comma separates shift the others: an invalid option reads as both, success as received
  updates, and updates as the null pointer. The name of the first option is both names, that of
  the second the null pointer. A number past the tables reads out of bounds.\<close>

theorem status_names_shifted:
  "(rsupport_status_msg (RSupportStatus_int s) = Inr (Some (status_description s)) \<longleftrightarrow>
      RSupportStatus_int s < 5) \<and>
   rsupport_status_msg (RSupportStatus_int RSupportStatus_InvalidOption) =
     Inr (Some (status_description RSupportStatus_InvalidOption @
                status_description RSupportStatus_Ok)) \<and>
   rsupport_status_msg (RSupportStatus_int RSupportStatus_Ok) =
     Inr (Some (status_description RSupportStatus_Updates)) \<and>
   rsupport_status_msg (RSupportStatus_int RSupportStatus_Updates) = Inr None \<and>
   rsupport_option_msg (RSupportOption_int RSupportOption_AutoFrequency) =
     Inr (Some (''Automatic Frequency Adjustment'' @ ''Automatic Movement Updates'')) \<and>
   rsupport_option_msg (RSupportOption_int RSupportOption_AutoMovementBurst) = Inr None \<and>
   (is_ok (rsupport_status_msg n) \<longleftrightarrow> n < 8) \<and> (is_ok (rsupport_option_msg n) \<longleftrightarrow> n < 2)"
proof -
  have "rsupport_status_msg (RSupportStatus_int s) = Inr (Some (status_description s)) \<longleftrightarrow>
      RSupportStatus_int s < 5"
    by (cases s) (simp_all add: rsupport_status_msg_def RSupportStatusNames_def c_strings_def
        vec_at_def)
  then show ?thesis
    by (simp add: rsupport_status_msg_def rsupport_option_msg_def)
      (simp add: RSupportStatusNames_def RSupportOptionNames_def c_strings_def vec_at_def
        numeral_eq_Suc)
qed

end
