(* ===== verification/Socket.thy ===== *)
theory Socket
  imports Console Status
begin

text \<open>
  \<^verbatim>\<open>RSupport/src/SocketClientAdapter.cpp\<close> and its header: an adapter whose messages are the bytes of
  a stream socket.

  The operating system is the argument \<open>os\<close>: the result of a system call, the error number it
  leaves and the bytes that a read gives, each from the calls made before and their results,
  which the state records. The RComm library's parser is \<open>parse\<close>, as in theory \<open>Console\<close>.
\<close>

section \<open>System calls\<close>

type_synonym fd = int

datatype syscall =
    Sys_socket
  | Sys_connect fd string
  | Sys_getfl fd
  | Sys_setfl fd "32 word"
  | Sys_close fd
  | Sys_read fd nat
  | Sys_write fd bytes

datatype errno = EAGAIN | EIO | EBADF | E_OTHER nat

type_synonym trace = "(syscall \<times> int) list"

record os =
  os_result :: "trace \<Rightarrow> syscall \<Rightarrow> int"
  os_errno :: "trace \<Rightarrow> syscall \<Rightarrow> errno"
  os_read :: "trace \<Rightarrow> syscall \<Rightarrow> bytes"

definition O_NONBLOCK :: "32 word" where
  "O_NONBLOCK = 0x800"

section \<open>State\<close>

definition sun_path_size :: nat where
  "sun_path_size = 108"

record socket =
  m_addr :: string                   \<comment> \<open>\<open>m_addr.sun_path\<close>\<close>
  m_buffer :: bytes
  m_fd :: fd
  m_rc :: int
  s_parsed :: "bytes list"           \<comment> \<open>what the RComm handle has parsed\<close>
  s_trace :: trace

text \<open>The members' first values; those that no constructor sets are the argument \<open>memory\<close>.\<close>

definition socket_init :: "string \<times> bytes \<Rightarrow> socket" where
  "socket_init memory = \<lparr>m_addr = fst memory, m_buffer = snd memory, m_fd = 0, m_rc = 0,
     s_parsed = [], s_trace = []\<rparr>"

definition sys :: "os \<Rightarrow> socket \<Rightarrow> syscall \<Rightarrow> int \<times> socket" where
  "sys os s c = (let r = os_result os (s_trace s) c
     in (r, s\<lparr>s_trace := s_trace s @ [(c, r)]\<rparr>))"

definition getSocketFd :: "socket \<Rightarrow> fd" where
  "getSocketFd s = m_fd s"

section \<open>Operations\<close>

definition LRT_RCORE_TRANSMIT_ERROR :: rcore_event where
  "LRT_RCORE_TRANSMIT_ERROR = LRT_RCORE_OTHER 2"

text \<open>The callback that transmits the bytes of a message.\<close>

definition socket_transmit :: "os \<Rightarrow> socket \<Rightarrow> bytes \<Rightarrow> rcore_event \<times> socket" where
  "socket_transmit os s data =
     (if 0 < m_fd s
      then (case sys os s (Sys_write (m_fd s) data) of
              (r, s1) \<Rightarrow> if r \<noteq> int (length data) then (LRT_RCORE_TRANSMIT_ERROR, s1)
                        else (LRT_RCORE_OK, s1))
      else (LRT_RCORE_OK, s))"

text \<open>The constructor, as that of the console's adapter.\<close>

definition SocketClientAdapter_new ::
  "rcore \<Rightarrow> Reliability \<Rightarrow> string \<times> bytes \<Rightarrow> bool \<Rightarrow> bool \<Rightarrow> adapter \<times> socket" where
  "SocketClientAdapter_new env rel0 memory registry subscribedToAll =
     (adapter_init env rel0 registry subscribedToAll ''Unnamed Adapter'' 0, socket_init memory)"

text \<open>
  \<^verbatim>\<open>send\<close> and the callback for an accepted message, which ignores what the library's
  \<^verbatim>\<open>rcomm_transfer_message_to_tb\<close> reports.
\<close>

definition socket_send ::
  "((bytes \<Rightarrow> socket \<Rightarrow> rcore_event \<times> socket) \<Rightarrow> tb_entry option \<Rightarrow> socket \<Rightarrow>
      rcore_event \<times> socket) \<Rightarrow> os \<Rightarrow> socket \<Rightarrow> tb_entry option \<Rightarrow> Reliability \<Rightarrow>
     rcore_event \<times> socket" where
  "socket_send rcomm_send_tb_entry os s entry reliability =
     rcomm_send_tb_entry (\<lambda>data s. socket_transmit os s data) entry s"

definition socket_accept :: "('m \<Rightarrow> 's \<Rightarrow> rcore_event \<times> 's) \<Rightarrow> 'm \<Rightarrow> 's \<Rightarrow> rcore_event \<times> 's" where
  "socket_accept rcomm_transfer_message_to_tb message s =
     (LRT_RCORE_OK, snd (rcomm_transfer_message_to_tb message s))"

text \<open>\<^verbatim>\<open>strncpy\<close> to an array of \<open>n\<close> zeroes: no terminator is written when the string fills it.\<close>

definition strncpy :: "string \<Rightarrow> nat \<Rightarrow> string" where
  "strncpy src n =
     (let cs = takeWhile (\<lambda>ch. ch \<noteq> CHR 0x00) src
      in take n cs @ replicate (n - length cs) (CHR 0x00))"

text \<open>\<^verbatim>\<open>connect\<close>.\<close>

definition socket_connect :: "os \<Rightarrow> socket \<Rightarrow> string \<Rightarrow> RSupportStatus \<times> socket" where
  "socket_connect os s path =
     (case sys os (s\<lparr>m_addr := strncpy path sun_path_size\<rparr>) Sys_socket of (fd, s1) \<Rightarrow>
        if fd = - 1 then (RSupportStatus_CouldNotOpenSocket, s1\<lparr>m_fd := 0\<rparr>)
        else case sys os (s1\<lparr>m_fd := fd\<rparr>) (Sys_connect fd (m_addr s1)) of (r, s2) \<Rightarrow>
          if r = - 1 then (RSupportStatus_ConnectionFailed, s2\<lparr>m_fd := 0\<rparr>)
          else case sys os s2 (Sys_getfl fd) of (fl, s3) \<Rightarrow>
            let flags = (if fl = - 1 then 0 else word_of_int fl)
            in (RSupportStatus_Ok, snd (sys os s3 (Sys_setfl fd (flags OR O_NONBLOCK)))))"

definition socket_disconnect :: "os \<Rightarrow> socket \<Rightarrow> RSupportStatus \<times> socket" where
  "socket_disconnect os s = (RSupportStatus_Ok, snd (sys os s (Sys_close (m_fd s))))"

text \<open>The status that \<^verbatim>\<open>service\<close> makes of the result of its read, and of \<^verbatim>\<open>errno\<close>.\<close>

definition read_status :: "int \<Rightarrow> errno \<Rightarrow> RSupportStatus" where
  "read_status rc errno =
     (if 0 < rc then RSupportStatus_Updates
      else if rc = - 1
      then (case errno of
              EAGAIN \<Rightarrow> RSupportStatus_Ok
            | EIO \<Rightarrow> RSupportStatus_IOError
            | EBADF \<Rightarrow> RSupportStatus_SocketNotOpenForReading
            | E_OTHER _ \<Rightarrow> RSupportStatus_OtherError)
      else RSupportStatus_Ok)"

text \<open>
  \<^verbatim>\<open>service\<close> of the adapter \<open>i\<close> of the world. The system writes what it read to the front of the
  buffer; the parser gets the first \<open>m_rc\<close> bytes of it.
\<close>

definition socket_service ::
  "rcore \<Rightarrow> os \<Rightarrow> parser \<Rightarrow> int \<Rightarrow> nat \<Rightarrow> socket \<times> world \<Rightarrow>
     (RSupportStatus \<times> socket \<times> world) res" where
  "socket_service env os parse now i sw =
     (case sw of (s, w) \<Rightarrow>
        let c = Sys_read (m_fd s) (length (m_buffer s)); data = os_read os (s_trace s) c
        in case sys os s c of (rc, s1) \<Rightarrow>
          let s2 = s1\<lparr>m_rc := rc, m_buffer := data @ drop (length data) (m_buffer s1)\<rparr>;
              status = read_status rc (os_errno os (s_trace s) c)
          in if 0 < rc
             then if length (m_buffer s2) < nat rc then Inl OutOfBounds
             else let b = take (nat rc) (m_buffer s2)
                  in bindR (on_finished_all env now w i (fst (parse (s_parsed s2) b))) (\<lambda>w1.
                       Inr (status, s2\<lparr>s_parsed := s_parsed s2 @ [b]\<rparr>, w1))
             else Inr (status, s2, w))"

section \<open>Basic facts\<close>

lemma sys_simps [simp]:
  "fst (sys os s c) = os_result os (s_trace s) c"
  "m_fd (snd (sys os s c)) = m_fd s" "m_addr (snd (sys os s c)) = m_addr s"
  "m_buffer (snd (sys os s c)) = m_buffer s" "s_parsed (snd (sys os s c)) = s_parsed s"
  "s_trace (snd (sys os s c)) = s_trace s @ [(c, os_result os (s_trace s) c)]"
  by (simp_all add: sys_def Let_def)

lemma length_strncpy: "length (strncpy src n) = n"
  by (simp add: strncpy_def Let_def)

section \<open>Connecting\<close>

text \<open>What the system sees of a connection attempt and what the adapter keeps of it.\<close>

definition connect_spec :: "os \<Rightarrow> socket \<Rightarrow> string \<Rightarrow> RSupportStatus \<times> fd \<times> trace" where
  "connect_spec os s path =
     (let t = s_trace s; fd = os_result os t Sys_socket; t1 = t @ [(Sys_socket, fd)];
          addr = Sys_connect fd (strncpy path sun_path_size); r = os_result os t1 addr;
          t2 = t1 @ [(addr, r)]; fl = os_result os t2 (Sys_getfl fd); t3 = t2 @ [(Sys_getfl fd, fl)];
          set = Sys_setfl fd ((if fl = - 1 then 0 else word_of_int fl) OR O_NONBLOCK)
      in if fd = - 1 then (RSupportStatus_CouldNotOpenSocket, 0, t1)
         else if r = - 1 then (RSupportStatus_ConnectionFailed, 0, t2)
         else (RSupportStatus_Ok, fd, t3 @ [(set, os_result os t3 set)]))"

lemma socket_connect_eq:
  "socket_connect os s path = (case connect_spec os s path of (st, fd, t) \<Rightarrow>
     (st, s\<lparr>m_addr := strncpy path sun_path_size, m_fd := fd, s_trace := t\<rparr>))"
  by (simp add: socket_connect_def connect_spec_def sys_def Let_def)

text \<open>The descriptors open after some calls, of those that the calls opened.\<close>

fun open_call :: "fd set \<Rightarrow> syscall \<times> int \<Rightarrow> fd set" where
  "open_call S (Sys_socket, r) = (if r = - 1 then S else insert r S)"
| "open_call S (Sys_close fd, r) = S - {fd}"
| "open_call S _ = S"

definition open_fds :: "trace \<Rightarrow> fd set" where
  "open_fds t = foldl open_call {} t"

lemma open_fds_simps [simp]:
  "open_fds [] = {}" "open_fds (t @ [c]) = open_call (open_fds t) c"
  by (simp_all add: open_fds_def)

text \<open>What the adapter relies on of the system: a new descriptor is not an open one.\<close>

definition fresh_descriptors :: "os \<Rightarrow> bool" where
  "fresh_descriptors os \<longleftrightarrow> (\<forall>t. os_result os t Sys_socket \<notin> open_fds t)"

text \<open>The steps of a connected program: its calls of the adapter, and changes of the world.\<close>

inductive socket_step ::
  "rcore \<Rightarrow> os \<Rightarrow> parser \<Rightarrow> nat \<Rightarrow> socket \<times> world \<Rightarrow> socket \<times> world \<Rightarrow> bool"
  for env os parse i where
  step_connect: "socket_connect os s path = (st, s') \<Longrightarrow>
     socket_step env os parse i (s, w) (s', w)"
| step_disconnect: "socket_disconnect os s = (st, s') \<Longrightarrow>
     socket_step env os parse i (s, w) (s', w)"
| step_transmit: "socket_transmit os s data = (ev, s') \<Longrightarrow>
     socket_step env os parse i (s, w) (s', w)"
| step_service: "socket_service env os parse now i (s, w) = Inr (st, s', w') \<Longrightarrow>
     socket_step env os parse i (s, w) (s', w')"
| step_world: "socket_step env os parse i (s, w) (s, w')"

abbreviation socket_steps ::
  "rcore \<Rightarrow> os \<Rightarrow> parser \<Rightarrow> nat \<Rightarrow> socket \<times> world \<Rightarrow> socket \<times> world \<Rightarrow> bool" where
  "socket_steps env os parse i \<equiv> (socket_step env os parse i)\<^sup>*\<^sup>*"

lemma socket_service_frame:
  assumes "socket_service env os parse now i (s, w) = Inr (st, s', w')"
  shows "m_fd s' = m_fd s \<and> m_addr s' = m_addr s \<and>
    (\<exists>r. s_trace s' = s_trace s @ [(Sys_read (m_fd s) (length (m_buffer s)), r)])"
  using assms
  by (auto simp: socket_service_def sys_def Let_def bindR_Inr_conv split: if_splits)

text \<open>A descriptor that the adapter has forgotten.\<close>

definition leaked :: "fd \<Rightarrow> socket \<Rightarrow> bool" where
  "leaked fd s \<longleftrightarrow> fd \<in> open_fds (s_trace s) \<and> fd \<noteq> m_fd s \<and> fd \<noteq> 0"

lemma connect_leaks:
  assumes "fresh_descriptors os" and "socket_connect os s path = (st, s')"
    and "fd \<in> open_fds (s_trace s)" and "fd \<noteq> 0"
  shows "leaked fd s'"
proof -
  have "os_result os (s_trace s) Sys_socket \<noteq> fd"
    using assms(1,3) by (auto simp: fresh_descriptors_def)
  with assms(2-4) show ?thesis
    by (auto simp: socket_connect_eq connect_spec_def Let_def leaked_def open_fds_def
        split: if_splits)
qed

lemma leaked_step:
  assumes "fresh_descriptors os" and "socket_step env os parse i (s, w) (s', w')" and "leaked fd s"
  shows "leaked fd s'"
  using assms(2)
proof cases
  case (step_connect path st)
  with assms(1,3) show ?thesis by (auto simp: leaked_def [of _ s] intro: connect_leaks)
next
  case (step_service now st)
  with assms(3) socket_service_frame [OF this] show ?thesis by (auto simp: leaked_def)
qed (use assms(3) in \<open>auto simp: leaked_def socket_disconnect_def socket_transmit_def sys_def
    Let_def split: if_splits\<close>)

lemma leaked_steps:
  assumes "fresh_descriptors os" and "socket_steps env os parse i x y" and "leaked fd (fst x)"
  shows "leaked fd (fst y)"
  using assms(2,3)
proof (induction rule: rtranclp_induct)
  case (step y z)
  then show ?case using leaked_step [OF assms(1), of env parse i "fst y" "snd y" "fst z" "snd z"]
    by simp
qed

text \<open>Property C34.  Descriptors leak: a connection attempt forgets, without closing it, the
  descriptor whose connecting failed, and one that was open before the attempt; whatever the
  program does with the adapter afterwards, the descriptor stays open and is never again the
  adapter's.\<close>

theorem descriptor_leaks:
  assumes "fresh_descriptors os" and "socket_connect os s path = (st, s1)" and "fd \<noteq> 0"
    and "st = RSupportStatus_ConnectionFailed \<and> fd = os_result os (s_trace s) Sys_socket \<or>
         m_fd s = fd \<and> fd \<in> open_fds (s_trace s)"
    and "socket_steps env os parse i (s1, w) (s2, w2)"
  shows "fd \<in> open_fds (s_trace s2) \<and> m_fd s2 \<noteq> fd"
proof -
  have "leaked fd s1"
    using assms(4)
  proof
    assume "st = RSupportStatus_ConnectionFailed \<and> fd = os_result os (s_trace s) Sys_socket"
    with assms(2,3) show ?thesis
      by (auto simp: socket_connect_eq connect_spec_def Let_def leaked_def open_fds_def
          split: if_splits)
  qed (use connect_leaks [OF assms(1,2) _ assms(3)] in simp)
  from leaked_steps [OF assms(1,5), of fd] this show ?thesis by (simp add: leaked_def)
qed

text \<open>An operating system for the witnesses: paths that do not start with a slash are refused.\<close>

definition next_fd :: "trace \<Rightarrow> fd" where
  "next_fd t = foldl (\<lambda>m (c, r). max m (r + 1)) 3 t"

fun example_result :: "trace \<Rightarrow> syscall \<Rightarrow> int" where
  "example_result t Sys_socket = next_fd t"
| "example_result t (Sys_connect fd addr) = (if addr ! 0 = CHR ''/'' then 0 else - 1)"
| "example_result t (Sys_read fd n) = (if length t = 4 \<and> 3 \<le> n then 3 else - 1)"
| "example_result t (Sys_write fd data) = int (length data)"
| "example_result t _ = 0"

definition example_os :: os where
  "example_os = \<lparr>os_result = example_result, os_errno = \<lambda>t c. EAGAIN,
     os_read = \<lambda>t c. if example_result t c = 3 then [7, 8, 9] else []\<rparr>"

lemma example_os_simps [simp]:
  "os_result example_os = example_result" "os_errno example_os t c = EAGAIN"
  "os_read example_os t c = (if example_result t c = 3 then [7, 8, 9] else [])"
  by (simp_all add: example_os_def)

lemma open_below_next: "fd \<in> open_fds t \<Longrightarrow> fd < next_fd t"
proof (induction t rule: rev_induct)
  case (snoc c t)
  obtain k r where c: "c = (k, r)" by (cases c)
  have "fd \<in> open_fds t \<or> fd = r" using snoc.prems by (cases k) (auto simp: c split: if_splits)
  moreover have "next_fd (t @ [c]) = max (next_fd t) (r + 1)" by (simp add: next_fd_def c)
  ultimately show ?case using snoc.IH by auto
qed simp

lemma example_os_fresh: "fresh_descriptors example_os"
  using open_below_next by (fastforce simp: fresh_descriptors_def example_os_def)

definition example_socket :: socket where
  "example_socket = socket_init (replicate 108 (CHR ''a''), replicate 100 0)"

theorem descriptor_leaks_witness:
  "3 \<in> open_fds (s_trace (snd (socket_connect example_os example_socket ''none''))) \<and>
   m_fd (snd (socket_connect example_os example_socket ''none'')) \<noteq> 3"
proof (rule descriptor_leaks [OF example_os_fresh prod.collapse [symmetric] _ _ rtranclp.rtrancl_refl])
  show "fst (socket_connect example_os example_socket ''none'') = RSupportStatus_ConnectionFailed \<and>
      3 = os_result example_os (s_trace example_socket) Sys_socket \<or>
      m_fd example_socket = 3 \<and> 3 \<in> open_fds (s_trace example_socket)"
    by (simp add: socket_connect_eq connect_spec_def example_os_def example_socket_def
        socket_init_def Let_def next_fd_def strncpy_def sun_path_size_def)
qed simp_all

section \<open>The stream\<close>

text \<open>
  What the adapter relies on of a read: it gives as many bytes as its result says, at most as
  many as asked for.
\<close>

definition honest_reads :: "os \<Rightarrow> bool" where
  "honest_reads os \<longleftrightarrow> (\<forall>t fd n. nat (os_result os t (Sys_read fd n)) \<le> n \<and>
     length (os_read os t (Sys_read fd n)) = nat (os_result os t (Sys_read fd n)))"

text \<open>The bytes that the reads among some calls gave, in order.\<close>

fun read_by :: "os \<Rightarrow> trace \<Rightarrow> syscall \<times> int \<Rightarrow> bytes" where
  "read_by os t (Sys_read fd n, r) = (if 0 < r then os_read os t (Sys_read fd n) else [])"
| "read_by os t _ = []"

definition bytes_read :: "os \<Rightarrow> trace \<Rightarrow> bytes" where
  "bytes_read os t = concat (map (\<lambda>k. read_by os (take k t) (t ! k)) [0..<length t])"

lemma bytes_read_simps [simp]:
  "bytes_read os [] = []" "bytes_read os (t @ [c]) = bytes_read os t @ read_by os t c"
proof -
  have eq: "map (\<lambda>k. read_by os (take k (t @ [c])) ((t @ [c]) ! k)) [0..<length t] =
      map (\<lambda>k. read_by os (take k t) (t ! k)) [0..<length t]"
    by (simp add: nth_append)
  show "bytes_read os (t @ [c]) = bytes_read os t @ read_by os t c"
    unfolding bytes_read_def length_append_singleton upt_Suc_append [OF le0] map_append eq by simp
qed (simp add: bytes_read_def)

lemma socket_service_eq:
  assumes "honest_reads os"
  shows "socket_service env os parse now i (s, w) =
    (let c = Sys_read (m_fd s) (length (m_buffer s)); t = s_trace s; rc = os_result os t c;
         b = read_by os t (c, rc); status = read_status rc (os_errno os t c);
         s1 = s\<lparr>s_trace := t @ [(c, rc)], m_rc := rc,
                m_buffer := os_read os t c @ drop (length (os_read os t c)) (m_buffer s)\<rparr>
     in if b = [] then Inr (status, s1, w)
        else bindR (on_finished_all env now w i (fst (parse (s_parsed s) b))) (\<lambda>w1.
          Inr (status, s1\<lparr>s_parsed := s_parsed s @ [b]\<rparr>, w1)))"
proof -
  define c where "c = Sys_read (m_fd s) (length (m_buffer s))"
  have "nat (os_result os (s_trace s) c) \<le> length (m_buffer s)"
    and d: "length (os_read os (s_trace s) c) = nat (os_result os (s_trace s) c)"
    using assms by (simp_all add: honest_reads_def c_def)
  moreover have "os_read os (s_trace s) c \<noteq> []" if "0 < os_result os (s_trace s) c"
    using d that by fastforce
  ultimately show ?thesis
    by (simp add: socket_service_def sys_def Let_def flip: c_def) (simp add: c_def)
qed

text \<open>The bytes that the next service reads, and the entries that they finish.\<close>

definition service_bytes :: "os \<Rightarrow> socket \<Rightarrow> bytes" where
  "service_bytes os s =
     (let c = Sys_read (m_fd s) (length (m_buffer s))
      in read_by os (s_trace s) (c, os_result os (s_trace s) c))"

definition service_entries :: "os \<Rightarrow> parser \<Rightarrow> socket \<Rightarrow> tb_entry list" where
  "service_entries os parse s =
     (if service_bytes os s = [] then [] else fst (parse (s_parsed s) (service_bytes os s)))"

lemma safe_service_entries:
  "safe_parser env parse \<Longrightarrow> list_all (safe_entry env) (service_entries os parse s)"
  by (simp add: safe_parser_def service_entries_def)

lemma socket_service_ok:
  assumes "honest_reads os" and "wf_world env w" and "w_heap w i = Some a" and "m_registry a"
    and "list_all (safe_entry env) (service_entries os parse s)"
  shows "\<exists>s1 w1 a1. socket_service env os parse now i (s, w) =
      Inr (read_status (os_result os (s_trace s) (Sys_read (m_fd s) (length (m_buffer s))))
             (os_errno os (s_trace s) (Sys_read (m_fd s) (length (m_buffer s)))), s1, w1) \<and>
    wf_world env w1 \<and> w_heap w1 i = Some a1 \<and> m_registry a1"
proof -
  define b where "b = service_bytes os s"
  show ?thesis
  proof (cases "b = []")
    case False
    with assms(5) have "list_all (safe_entry env) (fst (parse (s_parsed s) b))"
      by (simp add: service_entries_def b_def)
    from on_finished_all_ok [OF assms(2-4) this, of now] False assms(2-4) show ?thesis
      by (auto simp: socket_service_eq [OF assms(1)] Let_def b_def service_bytes_def)
  qed (use assms(2-4) in \<open>simp add: socket_service_eq [OF assms(1)] Let_def b_def service_bytes_def\<close>)
qed

interpretation socket: message_source "\<lambda>now. socket_service env os parse now i" env i
  "honest_reads os \<and> safe_parser env parse"
proof unfold_locales
  fix w now s
  assume "honest_reads os \<and> safe_parser env parse" "wf_world env w" "connected_to w i"
  then obtain a where "w_heap w i = Some a" "m_registry a" "honest_reads os" "safe_parser env parse"
    by (auto simp: connected_to_def)
  from socket_service_ok [OF this(3) \<open>wf_world env w\<close> this(1,2) safe_service_entries [OF this(4)],
    where now = now and s = s]
  show "\<exists>r s' w'. socket_service env os parse now i (s, w) = Inr (r, s', w') \<and>
      wf_world env w' \<and> connected_to w' i"
    unfolding connected_to_def by blast
qed

definition wf_socket :: "os \<Rightarrow> socket \<Rightarrow> bool" where
  "wf_socket os s \<longleftrightarrow> concat (s_parsed s) = bytes_read os (s_trace s) \<and>
     length (m_buffer s) = 100 \<and> length (m_addr s) = sun_path_size"

lemma wf_socket_step:
  assumes "honest_reads os" and "socket_step env os parse i (s, w) (s', w')" and "wf_socket os s"
  shows "wf_socket os s'"
  using assms(2)
proof cases
  case (step_service now st)
  moreover have "length (os_read os t (Sys_read fd n)) \<le> n" for t fd n
    using assms(1) by (simp add: honest_reads_def)
  ultimately show ?thesis using assms(3)
    by (auto simp: wf_socket_def socket_service_eq [OF assms(1)] Let_def bindR_Inr_conv
        split: if_splits)
qed (use assms(3) in \<open>auto simp: wf_socket_def socket_connect_eq connect_spec_def
    socket_disconnect_def socket_transmit_def sys_def Let_def length_strncpy
    simp flip: append_assoc split: if_splits\<close>)

lemma wf_socket_steps:
  assumes "honest_reads os" and "socket_steps env os parse i x y" and "wf_socket os (fst x)"
  shows "wf_socket os (fst y)"
  using assms(2,3)
proof (induction rule: rtranclp_induct)
  case (step y z)
  then show ?case
    using wf_socket_step [OF assms(1), of env parse i "fst y" "snd y" "fst z" "snd z"] by simp
qed

text \<open>Property C23.  The parser gets the stream: whatever a program does with the adapter, what the
  RComm handle has parsed is exactly what the reads gave, no byte lost, repeated or reordered by
  the buffer of 100 bytes; the buffer and the address keep their sizes.\<close>

theorem socket_stream:
  assumes "honest_reads os" and "length (fst memory) = sun_path_size"
    and "length (snd memory) = 100"
    and "socket_steps env os parse i (socket_init memory, w) (s, w')"
  shows "concat (s_parsed s) = bytes_read os (s_trace s) \<and> length (m_buffer s) = 100 \<and>
    length (m_addr s) = sun_path_size"
proof -
  have "wf_socket os (socket_init memory)"
    using assms(2,3) by (simp add: wf_socket_def socket_init_def)
  then show ?thesis
    using wf_socket_steps [OF assms(1,4)] by (simp add: wf_socket_def)
qed

lemma example_os_honest: "honest_reads example_os"
  by (simp add: honest_reads_def example_os_def)

definition example_connected :: socket where
  "example_connected = snd (socket_connect example_os example_socket ''/tmp/s'')"

definition quiet_parser :: parser where
  "quiet_parser old new = ([], LRT_RCORE_OK)"

definition example_served :: socket where
  "example_served = (case socket_service example_rcore example_os quiet_parser 0 1
     (example_connected, example_world) of Inr (st, s, w) \<Rightarrow> s)"

lemma example_connected_simps:
  "s_trace example_connected = [(Sys_socket, 3),
     (Sys_connect 3 (strncpy ''/tmp/s'' sun_path_size), 0), (Sys_getfl 3, 0),
     (Sys_setfl 3 O_NONBLOCK, 0)]"
  "m_fd example_connected = 3" "m_buffer example_connected = replicate 100 0"
  "s_parsed example_connected = []"
  by (simp_all add: example_connected_def socket_connect_eq connect_spec_def example_os_def
      example_socket_def socket_init_def Let_def next_fd_def strncpy_def sun_path_size_def)

lemma example_served_step:
  "socket_service example_rcore example_os quiet_parser 0 1 (example_connected, example_world) =
     Inr (RSupportStatus_Updates, example_served, example_world)"
proof -
  have "\<exists>s. socket_service example_rcore example_os quiet_parser 0 1
      (example_connected, example_world) = Inr (RSupportStatus_Updates, s, example_world)"
    by (simp add: socket_service_eq [OF example_os_honest] Let_def example_connected_simps
        quiet_parser_def read_status_def)
  then show ?thesis by (auto simp: example_served_def)
qed

theorem socket_stream_witness:
  "concat (s_parsed example_served) = bytes_read example_os (s_trace example_served) \<and>
   length (m_buffer example_served) = 100 \<and> length (m_addr example_served) = sun_path_size"
proof (rule socket_stream [OF example_os_honest])
  show "socket_steps example_rcore example_os quiet_parser 1
      (socket_init (replicate 108 (CHR ''a''), replicate 100 0), example_world)
      (example_served, example_world)"
  proof (rule converse_rtranclp_into_rtranclp)
    show "socket_step example_rcore example_os quiet_parser 1
        (socket_init (replicate 108 (CHR ''a''), replicate 100 0), example_world)
        (example_connected, example_world)"
      unfolding example_connected_def example_socket_def
      by (rule step_connect [OF prod.collapse [symmetric]])
  qed (rule r_into_rtranclp, rule step_service [OF example_served_step])
qed (simp_all add: sun_path_size_def)

section \<open>Addresses\<close>

text \<open>The path that the system reads from an address: up to the first zero, if there is one.\<close>

definition c_string :: "string \<Rightarrow> string option" where
  "c_string cs = (if CHR 0x00 \<in> set cs then Some (takeWhile (\<lambda>ch. ch \<noteq> CHR 0x00) cs) else None)"

text \<open>The address of a connection names its path exactly when the path is shorter than
  the 108 characters of the structure; a longer path is cut to them without a terminator, so
  that two paths with the same beginning connect to one address.\<close>

theorem connect_address:
  assumes "CHR 0x00 \<notin> set path"
  shows "c_string (m_addr (snd (socket_connect os s path))) =
      (if length path < sun_path_size then Some path else None) \<and>
    m_addr (snd (socket_connect os s path)) =
      m_addr (snd (socket_connect os s (take sun_path_size path)))"
proof -
  have path: "takeWhile (\<lambda>ch. ch \<noteq> CHR 0x00) xs = xs" if "set xs \<subseteq> set path" for xs
    using assms that by (auto simp: takeWhile_eq_all_conv)
  have "strncpy path n = take n path @ replicate (n - length path) (CHR 0x00)" for n
    by (simp add: strncpy_def path)
  moreover have "strncpy (take n path) n = take n path @ replicate (n - length path) (CHR 0x00)" for n
    using set_take_subset [of n path] by (simp add: strncpy_def path min_def)
  ultimately show ?thesis
    using assms set_take_subset [of sun_path_size path]
    by (cases "sun_path_size - length path")
      (auto simp: socket_connect_eq c_string_def split_beta takeWhile_append path)
qed

theorem connect_address_witness:
  "c_string (m_addr (snd (socket_connect example_os example_socket ''/tmp/s''))) =
      (if length ''/tmp/s'' < sun_path_size then Some ''/tmp/s'' else None) \<and>
    m_addr (snd (socket_connect example_os example_socket ''/tmp/s'')) =
      m_addr (snd (socket_connect example_os example_socket (take sun_path_size ''/tmp/s'')))"
  by (rule connect_address) simp

end
