(* ===== verification/RSupport.thy ===== *)
theory RSupport
  imports Pacing Socket
begin

text \<open>
  \<^verbatim>\<open>RSupport/src/RSupport.cpp\<close> and \<^verbatim>\<open>RSupport/include/RSupport/RSupport.hpp\<close>: the handle through
  which a regulation kernel uses a registry that is connected to a socket or to the console.

  The handle owns its registry and adapters; they are the world of theory \<open>Registry\<close>, whose
  adapters here are number 0, the socket's, and number 1, the console's. Environment variables,
  the readings of the clock and the memory that no constructor sets are arguments. What a sleep
  is asked for is recorded by the operands of its floating-point expression: the frequency and
  the duration of the frame in nanoseconds. Text for the user on the standard output is left
  out.
\<close>

section \<open>The handle\<close>

record handle =
  h_world :: world
  socketClientAdapter :: "socket option"
  consoleAdapter :: "console option"
  options :: "bool list"
  frameStart :: int
  frameTime :: "64 word"
  h_input :: "string list"                \<comment> \<open>the lines left on the standard input\<close>
  h_sleeps :: "(8 word \<times> int) list"     \<comment> \<open>the sleeps asked for\<close>

definition socket_id :: nat where "socket_id = 0"

definition console_id :: nat where "console_id = 1"

text \<open>Run an operation of an adapter in the handle's world.\<close>

definition with_adapter :: "handle \<Rightarrow> nat \<Rightarrow> (adapter \<Rightarrow> adapter res) \<Rightarrow> handle res" where
  "with_adapter h i f =
     (case w_heap (h_world h) i of
        None \<Rightarrow> Inl NullDeref
      | Some a \<Rightarrow> bindR (f a) (\<lambda>a1. Inr (h\<lparr>h_world := put_adapter (h_world h) i a1\<rparr>)))"

section \<open>Options\<close>

definition rsupport_handle_set_option ::
  "handle option \<Rightarrow> nat \<Rightarrow> bool \<Rightarrow> RSupportStatus \<times> handle option" where
  "rsupport_handle_set_option handle option state =
     (if RSupportOption_int RSupportOption__Count \<le> option \<or> handle = None
      then (RSupportStatus_InvalidOption, handle)
      else (RSupportStatus_Ok,
            map_option (\<lambda>h. h\<lparr>options := (options h)[option := state]\<rparr>) handle))"

definition rsupport_handle_get_option :: "handle option \<Rightarrow> nat \<Rightarrow> bool" where
  "rsupport_handle_get_option handle option =
     (case handle of
        None \<Rightarrow> False
      | Some h \<Rightarrow> if RSupportOption_int RSupportOption__Count \<le> option then False
                else options h ! option)"

abbreviation auto_frequency :: "handle \<Rightarrow> bool" where
  "auto_frequency h \<equiv>
     rsupport_handle_get_option (Some h) (RSupportOption_int RSupportOption_AutoFrequency)"

abbreviation auto_burst :: "handle \<Rightarrow> bool" where
  "auto_burst h \<equiv>
     rsupport_handle_get_option (Some h) (RSupportOption_int RSupportOption_AutoMovementBurst)"

section \<open>Creating and freeing\<close>

definition set_default_options :: "handle \<Rightarrow> handle" where
  "set_default_options h =
     the (snd (rsupport_handle_set_option
       (snd (rsupport_handle_set_option (Some h)
          (RSupportOption_int RSupportOption_AutoFrequency) True))
       (RSupportOption_int RSupportOption_AutoMovementBurst) True))"

definition rsupport_handle_create ::
  "rcore \<Rightarrow> arrays \<Rightarrow> Reliability \<Rightarrow> string \<times> bytes \<Rightarrow> string option \<Rightarrow> int \<Rightarrow> string list \<Rightarrow>
     bool \<Rightarrow> handle res" where
  "rsupport_handle_create env memory rel0 socket_memory consoleOnlyMode now input
       subscribedToAll =
     bindR (registry_init env memory) (\<lambda>w.
       let (i, a, s, c) =
         (if consoleOnlyMode \<noteq> None
          then (case ConsoleAdapter_new env rel0 True True of
                  (a, c) \<Rightarrow> (console_id, a, None, Some c))
          else (case SocketClientAdapter_new env rel0 socket_memory True subscribedToAll of
                  (a, s) \<Rightarrow> (socket_id, a, Some s, None)));
         h = \<lparr>h_world = registerAdapter (put_adapter w i a) (Some i),
              socketClientAdapter = s, consoleAdapter = c, options = [False, False],
              frameStart = now, frameTime = 0, h_input = input, h_sleeps = []\<rparr>
       in Inr ((set_default_options h)\<lparr>frameStart := now\<rparr>))"

text \<open>
  The registry that is left when the handle is freed, which lives on if the program has kept
  its pointer: the adapters are removed, then destroyed with the handle.
\<close>

definition rsupport_handle_free :: "handle \<Rightarrow> RSupportStatus \<times> world" where
  "rsupport_handle_free h =
     (let w = h_world h;
          w1 = (if socketClientAdapter h \<noteq> None then removeAdapter w socket_id else w);
          w2 = (if consoleAdapter h \<noteq> None then removeAdapter w1 console_id else w1);
          w3 = (if consoleAdapter h \<noteq> None then destroy_adapter w2 console_id else w2);
          w4 = (if socketClientAdapter h \<noteq> None then destroy_adapter w3 socket_id else w3)
      in (RSupportStatus_Ok, w4))"

section \<open>Servicing\<close>

definition burst_property :: property where
  "burst_property = prop_of_int (Bool_int BRST_RBREAKOUT_MOVEMENT)"

definition frequency_property :: property where
  "frequency_property = prop_of_int (Uint8_int REGULATION_KERNEL_FREQUENCY)"

definition service_burst :: "rcore \<Rightarrow> handle \<Rightarrow> handle res" where
  "service_burst env h =
     (if auto_burst h
      then bindR (registry_set env (h_world h) burst_property (VBool True) DefaultReliability)
             (\<lambda>w. Inr (h\<lparr>h_world := w\<rparr>))
      else Inr h)"

definition uint8_value :: "val \<Rightarrow> 8 word" where
  "uint8_value v = (case v of VUint8 n \<Rightarrow> n | _ \<Rightarrow> 0)"

text \<open>
  The delay: \<open>frameEnd\<close> and \<open>next\<close> are the readings of the clock before and after it, \<open>clock k\<close>
  those of the handler while the console paces the frame.  The time to wait is one second divided
  by the frequency, less the duration. With the frequency 0 it is infinite, which only matters
  to \<^verbatim>\<open>sleep_for\<close>: there it is converted to a number of seconds, which C++ leaves undefined.
\<close>

definition service_delay ::
  "rcore \<Rightarrow> (string \<Rightarrow> bytes option) \<Rightarrow> parser \<Rightarrow> (nat \<Rightarrow> int) \<Rightarrow> int \<Rightarrow> int \<Rightarrow> handle \<Rightarrow>
     handle res option" where
  "service_delay env dec parse clock frameEnd next h =
     (if auto_frequency h
      then
        let duration = frameEnd - frameStart h; h1 = h\<lparr>frameTime := word_of_int duration\<rparr>
        in case registry_get (h_world h1) Uint8 frequency_property of
             Inl e \<Rightarrow> Some (Inl e)
           | Inr v \<Rightarrow>
               (case consoleAdapter h1 of
                  Some c \<Rightarrow>
                    (case pace env dec parse clock console_id 0 (c, h_world h1, h_input h1) of
                       None \<Rightarrow> None
                     | Some (Inl e) \<Rightarrow> Some (Inl e)
                     | Some (Inr (c1, w1, input1)) \<Rightarrow>
                         Some (Inr (h1\<lparr>consoleAdapter := Some c1, h_world := w1,
                           h_input := input1, frameStart := next\<rparr>)))
                | None \<Rightarrow>
                    if uint8_value v = 0 then Some (Inl FloatToInt)
                    else Some (Inr (h1\<lparr>h_sleeps := h_sleeps h1 @ [(uint8_value v, duration)],
                      frameStart := next\<rparr>)))
      else Some (Inr h))"

definition service_socket ::
  "rcore \<Rightarrow> os \<Rightarrow> parser \<Rightarrow> int \<Rightarrow> handle \<Rightarrow> (RSupportStatus \<times> handle) res" where
  "service_socket env os parse now h =
     (case socketClientAdapter h of
        None \<Rightarrow> Inr (RSupportStatus_Ok, h)
      | Some s \<Rightarrow> bindR (socket_service env os parse now socket_id (s, h_world h))
          (\<lambda>(status, s1, w1). Inr (status, h\<lparr>socketClientAdapter := Some s1, h_world := w1\<rparr>)))"

text \<open>\<^verbatim>\<open>rsupport_handle_service\<close>; \<open>None\<close> when it does not return.\<close>

definition rsupport_handle_service ::
  "rcore \<Rightarrow> os \<Rightarrow> (string \<Rightarrow> bytes option) \<Rightarrow> parser \<Rightarrow> (nat \<Rightarrow> int) \<Rightarrow> int \<Rightarrow> int \<Rightarrow> int \<Rightarrow>
     handle \<Rightarrow> (RSupportStatus \<times> handle) res option" where
  "rsupport_handle_service env os dec parse clock frameEnd next now h =
     (case service_burst env h of
        Inl e \<Rightarrow> Some (Inl e)
      | Inr h1 \<Rightarrow>
          (case service_delay env dec parse clock frameEnd next h1 of
             None \<Rightarrow> None
           | Some (Inl e) \<Rightarrow> Some (Inl e)
           | Some (Inr h2) \<Rightarrow> Some (service_socket env os parse now h2)))"

text \<open>The return type is 32 bits wide.\<close>

definition rsupport_handle_get_frame_time :: "handle \<Rightarrow> 32 word" where
  "rsupport_handle_get_frame_time h = ucast (frameTime h)"

section \<open>Connecting\<close>

definition RSupportDefaultSocketPath :: string where
  "RSupportDefaultSocketPath = ''/tmp/lrt_rmaster.socket''"

text \<open>\<open>env_path\<close> is the value of \<^verbatim>\<open>LRT_SOCKET_PATH\<close>.\<close>

definition getSocketPath :: "string option \<Rightarrow> string option \<Rightarrow> string" where
  "getSocketPath env_path path =
     (case path of
        Some (ch # cs) \<Rightarrow> ch # cs
      | _ \<Rightarrow> (case env_path of None \<Rightarrow> RSupportDefaultSocketPath | Some p \<Rightarrow> p))"

definition rsupport_handle_connect ::
  "rcore \<Rightarrow> os \<Rightarrow> string option \<Rightarrow> handle \<Rightarrow> string option \<Rightarrow> (RSupportStatus \<times> handle) res" where
  "rsupport_handle_connect env os env_path h pipe =
     (case socketClientAdapter h of
        None \<Rightarrow> Inr (RSupportStatus_Ok, h)
      | Some s \<Rightarrow>
          (case socket_connect os s (getSocketPath env_path pipe) of (status, s1) \<Rightarrow>
             let h1 = h\<lparr>socketClientAdapter := Some s1\<rparr>
             in if status \<noteq> RSupportStatus_Ok then Inr (status, h1)
                else if auto_frequency h1
                then bindR (with_adapter h1 socket_id (\<lambda>a.
                       bindR (subscribe env a Uint8 frequency_property DefaultReliability)
                         (\<lambda>r. Inr (snd r)))) (\<lambda>h2. Inr (status, h2))
                else Inr (status, h1)))"

definition rsupport_handle_connect_create ::
  "os \<Rightarrow> string option \<Rightarrow> handle \<Rightarrow> string option \<Rightarrow> RSupportStatus \<times> handle" where
  "rsupport_handle_connect_create os env_path h pipe =
     (case socketClientAdapter h of
        None \<Rightarrow> (RSupportStatus_Ok, h)
      | Some s \<Rightarrow> (case socket_connect os s (getSocketPath env_path pipe) of (status, s1) \<Rightarrow>
          (status, h\<lparr>socketClientAdapter := Some s1\<rparr>)))"

definition rsupport_handle_disconnect :: "os \<Rightarrow> handle \<Rightarrow> RSupportStatus \<times> handle" where
  "rsupport_handle_disconnect os h =
     (case socketClientAdapter h of
        None \<Rightarrow> (RSupportStatus_Ok, h)
      | Some s \<Rightarrow> (case socket_disconnect os s of (status, s1) \<Rightarrow>
          (status, h\<lparr>socketClientAdapter := Some s1\<rparr>)))"

section \<open>Access to the registry\<close>

text \<open>The getter and the setter of every class but \<^verbatim>\<open>String\<close>.\<close>

definition rsupport_handle_get :: "handle \<Rightarrow> Type \<Rightarrow> 16 word \<Rightarrow> val res" where
  "rsupport_handle_get h t p = registry_get (h_world h) t (prop_of_id p)"

definition rsupport_handle_set :: "rcore \<Rightarrow> handle \<Rightarrow> 16 word \<Rightarrow> val \<Rightarrow> handle res" where
  "rsupport_handle_set env h p v =
     bindR (registry_set env (h_world h) (prop_of_id p) v DefaultReliability)
       (\<lambda>w. Inr (h\<lparr>h_world := w\<rparr>))"

text \<open>An operation of whichever adapter the handle has.\<close>

definition on_adapters :: "handle \<Rightarrow> (adapter \<Rightarrow> adapter res) \<Rightarrow> handle res" where
  "on_adapters h f =
     bindR (if socketClientAdapter h \<noteq> None then with_adapter h socket_id f else Inr h) (\<lambda>h1.
       if consoleAdapter h1 \<noteq> None then with_adapter h1 console_id f else Inr h1)"

definition rsupport_handle_subscribe :: "rcore \<Rightarrow> handle \<Rightarrow> 16 word \<Rightarrow> 16 word \<Rightarrow> handle res" where
  "rsupport_handle_subscribe env h t p =
     on_adapters h (\<lambda>a. subscribeByTypeVal env a (Type_of (unat t)) p)"

definition rsupport_handle_unsubscribe ::
  "rcore \<Rightarrow> handle \<Rightarrow> 16 word \<Rightarrow> 16 word \<Rightarrow> handle res" where
  "rsupport_handle_unsubscribe env h t p =
     on_adapters h (\<lambda>a. unsubscribeByTypeVal env a (Type_of (unat t)) p)"

definition rsupport_handle_request :: "rcore \<Rightarrow> handle \<Rightarrow> 16 word \<Rightarrow> 16 word \<Rightarrow> handle res" where
  "rsupport_handle_request env h t p =
     on_adapters h (\<lambda>a. Inr (requestByTypeVal env a (Type_of (unat t)) p))"

definition rsupport_handle_get_registry :: "handle \<Rightarrow> world" where
  "rsupport_handle_get_registry h = h_world h"

section \<open>Well-formed handles\<close>

text \<open>The number of the handle's adapter.\<close>

definition own_adapter :: "handle \<Rightarrow> nat" where
  "own_adapter h = (if socketClientAdapter h \<noteq> None then socket_id else console_id)"

definition wf_handle :: "rcore \<Rightarrow> handle \<Rightarrow> bool" where
  "wf_handle env h \<longleftrightarrow> wf_world env (h_world h) \<and> length (options h) = 2 \<and>
     (socketClientAdapter h = None \<longleftrightarrow> consoleAdapter h \<noteq> None) \<and>
     connected_to (h_world h) (own_adapter h)"

lemma wf_handleD:
  assumes "wf_handle env h"
  shows "wf_world env (h_world h)" "length (options h) = 2"
    "connected_to (h_world h) (own_adapter h)"
  using assms by (simp_all add: wf_handle_def)

lemma option_numbers [simp]:
  "RSupportOption_int RSupportOption_AutoFrequency = 0"
  "RSupportOption_int RSupportOption_AutoMovementBurst = 1"
  by simp_all

lemma valid_burst [simp]: "valid_prop Bool (prop_index burst_property)"
  by (simp add: burst_property_def valid_prop_def)

lemma valid_frequency [simp]: "valid_prop Uint8 (prop_index frequency_property)"
  by (simp add: frequency_property_def valid_prop_def)

lemma put_pow_registry [simp]: "m_registry ((adapter_put pid v rel ^^ n) a) = m_registry a"
  by (induction n) simp_all

lemma connected_set_result [wf_intros]:
  "connected_to w i \<Longrightarrow> connected_to (set_result w pid v rel) i"
  by (auto simp: connected_to_def set_result_def Let_def)

section \<open>A new handle\<close>

lemma default_options: "set_default_options h = h\<lparr>options := (options h)[0 := True, 1 := True]\<rparr>"
  by (simp add: set_default_options_def rsupport_handle_set_option_def)

lemma handle_create_ok:
  assumes "wf_arrays memory"
  shows "\<exists>h a. rsupport_handle_create env memory rel0 sm mode now input all = Inr h \<and>
    wf_handle env h \<and> auto_frequency h \<and> auto_burst h \<and>
    (consoleAdapter h = None \<longleftrightarrow> mode = None) \<and> (socketClientAdapter h = None \<longleftrightarrow> mode \<noteq> None) \<and>
    m_adapters (h_world h) = [Some (own_adapter h)] \<and>
    w_heap (h_world h) = [own_adapter h \<mapsto> a] \<and> m_transmit_buffer a = [] \<and>
    (\<forall>t. t \<noteq> String \<longrightarrow> (\<forall>i. valid_prop t i \<longrightarrow>
       (\<exists>v. registry_map (h_world h) (t, i) = Some v \<and> val_eq v (entry_defaults t ! i))))"
proof -
  from registry_init_ok [OF assms] obtain w where w: "registry_init env memory = Inr w"
    "wf_world env w" and e: "m_adapters w = []" "w_heap w = Map.empty"
    and d: "\<And>t i. valid_prop t i \<Longrightarrow> t \<noteq> String \<Longrightarrow>
      \<exists>v. registry_map w (t, i) = Some v \<and> val_eq v (entry_defaults t ! i)"
    by blast
  have "wf_world env (registerAdapter (put_adapter w i (adapter_init env rel0 r b n a)) (Some i))"
    for i r b n a
    using wf_put_adapter [OF w(2), of "adapter_init env rel0 r b n a" i]
    by (simp add: registerAdapter_def wf_adapter_init wf_world_def)
  then show ?thesis
    using w d e
    by (auto simp: rsupport_handle_create_def Let_def default_options wf_handle_def own_adapter_def
        connected_to_def rsupport_handle_get_option_def registerAdapter_def ConsoleAdapter_new_def
        SocketClientAdapter_new_def adapter_init_def put_adapter_def registry_map_def)
qed

text \<open>Property C29.  A new handle is ready: creating one never fails, whatever the memory of the value
  arrays held; it has one adapter, the console's exactly when the environment asks for it, which
  is the only one that its registry knows; both options are on, every entry but the strings has
  its default, and nothing has been sent.\<close>

theorem handle_created:
  assumes "wf_arrays memory"
  shows "\<exists>h a. rsupport_handle_create env memory rel0 sm mode now input all = Inr h \<and>
    wf_handle env h \<and> auto_frequency h \<and> auto_burst h \<and>
    (consoleAdapter h = None \<longleftrightarrow> mode = None) \<and> (socketClientAdapter h = None \<longleftrightarrow> mode \<noteq> None) \<and>
    m_adapters (h_world h) = [Some (own_adapter h)] \<and>
    w_heap (h_world h) = [own_adapter h \<mapsto> a] \<and> m_transmit_buffer a = [] \<and>
    (\<forall>t. t \<noteq> String \<longrightarrow> (\<forall>i. valid_prop t i \<longrightarrow>
       (\<exists>v. registry_map (h_world h) (t, i) = Some v \<and> val_eq v (entry_defaults t ! i))))"
  using assms by (rule handle_create_ok)

definition zero_memory :: "string \<times> bytes" where
  "zero_memory = (replicate 108 (CHR 0x00), replicate 100 0)"

lemma wf_zero_arrays: "wf_arrays (m_arrays zero_world)"
  using wf_zero_world by (simp add: wf_world_def)

theorem handle_created_witness:
  "\<exists>h a. rsupport_handle_create example_rcore (m_arrays zero_world) 0 zero_memory (Some ''1'') 5
      [] False = Inr h \<and>
    wf_handle example_rcore h \<and> auto_frequency h \<and> auto_burst h \<and>
    (consoleAdapter h = None \<longleftrightarrow> Some ''1'' = None) \<and>
    (socketClientAdapter h = None \<longleftrightarrow> Some ''1'' \<noteq> None) \<and>
    m_adapters (h_world h) = [Some (own_adapter h)] \<and>
    w_heap (h_world h) = [own_adapter h \<mapsto> a] \<and> m_transmit_buffer a = [] \<and>
    (\<forall>t. t \<noteq> String \<longrightarrow> (\<forall>i. valid_prop t i \<longrightarrow>
       (\<exists>v. registry_map (h_world h) (t, i) = Some v \<and> val_eq v (entry_defaults t ! i))))"
  by (rule handle_created) (rule wf_zero_arrays)

section \<open>The movement burst\<close>

definition burst_sent :: "handle \<Rightarrow> bool" where
  "burst_sent h \<longleftrightarrow> registry_get (h_world h) Bool burst_property = Inr (VBool True)"

lemma service_burst_eq:
  assumes "wf_world env (h_world h)"
  shows "service_burst env h = Inr (if auto_burst h
    then h\<lparr>h_world := set_result (h_world h) burst_property (VBool True) DefaultReliability\<rparr>
    else h)"
  using registry_set_eq [OF assms, of "VBool True" burst_property]
  by (simp add: service_burst_def)

lemma set_result_again:
  assumes "wf_world env w" and "valid_prop (vtype v) (prop_index pid)" and "val_eq v v"
  shows "set_result (set_result w pid v rel) pid v rel = set_result w pid v rel"
proof -
  have "val_eq (m_arrays (set_result w pid v rel) (vtype v) ! prop_index pid) v"
    using set_result_arrays [OF assms(1,2), of rel "vtype v" "prop_index pid"] assms(3) by auto
  then show ?thesis by (simp add: set_result_def [of "set_result w pid v rel"] Let_def)
qed

text \<open>Property C32.  The movement burst is sent once, not in every frame: with the option on, the first
  frame sets the entry, which sends one message when the adapter has it subscribed and accepts
  properties; a further frame finds the value unchanged and does nothing at all, until an update
  has set the entry back.\<close>

theorem burst_only_once:
  assumes "wf_handle env h" and "auto_burst h"
    and "w_heap (h_world h) i = Some a" and "count_list (m_adapters (h_world h)) (Some i) = 1"
  shows "\<exists>h1 a1. service_burst env h = Inr h1 \<and> wf_handle env h1 \<and> burst_sent h1 \<and>
    w_heap (h_world h1) i = Some a1 \<and>
    m_transmit_buffer a1 = m_transmit_buffer a @
      (if \<not> burst_sent h \<and> m_acceptProperty a \<and> subscribed_at a Bool (prop_index burst_property)
       then [value_call burst_property (VBool True) DefaultReliability] else []) \<and>
    service_burst env h1 = Inr h1"
proof -
  let ?v = "VBool True" and ?w = "h_world h"
  let ?w1 = "set_result ?w burst_property ?v DefaultReliability"
  note wf = wf_handleD [OF assms(1)]
  have w1: "wf_world env ?w1" by (rule wf_set_result [OF wf(1)])
  have wf1: "wf_handle env (h\<lparr>h_world := ?w1\<rparr>)"
    using assms(1) wf w1 connected_set_result [OF wf(3)]
    by (simp add: wf_handle_def own_adapter_def)
  obtain b where b: "m_arrays ?w Bool ! prop_index burst_property = VBool b"
    using array_type [OF wf(1) valid_burst] by (auto elim!: vtype_eqE)
  have sent: "burst_sent h \<longleftrightarrow> b" "burst_sent (h\<lparr>h_world := ?w1\<rparr>)"
    using registry_get_eq [OF wf(1), of Bool burst_property] b
      registry_get_eq [OF w1, of Bool burst_property]
      set_result_arrays [OF wf(1), of ?v burst_property]
    by (simp_all add: burst_sent_def)
  have heap: "\<exists>a1. w_heap ?w1 i = Some a1 \<and> m_transmit_buffer a1 = m_transmit_buffer a @
      (if \<not> b \<and> m_acceptProperty a \<and> subscribed_at a Bool (prop_index burst_property)
       then [value_call burst_property ?v DefaultReliability] else [])"
    using forwarded_heap [OF assms(3), of ?v burst_property DefaultReliability] assms(3,4) b
    by (cases b) (auto simp: set_result_def Let_def)
  have "service_burst env (h\<lparr>h_world := ?w1\<rparr>) = Inr (h\<lparr>h_world := ?w1\<rparr>)"
    using service_burst_eq [of env "h\<lparr>h_world := ?w1\<rparr>"] wf_set_result [OF wf(1)] assms(2)
      set_result_again [OF wf(1), of ?v burst_property DefaultReliability]
    by (simp add: rsupport_handle_get_option_def)
  then show ?thesis
    using service_burst_eq [OF wf(1)] assms(2) wf1 sent heap by auto
qed

section \<open>A frame\<close>

text \<open>The handle after the burst, as a frame of the other parts.\<close>

lemma set_result_row: "t \<noteq> vtype v \<Longrightarrow> m_arrays (set_result w pid v rel) t = m_arrays w t"
  by (simp add: set_result_def Let_def)

lemma service_burst_wf:
  assumes "wf_handle env h"
  shows "\<exists>w. service_burst env h = Inr (h\<lparr>h_world := w\<rparr>) \<and> wf_handle env (h\<lparr>h_world := w\<rparr>) \<and>
    m_arrays w Uint8 = m_arrays (h_world h) Uint8"
proof (cases "auto_burst h")
  case True
  note wf = wf_handleD [OF assms]
  show ?thesis
    using True service_burst_eq [OF wf(1)] assms wf_set_result [OF wf(1)]
      connected_set_result [OF wf(3)]
    by (intro exI [of _ "set_result (h_world h) burst_property (VBool True) DefaultReliability"])
      (simp add: wf_handle_def own_adapter_def set_result_row)
next
  case False
  then show ?thesis
    using service_burst_eq [OF wf_handleD(1) [OF assms]] assms
    by (intro exI [of _ "h_world h"]) simp
qed

lemma frequency_value:
  assumes "wf_world env w"
  obtains n where "registry_get w Uint8 frequency_property = Inr (VUint8 n)"
    and "m_arrays w Uint8 ! prop_index frequency_property = VUint8 n"
  using array_type [OF assms valid_frequency] registry_get_eq [OF assms, of Uint8 frequency_property]
  by (auto elim!: vtype_eqE)

text \<open>A frame that would sleep for ever: on the socket, with the frequency 0.\<close>

definition infinite_sleep :: "handle \<Rightarrow> bool" where
  "infinite_sleep h \<longleftrightarrow> consoleAdapter h = None \<and> auto_frequency h \<and>
     registry_get (h_world h) Uint8 frequency_property = Inr (VUint8 0)"

lemma service_delay_infinite:
  "infinite_sleep h \<Longrightarrow> service_delay env dec parse clock frameEnd next h = Some (Inl FloatToInt)"
  by (simp add: infinite_sleep_def service_delay_def rsupport_handle_get_option_def Let_def
      uint8_value_def)

lemma service_delay_socket:
  assumes "consoleAdapter h = None" and "wf_world env (h_world h)" and "\<not> infinite_sleep h"
  obtains h2 where "service_delay env dec parse clock frameEnd next h = Some (Inr h2)"
    and "h_world h2 = h_world h" and "socketClientAdapter h2 = socketClientAdapter h"
proof -
  obtain n where n: "registry_get (h_world h) Uint8 frequency_property = Inr (VUint8 n)"
    using frequency_value [OF assms(2)] by blast
  then have "auto_frequency h \<longrightarrow> n \<noteq> 0" using assms(1,3) by (auto simp: infinite_sleep_def)
  with n assms(1) have "\<exists>h2. service_delay env dec parse clock frameEnd next h = Some (Inr h2) \<and>
      h_world h2 = h_world h \<and> socketClientAdapter h2 = socketClientAdapter h"
    by (simp add: service_delay_def rsupport_handle_get_option_def Let_def uint8_value_def)
  with that show thesis by blast
qed

lemma service_socket_ok:
  assumes "wf_handle env h" and "socketClientAdapter h = Some s" and "honest_reads os"
    and "list_all (safe_entry env) (service_entries os parse s)"
  shows "\<exists>s1 w1. service_socket env os parse now h =
      Inr (read_status (os_result os (s_trace s) (Sys_read (m_fd s) (length (m_buffer s))))
             (os_errno os (s_trace s) (Sys_read (m_fd s) (length (m_buffer s)))),
           h\<lparr>socketClientAdapter := Some s1, h_world := w1\<rparr>) \<and>
    wf_handle env (h\<lparr>socketClientAdapter := Some s1, h_world := w1\<rparr>)"
proof -
  note wf = wf_handleD [OF assms(1)]
  have i: "own_adapter h = socket_id" using assms(2) by (simp add: own_adapter_def)
  then obtain a where a: "w_heap (h_world h) socket_id = Some a" "m_registry a"
    using wf(3) by (auto simp: connected_to_def)
  from socket_service_ok [OF assms(3) wf(1) a assms(4), where now = now] obtain s1 w1 a1 where
    "socket_service env os parse now socket_id (s, h_world h) =
      Inr (read_status (os_result os (s_trace s) (Sys_read (m_fd s) (length (m_buffer s))))
             (os_errno os (s_trace s) (Sys_read (m_fd s) (length (m_buffer s)))), s1, w1)"
    "wf_world env w1" "w_heap w1 socket_id = Some a1" "m_registry a1" by blast
  then show ?thesis
    using assms(1,2)
    by (intro exI [of _ s1] exI [of _ w1])
      (simp add: service_socket_def wf_handle_def own_adapter_def connected_to_def)
qed

text \<open>Property C17.  Servicing a handle with a socket, when reads give as many bytes as they say and
  the messages that this read finishes are ones the handler is safe for. If frames are
  adjusted and the registry's frequency is 0, the call divides a second by it and leaves defined
  behaviour when it asks for the infinite sleep. In every other case it returns the status of
  the read: a frame that is adjusted records its duration, sleeps the time of the frequency
  less that duration and starts the next frame, one that is not leaves these alone.\<close>

theorem service_returns:
  assumes "wf_handle env h" and "socketClientAdapter h = Some s" and "honest_reads os"
    and "list_all (safe_entry env) (service_entries os parse s)"
  shows "\<exists>n. registry_get (h_world h) Uint8 frequency_property = Inr (VUint8 n) \<and>
    (if auto_frequency h \<and> n = 0
     then rsupport_handle_service env os dec parse clock frameEnd next now h = Some (Inl FloatToInt)
     else \<exists>h'. rsupport_handle_service env os dec parse clock frameEnd next now h =
         Some (Inr (read_status (os_result os (s_trace s) (Sys_read (m_fd s) (length (m_buffer s))))
           (os_errno os (s_trace s) (Sys_read (m_fd s) (length (m_buffer s)))), h')) \<and>
       wf_handle env h' \<and> options h' = options h \<and>
       (if auto_frequency h
        then frameStart h' = next \<and> frameTime h' = word_of_int (frameEnd - frameStart h) \<and>
          h_sleeps h' = h_sleeps h @ [(n, frameEnd - frameStart h)]
        else frameStart h' = frameStart h \<and> frameTime h' = frameTime h \<and>
          h_sleeps h' = h_sleeps h))"
proof -
  from service_burst_wf [OF assms(1)] obtain w where
    w: "service_burst env h = Inr (h\<lparr>h_world := w\<rparr>)" "wf_handle env (h\<lparr>h_world := w\<rparr>)"
      "m_arrays w Uint8 = m_arrays (h_world h) Uint8" by blast
  let ?h1 = "h\<lparr>h_world := w\<rparr>"
  have c: "consoleAdapter h = None" using assms(1,2) by (simp add: wf_handle_def)
  obtain n where n: "registry_get (h_world h) Uint8 frequency_property = Inr (VUint8 n)"
    using frequency_value [OF wf_handleD(1) [OF assms(1)]] by blast
  then have n1: "registry_get w Uint8 frequency_property = Inr (VUint8 n)"
    by (simp add: registry_get_def getFromArray_def arr_at_def w(3))
  show ?thesis
  proof (cases "auto_frequency h \<and> n = 0")
    case True
    then have "infinite_sleep ?h1"
      using c n1 by (simp add: infinite_sleep_def rsupport_handle_get_option_def)
    from service_delay_infinite [OF this] True n w(1) show ?thesis
      by (simp add: rsupport_handle_service_def)
  next
    case False
    define h2 where "h2 = (if auto_frequency h
      then ?h1\<lparr>frameTime := word_of_int (frameEnd - frameStart h),
             h_sleeps := h_sleeps h @ [(n, frameEnd - frameStart h)], frameStart := next\<rparr>
      else ?h1)"
    have d: "service_delay env dec parse clock frameEnd next ?h1 = Some (Inr h2)"
      using c n1 False
      by (auto simp: h2_def service_delay_def rsupport_handle_get_option_def Let_def uint8_value_def)
    have "wf_handle env h2" using w(2) by (simp add: h2_def wf_handle_def own_adapter_def)
    moreover have "socketClientAdapter h2 = Some s" using assms(2) by (simp add: h2_def)
    ultimately obtain s1 w1 where
      s: "service_socket env os parse now h2 =
        Inr (read_status (os_result os (s_trace s) (Sys_read (m_fd s) (length (m_buffer s))))
               (os_errno os (s_trace s) (Sys_read (m_fd s) (length (m_buffer s)))),
             h2\<lparr>socketClientAdapter := Some s1, h_world := w1\<rparr>)"
      "wf_handle env (h2\<lparr>socketClientAdapter := Some s1, h_world := w1\<rparr>)"
      using service_socket_ok [OF _ _ assms(3,4), of h2 now] by blast
    let ?h' = "h2\<lparr>socketClientAdapter := Some s1, h_world := w1\<rparr>"
    have "rsupport_handle_service env os dec parse clock frameEnd next now h =
      Some (Inr (read_status (os_result os (s_trace s) (Sys_read (m_fd s) (length (m_buffer s))))
        (os_errno os (s_trace s) (Sys_read (m_fd s) (length (m_buffer s)))), ?h'))"
      by (simp add: rsupport_handle_service_def w(1) d s(1))
    moreover have "options ?h' = options h \<and>
       (if auto_frequency h
        then frameStart ?h' = next \<and> frameTime ?h' = word_of_int (frameEnd - frameStart h) \<and>
          h_sleeps ?h' = h_sleeps h @ [(n, frameEnd - frameStart h)]
        else frameStart ?h' = frameStart h \<and> frameTime ?h' = frameTime h \<and>
          h_sleeps ?h' = h_sleeps h)" by (simp add: h2_def)
    ultimately show ?thesis using s(2) n False by auto
  qed
qed

section \<open>Frame time\<close>

lemma service_burst_frame:
  "service_burst env h = Inr h1 \<Longrightarrow>
   frameStart h1 = frameStart h \<and> options h1 = options h \<and> frameTime h1 = frameTime h"
  by (auto simp: service_burst_def bindR_Inr_conv split: if_splits)

lemma service_socket_frame:
  "service_socket env os parse now h = Inr (st, h1) \<Longrightarrow> frameTime h1 = frameTime h"
  by (auto simp: service_socket_def bindR_Inr_conv split: option.splits)

lemma service_delay_frame:
  assumes "service_delay env dec parse clock frameEnd next h = Some (Inr h1)"
  shows "frameTime h1 =
    (if auto_frequency h then word_of_int (frameEnd - frameStart h) else frameTime h)"
  using assms
  by (auto simp: service_delay_def Let_def split: if_splits sum.splits option.splits)

text \<open>Property C33.  The frame time is 32 bits wide: after a frame whose length is adjusted, with the
  socket or the console, it is the frame's duration in nanoseconds modulo \<^verbatim>\<open>2^32\<close>, which is the
  duration exactly when the clock was not set back and the frame took less than 4.3 seconds.\<close>

theorem frame_time_wraps:
  assumes "rsupport_handle_service env os dec parse clock frameEnd next now h = Some (Inr (st, h'))"
    and "auto_frequency h"
  shows "uint (rsupport_handle_get_frame_time h') = (frameEnd - frameStart h) mod 2 ^ 32 \<and>
    (uint (rsupport_handle_get_frame_time h') = frameEnd - frameStart h \<longleftrightarrow>
       0 \<le> frameEnd - frameStart h \<and> frameEnd - frameStart h < 2 ^ 32)"
proof -
  obtain h1 h2 where h: "service_burst env h = Inr h1"
    "service_delay env dec parse clock frameEnd next h1 = Some (Inr h2)"
    "service_socket env os parse now h2 = Inr (st, h')"
    using assms(1) by (auto simp: rsupport_handle_service_def split: sum.splits option.splits)
  then have "frameTime h' = word_of_int (frameEnd - frameStart h)"
    using assms(2) service_burst_frame [OF h(1)] service_delay_frame [OF h(2)]
      service_socket_frame [OF h(3)]
    by (simp add: rsupport_handle_get_option_def)
  then have "uint (rsupport_handle_get_frame_time h') = (frameEnd - frameStart h) mod 2 ^ 32"
    by (simp add: rsupport_handle_get_frame_time_def unsigned_ucast_eq uint_word_of_int
        take_bit_eq_mod mod_mod_cancel del: of_int_diff)
  then show ?thesis by (auto simp: mod_eq_self_iff_div_eq_0 zdiv_eq_0_iff)
qed

section \<open>Connecting a handle\<close>

definition subscribe_call :: tb_call where
  "subscribe_call = TbCtrl (word_of_nat (Type_int Uint8)) (ucast frequency_property) MSG_SUBSCRIBE
     (reliability_contains DefaultReliability Acknowledged)"

lemma frequency_number [simp]:
  "prop_size frequency_property = 12" "unat frequency_property = 12"
  "valid_prop Uint8 12"
  by (simp_all add: prop_size_def frequency_property_def prop_of_int_def valid_prop_def)

lemma subscribe_eq:
  assumes "wf_adapter env a" and "valid_prop t (prop_size pid)"
  shows "\<exists>m. subscribe env a t pid rel = Inr (tb_do env
      (a\<lparr>m_subscriptionsRemote := m, m_currentReliability := rel\<rparr>)
      (TbCtrl (word_of_nat (Type_int t)) (ucast pid) MSG_SUBSCRIBE
        (reliability_contains rel Acknowledged))) \<and>
    wf_map m \<and> sub_at m (Type_int t) (prop_size pid) = Inr True"
proof -
  have "wf_map (m_subscriptionsRemote a)" using assms(1) by (simp add: wf_adapter_def)
  from sub_map.wr_total [OF this assms(2), of True] obtain m where
    m: "sub_put (m_subscriptionsRemote a) (Type_int t) (prop_size pid) True = Inr m" "wf_map m"
    by auto
  moreover have "sub_at m (Type_int t) (prop_size pid) = Inr True"
    using sub_map.rd_wr [OF \<open>wf_map (m_subscriptionsRemote a)\<close> _ m(1), of t "prop_size pid"]
    by simp
  ultimately show ?thesis
    by (intro exI [of _ m]) (simp add: subscribe_def sendRequestSubscribeUpdate_def)
qed

text \<open>Property C31.  Connecting a handle tries the path given, or the one of the environment for an empty
  or missing one, or the default; if that succeeds and the frame length is to be adjusted, one
  message subscribes to the frequency and the adapter records it; in every other case nothing
  is sent, and a failure is reported as the socket's.\<close>

theorem connect_subscribes:
  assumes "wf_handle env h" and "socketClientAdapter h = Some s"
    and "w_heap (h_world h) socket_id = Some a"
  shows "\<exists>h' s1 a1 st. socket_connect os s (case pipe of Some (ch # cs) \<Rightarrow> ch # cs
      | _ \<Rightarrow> case_option RSupportDefaultSocketPath id env_path) = (st, s1) \<and>
    rsupport_handle_connect env os env_path h pipe = Inr (st, h') \<and> wf_handle env h' \<and>
    socketClientAdapter h' = Some s1 \<and> w_heap (h_world h') socket_id = Some a1 \<and>
    (if st = RSupportStatus_Ok \<and> auto_frequency h
     then m_transmit_buffer a1 = m_transmit_buffer a @ [subscribe_call] \<and>
       isSubscribedTo a1 Uint8 frequency_property = Inr True
     else h_world h' = h_world h)"
proof -
  note wf = wf_handleD [OF assms(1)]
  obtain st s1 where c: "socket_connect os s (getSocketPath env_path pipe) = (st, s1)"
    by fastforce
  have p: "getSocketPath env_path pipe = (case pipe of Some (ch # cs) \<Rightarrow> ch # cs
      | _ \<Rightarrow> case_option RSupportDefaultSocketPath id env_path)"
    by (auto simp: getSocketPath_def split: option.splits list.splits)
  have a: "wf_adapter env a" by (rule wf_world_adapter [OF wf(1) assms(3)])
  have i: "own_adapter h = socket_id" using assms(2) by (simp add: own_adapter_def)
  have r: "m_registry a" using wf(3) assms(3) by (simp add: i connected_to_def)
  from subscribe_eq [OF a, of Uint8 frequency_property DefaultReliability] obtain m where
    m: "subscribe env a Uint8 frequency_property DefaultReliability = Inr (tb_do env
      (a\<lparr>m_subscriptionsRemote := m, m_currentReliability := DefaultReliability\<rparr>) subscribe_call)"
      "wf_map m" "sub_at m (Type_int Uint8) 12 = Inr True"
    by (auto simp: subscribe_call_def)
  let ?a1 = "snd (tb_do env
    (a\<lparr>m_subscriptionsRemote := m, m_currentReliability := DefaultReliability\<rparr>) subscribe_call)"
  have a1: "wf_adapter env ?a1" "m_registry ?a1"
    "m_transmit_buffer ?a1 = m_transmit_buffer a @ [subscribe_call]"
    "isSubscribedTo ?a1 Uint8 frequency_property = Inr True"
    using a r m(2,3) by (simp_all add: tb_do_def wf_adapter_def isSubscribedTo_def)
  show ?thesis
  proof (cases "st = RSupportStatus_Ok \<and> auto_frequency h")
    case True
    have "wf_handle env (h\<lparr>socketClientAdapter := Some s1,
        h_world := put_adapter (h_world h) socket_id ?a1\<rparr>)"
      using assms(1,2) a1 wf_put_adapter [OF wf(1) a1(1), of socket_id]
      by (simp add: wf_handle_def own_adapter_def connected_to_def)
    then show ?thesis
      using True c p m(1) a1 assms(2,3)
      by (simp add: rsupport_handle_connect_def with_adapter_def Let_def
          rsupport_handle_get_option_def)
  next
    case False
    have "wf_handle env (h\<lparr>socketClientAdapter := Some s1\<rparr>)"
      using assms(1,2) by (simp add: wf_handle_def own_adapter_def)
    with False show ?thesis
      using c p assms(2,3)
      by (auto simp: rsupport_handle_connect_def Let_def rsupport_handle_get_option_def)
  qed
qed

section \<open>Freeing a handle\<close>


section \<open>Options and values\<close>

text \<open>An option reads as it was last set; options past the last one and a missing handle
  are refused, leave everything as it is, and read as off.\<close>

theorem options_behave:
  assumes "length (options h) = 2"
  shows "(case rsupport_handle_set_option handle n b of (st, handle') \<Rightarrow>
     (if n < 2 \<and> handle = Some h
      then st = RSupportStatus_Ok \<and> handle' = Some (h\<lparr>options := (options h)[n := b]\<rparr>) \<and>
        rsupport_handle_get_option handle' k =
          (if k = n then b else rsupport_handle_get_option handle k)
      else handle \<in> {None, Some h} \<longrightarrow> st = RSupportStatus_InvalidOption \<and> handle' = handle \<and>
        \<not> rsupport_handle_get_option handle n))"
  using assms
  by (auto simp: rsupport_handle_set_option_def rsupport_handle_get_option_def nth_list_update
      split: option.splits)

text \<open>The C interface sets and gets through the registry.\<close>

lemma handle_set_get:
  assumes "wf_handle env h" and "valid_prop (vtype v) (unat p)" and "vtype v \<noteq> String"
  shows "\<exists>h' x. rsupport_handle_set env h p v = Inr h' \<and> wf_handle env h' \<and>
    rsupport_handle_get h' (vtype v) p = Inr x \<and> (x = v \<or> val_eq x v)"
proof -
  let ?w = "set_result (h_world h) (prop_of_id p) v DefaultReliability"
  note wf = wf_handleD [OF assms(1)]
  have w: "wf_world env ?w" by (rule wf_set_result [OF wf(1)])
  have "registry_get ?w (vtype v) (prop_of_id p) = Inr (m_arrays ?w (vtype v) ! unat p)"
    using registry_get_eq [OF w, of "vtype v" "prop_of_id p"] assms(2) by simp
  moreover have "wf_handle env (h\<lparr>h_world := ?w\<rparr>)"
    using assms(1) w connected_set_result [OF wf(3)] by (simp add: wf_handle_def own_adapter_def)
  ultimately show ?thesis
    using registry_set_eq [OF wf(1), of v "prop_of_id p" DefaultReliability] assms(2,3)
      set_result_arrays [OF wf(1), of v "prop_of_id p" DefaultReliability "vtype v" "unat p"]
    by (auto simp: rsupport_handle_set_def rsupport_handle_get_def)
qed

section \<open>The class for SWIG\<close>

text \<open>
  \<^verbatim>\<open>class RSupport\<close>: its methods forward to the functions above; a path that is not given is
  empty, and subscribing to everything is the default.
\<close>

definition RSupport_new ::
  "rcore \<Rightarrow> arrays \<Rightarrow> Reliability \<Rightarrow> string \<times> bytes \<Rightarrow> string option \<Rightarrow> int \<Rightarrow> string list \<Rightarrow>
     bool option \<Rightarrow> handle res" where
  "RSupport_new env memory rel0 sm mode now input subscribedToAll =
     rsupport_handle_create env memory rel0 sm mode now input
       (case subscribedToAll of None \<Rightarrow> True | Some b \<Rightarrow> b)"

definition RSupport_registry :: "handle \<Rightarrow> world" where
  "RSupport_registry h = h_world h"

definition RSupport_connect ::
  "rcore \<Rightarrow> os \<Rightarrow> string option \<Rightarrow> handle \<Rightarrow> string option \<Rightarrow> (RSupportStatus \<times> handle) res" where
  "RSupport_connect env os env_path h path =
     rsupport_handle_connect env os env_path h
       (Some (case path of None \<Rightarrow> '''' | Some p \<Rightarrow> p))"

definition RSupport_create ::
  "os \<Rightarrow> string option \<Rightarrow> handle \<Rightarrow> string \<Rightarrow> RSupportStatus \<times> handle" where
  "RSupport_create os env_path h path = rsupport_handle_connect_create os env_path h (Some path)"

definition RSupport_disconnect :: "os \<Rightarrow> handle \<Rightarrow> RSupportStatus \<times> handle" where
  "RSupport_disconnect os h = rsupport_handle_disconnect os h"

definition RSupport_request :: "rcore \<Rightarrow> handle \<Rightarrow> 16 word \<Rightarrow> 16 word \<Rightarrow> handle res" where
  "RSupport_request env h t p = rsupport_handle_request env h t p"

definition RSupport_subscribe :: "rcore \<Rightarrow> handle \<Rightarrow> 16 word \<Rightarrow> 16 word \<Rightarrow> handle res" where
  "RSupport_subscribe env h t p = rsupport_handle_subscribe env h t p"

definition RSupport_unsubscribe :: "rcore \<Rightarrow> handle \<Rightarrow> 16 word \<Rightarrow> 16 word \<Rightarrow> handle res" where
  "RSupport_unsubscribe env h t p = rsupport_handle_unsubscribe env h t p"

definition RSupport_setOption ::
  "handle option \<Rightarrow> nat \<Rightarrow> bool \<Rightarrow> RSupportStatus \<times> handle option" where
  "RSupport_setOption h option value = rsupport_handle_set_option h option value"

definition RSupport_getOption :: "handle option \<Rightarrow> nat \<Rightarrow> bool" where
  "RSupport_getOption h option = rsupport_handle_get_option h option"

definition RSupport_getFrameTime :: "handle \<Rightarrow> 32 word" where
  "RSupport_getFrameTime h = rsupport_handle_get_frame_time h"

definition RSupport_service ::
  "rcore \<Rightarrow> os \<Rightarrow> (string \<Rightarrow> bytes option) \<Rightarrow> parser \<Rightarrow> (nat \<Rightarrow> int) \<Rightarrow> int \<Rightarrow> int \<Rightarrow> int \<Rightarrow>
     handle \<Rightarrow> (RSupportStatus \<times> handle) res option" where
  "RSupport_service env os dec parse clock frameEnd next now h =
     rsupport_handle_service env os dec parse clock frameEnd next now h"

section \<open>Witnesses\<close>

text \<open>A registry whose values are zero, but for the frequency, 60 as the default is.\<close>

definition paced_world :: world where
  "paced_world = zero_world\<lparr>m_arrays := (m_arrays zero_world)
     (Uint8 := (m_arrays zero_world Uint8)[prop_index frequency_property := VUint8 60])\<rparr>"

lemma wf_paced_world: "wf_world env paced_world"
proof -
  have "wf_arrays (m_arrays paced_world)"
    unfolding paced_world_def by (simp add: wf_arrays_put [OF wf_zero_arrays])
  then show ?thesis by (simp add: wf_world_def) (simp add: paced_world_def zero_world_def)
qed

lemma paced_world_frequency:
  "m_arrays paced_world Uint8 ! prop_index frequency_property = VUint8 60"
proof -
  have "length (m_arrays zero_world Uint8) = GetEntryCount Uint8" by (simp add: zero_world_def)
  then show ?thesis using valid_frequency by (simp add: paced_world_def valid_prop_def)
qed

lemma paced_world_arrays: "t \<noteq> Uint8 \<Longrightarrow> m_arrays paced_world t = m_arrays zero_world t"
  by (simp add: paced_world_def)

definition example_handle :: handle where
  "example_handle =
     \<lparr>h_world = paced_world\<lparr>m_adapters := [Some socket_id], w_heap := [socket_id \<mapsto> example_adapter]\<rparr>,
      socketClientAdapter = Some example_connected, consoleAdapter = None,
      options = [True, True], frameStart = 100, frameTime = 0, h_input = [], h_sleeps = []\<rparr>"

lemma example_handle_simps [simp]:
  "m_adapters (h_world example_handle) = [Some socket_id]"
  "w_heap (h_world example_handle) = [socket_id \<mapsto> example_adapter]"
  "socketClientAdapter example_handle = Some example_connected"
  "consoleAdapter example_handle = None" "options example_handle = [True, True]"
  "frameStart example_handle = 100" "own_adapter example_handle = socket_id"
  by (simp_all add: example_handle_def own_adapter_def)

lemma wf_example_handle: "wf_handle example_rcore example_handle"
  using wf_paced_world [of example_rcore, unfolded wf_world_def] example_heap
  by (simp add: wf_handle_def connected_to_def own_adapter_def)
    (simp add: example_handle_def wf_world_def)

lemma example_frequency: "registry_get (h_world example_handle) Uint8 frequency_property = Inr (VUint8 60)"
  using registry_get_eq [OF wf_handleD(1) [OF wf_example_handle], of Uint8 frequency_property]
    paced_world_frequency by (simp add: example_handle_def)

lemma quiet_parser_safe: "safe_parser env quiet_parser"
  by (simp add: safe_parser_def quiet_parser_def)

theorem burst_only_once_witness:
  "\<exists>h1 a1. service_burst example_rcore example_handle = Inr h1 \<and> wf_handle example_rcore h1 \<and>
    burst_sent h1 \<and> w_heap (h_world h1) socket_id = Some a1 \<and>
    m_transmit_buffer a1 = m_transmit_buffer example_adapter @
      (if \<not> burst_sent example_handle \<and> m_acceptProperty example_adapter \<and>
          subscribed_at example_adapter Bool (prop_index burst_property)
       then [value_call burst_property (VBool True) DefaultReliability] else []) \<and>
    service_burst example_rcore h1 = Inr h1"
  by (rule burst_only_once [OF wf_example_handle])
    (simp_all add: rsupport_handle_get_option_def)

theorem service_returns_witness:
  "(\<exists>h'. rsupport_handle_service example_rcore example_os example_dec quiet_parser (\<lambda>k. 0) 500
      700 9 example_handle =
      Some (Inr (read_status (os_result example_os (s_trace example_connected)
          (Sys_read (m_fd example_connected) (length (m_buffer example_connected))))
        (os_errno example_os (s_trace example_connected)
          (Sys_read (m_fd example_connected) (length (m_buffer example_connected)))), h')) \<and>
    wf_handle example_rcore h' \<and> frameStart h' = 700 \<and> frameTime h' = 400 \<and>
    h_sleeps h' = h_sleeps example_handle @ [(60, 400)])"
  using service_returns [OF wf_example_handle _ example_os_honest
      safe_service_entries [OF quiet_parser_safe], of example_connected example_dec "\<lambda>k. 0" 500 700 9]
  by (auto simp: example_frequency rsupport_handle_get_option_def)

text \<open>A handle whose frames neither burst nor sleep on the socket: the console's, paced.\<close>

definition idle_os :: os where
  "idle_os = \<lparr>os_result = \<lambda>t c. - 1, os_errno = \<lambda>t c. EAGAIN, os_read = \<lambda>t c. []\<rparr>"

definition slow_handle :: handle where
  "slow_handle = example_handle\<lparr>options := [True, False]\<rparr>"

definition slow_result :: handle where
  "slow_result = slow_handle\<lparr>frameTime := 5000000000, h_sleeps := [(60, 5000000000)],
     frameStart := 5000000200,
     socketClientAdapter := Some (example_connected
       \<lparr>s_trace := s_trace example_connected @ [(Sys_read 3 100, - 1)], m_rc := - 1\<rparr>)\<rparr>"

lemma slow_frame:
  "rsupport_handle_service example_rcore idle_os example_dec quiet_parser (\<lambda>k. 0) 5000000100
     5000000200 9 slow_handle = Some (Inr (RSupportStatus_Ok, slow_result))"
proof -
  show ?thesis
    using example_frequency by (simp add: rsupport_handle_service_def service_burst_def service_delay_def
        service_socket_def slow_handle_def slow_result_def rsupport_handle_get_option_def
        socket_service_def sys_def idle_os_def Let_def uint8_value_def read_status_def
        example_connected_simps) (simp add: example_handle_def)
qed

theorem frame_time_wraps_witness:
  "uint (rsupport_handle_get_frame_time slow_result) =
      (5000000100 - frameStart slow_handle) mod 2 ^ 32 \<and>
    (uint (rsupport_handle_get_frame_time slow_result) = 5000000100 - frameStart slow_handle \<longleftrightarrow>
       0 \<le> 5000000100 - frameStart slow_handle \<and>
       5000000100 - frameStart slow_handle < 2 ^ 32)"
  by (rule frame_time_wraps [OF slow_frame])
    (simp add: slow_handle_def rsupport_handle_get_option_def)

theorem connect_subscribes_witness:
  "\<exists>h' s1 a1 st. socket_connect example_os example_connected (case None of Some (ch # cs) \<Rightarrow> ch # cs
      | _ \<Rightarrow> case_option RSupportDefaultSocketPath id (Some ''/x'')) = (st, s1) \<and>
    rsupport_handle_connect example_rcore example_os (Some ''/x'') example_handle None =
      Inr (st, h') \<and> wf_handle example_rcore h' \<and>
    socketClientAdapter h' = Some s1 \<and> w_heap (h_world h') socket_id = Some a1 \<and>
    (if st = RSupportStatus_Ok \<and> auto_frequency example_handle
     then m_transmit_buffer a1 = m_transmit_buffer example_adapter @ [subscribe_call] \<and>
       isSubscribedTo a1 Uint8 frequency_property = Inr True
     else h_world h' = h_world example_handle)"
  by (rule connect_subscribes [OF wf_example_handle]) simp_all


end
