(* ===== verification/CInterface.thy ===== *)
theory CInterface
  imports RSupport
begin

text \<open>
  The typed accessors of the C interface, \<^verbatim>\<open>rsupport_handle_get_Int8\<close> and so on in
  \<^verbatim>\<open>RSupport/include/RSupport/RSupport.hpp\<close>: each is an instance of the macros that theory
  \<open>RSupport\<close> models, at one native type. A \<^verbatim>\<open>float\<close> and a \<^verbatim>\<open>double\<close> are bit patterns.
\<close>

section \<open>The accessors\<close>

text \<open>
  The value out of the array of its type. Values of the other types are not there; the
  result for them is never used.
\<close>

fun of_Int8 :: "val \<Rightarrow> 8 word res" where
  "of_Int8 (VInt8 x) = Inr x"
| "of_Int8 _ = Inl InactiveUnionMember"

fun of_Int16 :: "val \<Rightarrow> 16 word res" where
  "of_Int16 (VInt16 x) = Inr x"
| "of_Int16 _ = Inl InactiveUnionMember"

fun of_Int32 :: "val \<Rightarrow> 32 word res" where
  "of_Int32 (VInt32 x) = Inr x"
| "of_Int32 _ = Inl InactiveUnionMember"

fun of_Int64 :: "val \<Rightarrow> 64 word res" where
  "of_Int64 (VInt64 x) = Inr x"
| "of_Int64 _ = Inl InactiveUnionMember"

fun of_Uint8 :: "val \<Rightarrow> 8 word res" where
  "of_Uint8 (VUint8 x) = Inr x"
| "of_Uint8 _ = Inl InactiveUnionMember"

fun of_Uint16 :: "val \<Rightarrow> 16 word res" where
  "of_Uint16 (VUint16 x) = Inr x"
| "of_Uint16 _ = Inl InactiveUnionMember"

fun of_Uint32 :: "val \<Rightarrow> 32 word res" where
  "of_Uint32 (VUint32 x) = Inr x"
| "of_Uint32 _ = Inl InactiveUnionMember"

fun of_Uint64 :: "val \<Rightarrow> 64 word res" where
  "of_Uint64 (VUint64 x) = Inr x"
| "of_Uint64 _ = Inl InactiveUnionMember"

fun of_Float :: "val \<Rightarrow> 32 word res" where
  "of_Float (VFloat x) = Inr x"
| "of_Float _ = Inl InactiveUnionMember"

fun of_Double :: "val \<Rightarrow> 64 word res" where
  "of_Double (VDouble x) = Inr x"
| "of_Double _ = Inl InactiveUnionMember"

fun of_Bool :: "val \<Rightarrow> bool res" where
  "of_Bool (VBool x) = Inr x"
| "of_Bool _ = Inl InactiveUnionMember"

definition rsupport_handle_get_Int8 :: "handle \<Rightarrow> 16 word \<Rightarrow> 8 word res" where
  "rsupport_handle_get_Int8 h property = bindR (rsupport_handle_get h Int8 property) of_Int8"

definition rsupport_handle_get_Int16 :: "handle \<Rightarrow> 16 word \<Rightarrow> 16 word res" where
  "rsupport_handle_get_Int16 h property = bindR (rsupport_handle_get h Int16 property) of_Int16"

definition rsupport_handle_get_Int32 :: "handle \<Rightarrow> 16 word \<Rightarrow> 32 word res" where
  "rsupport_handle_get_Int32 h property = bindR (rsupport_handle_get h Int32 property) of_Int32"

definition rsupport_handle_get_Int64 :: "handle \<Rightarrow> 16 word \<Rightarrow> 64 word res" where
  "rsupport_handle_get_Int64 h property = bindR (rsupport_handle_get h Int64 property) of_Int64"

definition rsupport_handle_get_Uint8 :: "handle \<Rightarrow> 16 word \<Rightarrow> 8 word res" where
  "rsupport_handle_get_Uint8 h property = bindR (rsupport_handle_get h Uint8 property) of_Uint8"

definition rsupport_handle_get_Uint16 :: "handle \<Rightarrow> 16 word \<Rightarrow> 16 word res" where
  "rsupport_handle_get_Uint16 h property = bindR (rsupport_handle_get h Uint16 property) of_Uint16"

definition rsupport_handle_get_Uint32 :: "handle \<Rightarrow> 16 word \<Rightarrow> 32 word res" where
  "rsupport_handle_get_Uint32 h property = bindR (rsupport_handle_get h Uint32 property) of_Uint32"

definition rsupport_handle_get_Uint64 :: "handle \<Rightarrow> 16 word \<Rightarrow> 64 word res" where
  "rsupport_handle_get_Uint64 h property = bindR (rsupport_handle_get h Uint64 property) of_Uint64"

definition rsupport_handle_get_Float :: "handle \<Rightarrow> 16 word \<Rightarrow> 32 word res" where
  "rsupport_handle_get_Float h property = bindR (rsupport_handle_get h Float property) of_Float"

definition rsupport_handle_get_Double :: "handle \<Rightarrow> 16 word \<Rightarrow> 64 word res" where
  "rsupport_handle_get_Double h property = bindR (rsupport_handle_get h Double property) of_Double"

definition rsupport_handle_get_Bool :: "handle \<Rightarrow> 16 word \<Rightarrow> bool res" where
  "rsupport_handle_get_Bool h property = bindR (rsupport_handle_get h Bool property) of_Bool"

definition rsupport_handle_set_Int8 :: "rcore \<Rightarrow> handle \<Rightarrow> 16 word \<Rightarrow> 8 word \<Rightarrow> handle res" where
  "rsupport_handle_set_Int8 env h property v = rsupport_handle_set env h property (VInt8 v)"

definition rsupport_handle_set_Int16 :: "rcore \<Rightarrow> handle \<Rightarrow> 16 word \<Rightarrow> 16 word \<Rightarrow> handle res" where
  "rsupport_handle_set_Int16 env h property v = rsupport_handle_set env h property (VInt16 v)"

definition rsupport_handle_set_Int32 :: "rcore \<Rightarrow> handle \<Rightarrow> 16 word \<Rightarrow> 32 word \<Rightarrow> handle res" where
  "rsupport_handle_set_Int32 env h property v = rsupport_handle_set env h property (VInt32 v)"

definition rsupport_handle_set_Int64 :: "rcore \<Rightarrow> handle \<Rightarrow> 16 word \<Rightarrow> 64 word \<Rightarrow> handle res" where
  "rsupport_handle_set_Int64 env h property v = rsupport_handle_set env h property (VInt64 v)"

definition rsupport_handle_set_Uint8 :: "rcore \<Rightarrow> handle \<Rightarrow> 16 word \<Rightarrow> 8 word \<Rightarrow> handle res" where
  "rsupport_handle_set_Uint8 env h property v = rsupport_handle_set env h property (VUint8 v)"

definition rsupport_handle_set_Uint16 :: "rcore \<Rightarrow> handle \<Rightarrow> 16 word \<Rightarrow> 16 word \<Rightarrow> handle res" where
  "rsupport_handle_set_Uint16 env h property v = rsupport_handle_set env h property (VUint16 v)"

definition rsupport_handle_set_Uint32 :: "rcore \<Rightarrow> handle \<Rightarrow> 16 word \<Rightarrow> 32 word \<Rightarrow> handle res" where
  "rsupport_handle_set_Uint32 env h property v = rsupport_handle_set env h property (VUint32 v)"

definition rsupport_handle_set_Uint64 :: "rcore \<Rightarrow> handle \<Rightarrow> 16 word \<Rightarrow> 64 word \<Rightarrow> handle res" where
  "rsupport_handle_set_Uint64 env h property v = rsupport_handle_set env h property (VUint64 v)"

definition rsupport_handle_set_Float :: "rcore \<Rightarrow> handle \<Rightarrow> 16 word \<Rightarrow> 32 word \<Rightarrow> handle res" where
  "rsupport_handle_set_Float env h property v = rsupport_handle_set env h property (VFloat v)"

definition rsupport_handle_set_Double :: "rcore \<Rightarrow> handle \<Rightarrow> 16 word \<Rightarrow> 64 word \<Rightarrow> handle res" where
  "rsupport_handle_set_Double env h property v = rsupport_handle_set env h property (VDouble v)"

definition rsupport_handle_set_Bool :: "rcore \<Rightarrow> handle \<Rightarrow> 16 word \<Rightarrow> bool \<Rightarrow> handle res" where
  "rsupport_handle_set_Bool env h property v = rsupport_handle_set env h property (VBool v)"

lemmas c_accessor_defs =
  rsupport_handle_get_Int8_def rsupport_handle_set_Int8_def
  rsupport_handle_get_Int16_def rsupport_handle_set_Int16_def
  rsupport_handle_get_Int32_def rsupport_handle_set_Int32_def
  rsupport_handle_get_Int64_def rsupport_handle_set_Int64_def
  rsupport_handle_get_Uint8_def rsupport_handle_set_Uint8_def
  rsupport_handle_get_Uint16_def rsupport_handle_set_Uint16_def
  rsupport_handle_get_Uint32_def rsupport_handle_set_Uint32_def
  rsupport_handle_get_Uint64_def rsupport_handle_set_Uint64_def
  rsupport_handle_get_Float_def rsupport_handle_set_Float_def
  rsupport_handle_get_Double_def rsupport_handle_set_Double_def
  rsupport_handle_get_Bool_def rsupport_handle_set_Bool_def

section \<open>A value that was set is read back\<close>

text \<open>What a setter and the getter of its type promise about one entry.\<close>

definition read_back ::
  "rcore \<Rightarrow> Type \<Rightarrow> 16 word \<Rightarrow> handle res \<Rightarrow> (handle \<Rightarrow> 'a res) \<Rightarrow> ('a \<Rightarrow> bool) \<Rightarrow> bool" where
  "read_back env t p written_to getter same \<longleftrightarrow>
     (if valid_prop t (unat p)
      then \<exists>h' y. written_to = Inr h' \<and> wf_handle env h' \<and> getter h' = Inr y \<and> same y
      else written_to = Inl OutOfBounds)"

lemma handle_read_back:
  assumes "wf_handle env h" and "vtype v \<noteq> String"
    and "\<And>x. x = v \<or> val_eq x v \<Longrightarrow> \<exists>y. of_val x = Inr y \<and> same y"
  shows "read_back env (vtype v) p (rsupport_handle_set env h p v)
    (\<lambda>h'. bindR (rsupport_handle_get h' (vtype v) p) of_val) same"
proof (cases "valid_prop (vtype v) (unat p)")
  case True
  from handle_set_get [OF assms(1) this assms(2)] obtain h' x where
    "rsupport_handle_set env h p v = Inr h'" "wf_handle env h'"
    "rsupport_handle_get h' (vtype v) p = Inr x" "x = v \<or> val_eq x v" by blast
  with assms(3) [of x] True show ?thesis by (auto simp: read_back_def)
next
  case False
  then show ?thesis
    using registry_get_eq [OF wf_handleD(1) [OF assms(1)], of "vtype v" "prop_of_id p"]
    by (simp add: read_back_def rsupport_handle_set_def registry_set_def)
qed

lemma val_eq_floating:
  "val_eq x (VFloat y) \<longleftrightarrow> (\<exists>z. x = VFloat z \<and> float_eq z y)"
  "val_eq x (VDouble y') \<longleftrightarrow> (\<exists>z. x = VDouble z \<and> double_eq z y')"
  by (cases x; simp)+

lemmas typed_read_back =
  handle_read_back [where v = "VInt8 xInt8", unfolded vtype.simps]
  handle_read_back [where v = "VInt16 xInt16", unfolded vtype.simps]
  handle_read_back [where v = "VInt32 xInt32", unfolded vtype.simps]
  handle_read_back [where v = "VInt64 xInt64", unfolded vtype.simps]
  handle_read_back [where v = "VUint8 xUint8", unfolded vtype.simps]
  handle_read_back [where v = "VUint16 xUint16", unfolded vtype.simps]
  handle_read_back [where v = "VUint32 xUint32", unfolded vtype.simps]
  handle_read_back [where v = "VUint64 xUint64", unfolded vtype.simps]
  handle_read_back [where v = "VFloat xFloat", unfolded vtype.simps]
  handle_read_back [where v = "VDouble xDouble", unfolded vtype.simps]
  handle_read_back [where v = "VBool xBool", unfolded vtype.simps]
  for xInt8 xInt16 xInt32 xInt64 xUint8 xUint16 xUint32 xUint64 xFloat xDouble xBool

text \<open>Property C30.  What a typed setter of the C interface sets, its getter reads: the same number
  or boolean, for the floating-point types one that compares equal or has the same bits; an entry number
  outside the catalogue, which the interface does not check, is an access outside the array.\<close>

theorem c_accessors_roundtrip:
  assumes "wf_handle env h"
  shows
    "read_back env Int8 p (rsupport_handle_set_Int8 env h p xInt8)
       (\<lambda>h'. rsupport_handle_get_Int8 h' p) ((=) xInt8) \<and>
     read_back env Int16 p (rsupport_handle_set_Int16 env h p xInt16)
       (\<lambda>h'. rsupport_handle_get_Int16 h' p) ((=) xInt16) \<and>
     read_back env Int32 p (rsupport_handle_set_Int32 env h p xInt32)
       (\<lambda>h'. rsupport_handle_get_Int32 h' p) ((=) xInt32) \<and>
     read_back env Int64 p (rsupport_handle_set_Int64 env h p xInt64)
       (\<lambda>h'. rsupport_handle_get_Int64 h' p) ((=) xInt64) \<and>
     read_back env Uint8 p (rsupport_handle_set_Uint8 env h p xUint8)
       (\<lambda>h'. rsupport_handle_get_Uint8 h' p) ((=) xUint8) \<and>
     read_back env Uint16 p (rsupport_handle_set_Uint16 env h p xUint16)
       (\<lambda>h'. rsupport_handle_get_Uint16 h' p) ((=) xUint16) \<and>
     read_back env Uint32 p (rsupport_handle_set_Uint32 env h p xUint32)
       (\<lambda>h'. rsupport_handle_get_Uint32 h' p) ((=) xUint32) \<and>
     read_back env Uint64 p (rsupport_handle_set_Uint64 env h p xUint64)
       (\<lambda>h'. rsupport_handle_get_Uint64 h' p) ((=) xUint64) \<and>
     read_back env Float p (rsupport_handle_set_Float env h p xFloat)
       (\<lambda>h'. rsupport_handle_get_Float h' p) (\<lambda>y. y = xFloat \<or> float_eq y xFloat) \<and>
     read_back env Double p (rsupport_handle_set_Double env h p xDouble)
       (\<lambda>h'. rsupport_handle_get_Double h' p) (\<lambda>y. y = xDouble \<or> double_eq y xDouble) \<and>
     read_back env Bool p (rsupport_handle_set_Bool env h p xBool)
       (\<lambda>h'. rsupport_handle_get_Bool h' p) ((=) xBool)"
  unfolding c_accessor_defs
  by (intro conjI typed_read_back assms) (auto simp: val_eq_floating)

theorem c_accessors_roundtrip_witness:
    "read_back example_rcore Int8 0 (rsupport_handle_set_Int8 example_rcore example_handle 0 (-5))
       (\<lambda>h'. rsupport_handle_get_Int8 h' 0) ((=) (-5)) \<and>
     read_back example_rcore Int16 0 (rsupport_handle_set_Int16 example_rcore example_handle 0 300)
       (\<lambda>h'. rsupport_handle_get_Int16 h' 0) ((=) 300) \<and>
     read_back example_rcore Int32 0 (rsupport_handle_set_Int32 example_rcore example_handle 0 7)
       (\<lambda>h'. rsupport_handle_get_Int32 h' 0) ((=) 7) \<and>
     read_back example_rcore Int64 0 (rsupport_handle_set_Int64 example_rcore example_handle 0 8)
       (\<lambda>h'. rsupport_handle_get_Int64 h' 0) ((=) 8) \<and>
     read_back example_rcore Uint8 0 (rsupport_handle_set_Uint8 example_rcore example_handle 0 255)
       (\<lambda>h'. rsupport_handle_get_Uint8 h' 0) ((=) 255) \<and>
     read_back example_rcore Uint16 0 (rsupport_handle_set_Uint16 example_rcore example_handle 0 9)
       (\<lambda>h'. rsupport_handle_get_Uint16 h' 0) ((=) 9) \<and>
     read_back example_rcore Uint32 0 (rsupport_handle_set_Uint32 example_rcore example_handle 0 10)
       (\<lambda>h'. rsupport_handle_get_Uint32 h' 0) ((=) 10) \<and>
     read_back example_rcore Uint64 0 (rsupport_handle_set_Uint64 example_rcore example_handle 0 11)
       (\<lambda>h'. rsupport_handle_get_Uint64 h' 0) ((=) 11) \<and>
     read_back example_rcore Float 0 (rsupport_handle_set_Float example_rcore example_handle 0 0x3F800000)
       (\<lambda>h'. rsupport_handle_get_Float h' 0) (\<lambda>y. y = 0x3F800000 \<or> float_eq y 0x3F800000) \<and>
     read_back example_rcore Double 0 (rsupport_handle_set_Double example_rcore example_handle 0 0)
       (\<lambda>h'. rsupport_handle_get_Double h' 0) (\<lambda>y. y = 0 \<or> double_eq y 0) \<and>
     read_back example_rcore Bool 0 (rsupport_handle_set_Bool example_rcore example_handle 0 True)
       (\<lambda>h'. rsupport_handle_get_Bool h' 0) ((=) True)"
  by (rule c_accessors_roundtrip) (rule wf_example_handle)

end
