(* ===== verification/Session.thy ===== *)
theory Session
  imports RSupport
begin

text \<open>
  The life of a handle: a program creates it, calls the functions of the C interface in any
  order, and frees it. The theorem says that this never leaves defined behaviour, and which
  handles can fail to return from a call.
\<close>

section \<open>Calls\<close>

text \<open>
  A call with its arguments; what the system gives to it is with them: the value of
  \<^verbatim>\<open>LRT_SOCKET_PATH\<close>, the readings of the clock.
\<close>

datatype handle_call =
    Call_set "16 word" val
  | Call_get Type "16 word"
  | Call_subscribe "16 word" "16 word"
  | Call_unsubscribe "16 word" "16 word"
  | Call_request "16 word" "16 word"
  | Call_option nat bool
  | Call_connect "string option" "string option"
  | Call_connect_create "string option" "string option"
  | Call_disconnect
  | Call_service "nat \<Rightarrow> int" int int int

text \<open>The handle after a call; \<open>None\<close> when it does not return.\<close>

fun do_call ::
  "rcore \<Rightarrow> os \<Rightarrow> (string \<Rightarrow> bytes option) \<Rightarrow> parser \<Rightarrow> handle_call \<Rightarrow> handle \<Rightarrow> handle res option" where
  "do_call env os dec parse (Call_set p v) h = Some (rsupport_handle_set env h p v)"
| "do_call env os dec parse (Call_get t p) h =
     Some (bindR (rsupport_handle_get h t p) (\<lambda>_. Inr h))"
| "do_call env os dec parse (Call_subscribe t p) h = Some (rsupport_handle_subscribe env h t p)"
| "do_call env os dec parse (Call_unsubscribe t p) h =
     Some (rsupport_handle_unsubscribe env h t p)"
| "do_call env os dec parse (Call_request t p) h = Some (rsupport_handle_request env h t p)"
| "do_call env os dec parse (Call_option n b) h =
     Some (Inr (the (snd (rsupport_handle_set_option (Some h) n b))))"
| "do_call env os dec parse (Call_connect env_path pipe) h =
     Some (bindR (rsupport_handle_connect env os env_path h pipe) (\<lambda>r. Inr (snd r)))"
| "do_call env os dec parse (Call_connect_create env_path pipe) h =
     Some (Inr (snd (rsupport_handle_connect_create os env_path h pipe)))"
| "do_call env os dec parse Call_disconnect h =
     Some (Inr (snd (rsupport_handle_disconnect os h)))"
| "do_call env os dec parse (Call_service clock frameEnd next now) h =
     map_option (\<lambda>r. bindR r (\<lambda>r. Inr (snd r)))
       (rsupport_handle_service env os dec parse clock frameEnd next now h)"

fun do_calls ::
  "rcore \<Rightarrow> os \<Rightarrow> (string \<Rightarrow> bytes option) \<Rightarrow> parser \<Rightarrow> handle_call list \<Rightarrow> handle \<Rightarrow>
     handle res option" where
  "do_calls env os dec parse [] h = Some (Inr h)"
| "do_calls env os dec parse (c # cs) h =
     (case do_call env os dec parse c h of
        None \<Rightarrow> None
      | Some (Inl e) \<Rightarrow> Some (Inl e)
      | Some (Inr h1) \<Rightarrow> do_calls env os dec parse cs h1)"

text \<open>
  What the interface does not check: an entry has to be one of the catalogue, unless its type is
  none at all, which subscribing and requesting ignore.
\<close>

fun ok_call :: "handle_call \<Rightarrow> bool" where
  "ok_call (Call_set p v) \<longleftrightarrow> vtype v \<noteq> String \<and> valid_prop (vtype v) (unat p)"
| "ok_call (Call_get t p) \<longleftrightarrow> valid_prop t (unat p)"
| "ok_call (Call_subscribe t p) \<longleftrightarrow> (case Type_of (unat t) of None \<Rightarrow> True | Some s \<Rightarrow> valid_prop s (unat p))"
| "ok_call (Call_unsubscribe t p) \<longleftrightarrow> (case Type_of (unat t) of None \<Rightarrow> True | Some s \<Rightarrow> valid_prop s (unat p))"
| "ok_call _ \<longleftrightarrow> True"

section \<open>Each call keeps the handle well-formed\<close>

text \<open>A handle of the same kind: with a socket, or with the console.\<close>

definition same_kind :: "handle \<Rightarrow> handle \<Rightarrow> bool" where
  "same_kind h h' \<longleftrightarrow> (socketClientAdapter h' = None \<longleftrightarrow> socketClientAdapter h = None)"

lemma wf_handle_same:
  assumes "wf_handle env h" and "h_world h' = h_world h" and "length (options h') = 2"
    and "socketClientAdapter h' = None \<longleftrightarrow> socketClientAdapter h = None"
    and "consoleAdapter h' = None \<longleftrightarrow> consoleAdapter h = None"
  shows "wf_handle env h'"
proof -
  have "own_adapter h' = own_adapter h" using assms(4) by (simp add: own_adapter_def)
  then show ?thesis using assms unfolding wf_handle_def by metis
qed

lemma on_adapters_ok:
  assumes "wf_handle env h"
    and "\<And>a. wf_adapter env a \<Longrightarrow> \<exists>a'. f a = Inr a' \<and> wf_adapter env a' \<and> m_registry a' = m_registry a"
  shows "\<exists>h'. on_adapters h f = Inr h' \<and> wf_handle env h' \<and> same_kind h h'"
proof -
  let ?i = "own_adapter h"
  note wf = wf_handleD [OF assms(1)]
  obtain a where a: "w_heap (h_world h) ?i = Some a" "m_registry a"
    using wf(3) by (auto simp: connected_to_def)
  from assms(2) [OF wf_world_adapter [OF wf(1) a(1)]] obtain a' where
    a': "f a = Inr a'" "wf_adapter env a'" "m_registry a'" using a(2) by auto
  let ?h = "h\<lparr>h_world := put_adapter (h_world h) ?i a'\<rparr>"
  have "on_adapters h f = Inr ?h"
    using assms(1) a(1) a'(1)
    by (auto simp: on_adapters_def with_adapter_def own_adapter_def wf_handle_def split: if_splits)
  moreover have "wf_handle env ?h"
    using assms(1) a' wf_put_adapter [OF wf(1) a'(2), of ?i]
    by (simp add: wf_handle_def own_adapter_def connected_to_def)
  ultimately show ?thesis by (simp add: same_kind_def)
qed

lemma byTypeVal_ok:
  assumes "wf_adapter env a" and "\<And>s. Type_of (unat t) = Some s \<Longrightarrow> valid_prop s (unat p)"
  shows "\<exists>a'. subscribeByTypeVal env a (Type_of (unat t)) p = Inr a' \<and> wf_adapter env a' \<and>
      m_registry a' = m_registry a"
    and "\<exists>a'. unsubscribeByTypeVal env a (Type_of (unat t)) p = Inr a' \<and> wf_adapter env a' \<and>
      m_registry a' = m_registry a"
proof -
  have m: "\<exists>m. sub_put (m_subscriptionsRemote a) (Type_int s) (prop_size (prop_of_id p)) b = Inr m \<and> wf_map m"
    if "Type_of (unat t) = Some s" for s b
  proof -
    have "valid_prop s (prop_size (prop_of_id p))"
      using assms(2) [OF that] prop_size_id [of s p] by simp
    then show ?thesis using sub_map.wr_total [of "m_subscriptionsRemote a" s _ b] assms(1)
      by (auto simp: wf_adapter_def)
  qed
  show "\<exists>a'. subscribeByTypeVal env a (Type_of (unat t)) p = Inr a' \<and> wf_adapter env a' \<and>
      m_registry a' = m_registry a"
    using m [of _ True] assms(1)
    by (cases "Type_of (unat t)") (fastforce simp: subscribeByTypeVal_def subscribe_def
        sendRequestSubscribeUpdate_def tb_do_def wf_adapter_def)+
  show "\<exists>a'. unsubscribeByTypeVal env a (Type_of (unat t)) p = Inr a' \<and> wf_adapter env a' \<and>
      m_registry a' = m_registry a"
    using m [of _ False] assms(1)
    by (cases "Type_of (unat t)") (fastforce simp: unsubscribeByTypeVal_def unsubscribe_def
        sendRequestSubscribeUpdate_def tb_do_def wf_adapter_def)+
qed

lemma requestByTypeVal_ok:
  "wf_adapter env a \<Longrightarrow> wf_adapter env (requestByTypeVal env a ty p) \<and>
   m_registry (requestByTypeVal env a ty p) = m_registry a"
  by (simp add: requestByTypeVal_def request_def sendRequestSubscribeUpdate_def tb_do_def
      wf_adapter_def split: option.split)

lemma connect_ok:
  assumes "wf_handle env h"
  shows "\<exists>st h'. rsupport_handle_connect env os env_path h pipe = Inr (st, h') \<and>
    wf_handle env h' \<and> same_kind h h'"
proof (cases "socketClientAdapter h")
  case None
  with assms show ?thesis by (simp add: rsupport_handle_connect_def same_kind_def)
next
  case (Some s)
  note wf = wf_handleD [OF assms]
  have i: "own_adapter h = socket_id" using Some by (simp add: own_adapter_def)
  obtain a where a: "w_heap (h_world h) socket_id = Some a" "m_registry a"
    using wf(3) by (auto simp: connected_to_def i)
  obtain st s1 where c: "socket_connect os s (getSocketPath env_path pipe) = (st, s1)"
    by fastforce
  let ?h = "h\<lparr>socketClientAdapter := Some s1\<rparr>"
  have h: "wf_handle env ?h" using assms Some by (simp add: wf_handle_def own_adapter_def)
  have "valid_prop Uint8 (prop_size frequency_property)" by simp
  from subscribe_eq [OF wf_world_adapter [OF wf(1) a(1)] this, of DefaultReliability] obtain a1 ev where
    a1: "subscribe env a Uint8 frequency_property DefaultReliability = Inr (ev, a1)"
      "wf_adapter env a1" "m_registry a1"
    using wf_world_adapter [OF wf(1) a(1)] a(2) by (auto simp: tb_do_def wf_adapter_def)
  have "wf_handle env (?h\<lparr>h_world := put_adapter (h_world h) socket_id a1\<rparr>)"
    using h a1(3) wf_put_adapter [OF wf(1) a1(2), of socket_id]
    by (simp add: wf_handle_def own_adapter_def connected_to_def)
  with h show ?thesis
    using Some c a1(1) a(1)
    by (simp add: rsupport_handle_connect_def with_adapter_def Let_def same_kind_def
        rsupport_handle_get_option_def)
qed

text \<open>A frame with the console: the pacing loop ends with the console's state or never.\<close>

lemma pace_ok:
  assumes "safe_parser env parse" and "wf_world env w" and "connected_to w i"
    and "pace env dec parse clock i k (c, w, input) = Some r"
  shows "\<exists>c' w' input'. r = Inr (c', w', input') \<and> wf_world env w' \<and> connected_to w' i"
proof -
  let ?keep = "\<lambda>(c :: console, w, input :: string list). wf_world env w \<and> connected_to w i"
  have "\<exists>d s'. pace_round env dec parse clock i k s = Inr (d, s') \<and> ?keep s'" if "?keep s" for k s
  proof -
    obtain c w input where s: "s = (c, w, input)" by (cases s)
    let ?w = "reset_update w i"
    have w: "wf_world env ?w" "connected_to ?w i"
      using that by (auto simp: s reset_update_def resetHadUpdate_def wf_adapter_def connected_to_def
          intro!: wf_change_adapter)
    define line where "line = (case input of [] \<Rightarrow> '''' | l # ls \<Rightarrow> l)"
    from lines.feed_ok [OF assms(1) w, of dec "(clock k, line)" c] obtain ev c' w' where
      "parseLine env dec parse (clock k) i line (c, ?w) = Inr (ev, c', w')" "wf_world env w'"
      "connected_to w' i" by auto
    then have "\<exists>ev c' w' input'. console_read env dec parse (clock k) i (c, ?w, input) =
        Inr (ev, c', w', input') \<and> wf_world env w' \<and> connected_to w' i"
      using w by (simp add: console_read_def line_def)
    then obtain ev c' w' input' where "console_read env dec parse (clock k) i (c, ?w, input) =
        Inr (ev, c', w', input')" "wf_world env w'" "connected_to w' i" by blast
    with that show ?thesis by (auto simp: s pace_round_def connected_to_def)
  qed
  from do_until_inv [where keep = ?keep, OF this _ assms(4) [unfolded pace_def]] assms(2,3)
  show ?thesis by auto
qed

lemma outcome_cases [case_names None Inl Inr]:
  obtains "r = None" | e where "r = Some (Inl e)" | h where "r = Some (Inr (h :: 'h))"
  by (metis not_None_eq sum.exhaust_sel)

text \<open>
  The outcome of what may not return: a handle of the same kind, and a socket's handle returns.
  Where \<open>divides\<close> holds it may instead have divided a second by the frequency 0.
\<close>

definition returns_ok :: "rcore \<Rightarrow> handle \<Rightarrow> bool \<Rightarrow> handle res option \<Rightarrow> bool" where
  "returns_ok env h divides r \<longleftrightarrow>
     (case r of
        None \<Rightarrow> socketClientAdapter h = None
      | Some (Inl e) \<Rightarrow> e = FloatToInt \<and> divides
      | Some (Inr h') \<Rightarrow> wf_handle env h' \<and> same_kind h h')"

lemma returns_okI: "wf_handle env h' \<Longrightarrow> same_kind h h' \<Longrightarrow> returns_ok env h d (Some (Inr h'))"
  by (simp add: returns_ok_def)

lemma delay_ok:
  assumes "wf_handle env h" and "safe_parser env parse"
  shows "returns_ok env h (infinite_sleep h) (service_delay env dec parse clock frameEnd next h)"
proof (cases "auto_frequency h")
  case True
  note wf = wf_handleD [OF assms(1)]
  obtain n where n: "registry_get (h_world h) Uint8 frequency_property = Inr (VUint8 n)"
    using frequency_value [OF wf(1)] by blast
  show ?thesis
  proof (cases "consoleAdapter h")
    case None
    with n True show ?thesis
      by (auto simp: service_delay_def Let_def returns_ok_def same_kind_def infinite_sleep_def
          uint8_value_def wf_handle_same [OF assms(1)] wf(2))
  next
    case (Some c)
    have s: "socketClientAdapter h = None" using assms(1) Some by (simp add: wf_handle_def)
    then have i: "connected_to (h_world h) console_id" using wf(3) by (simp add: own_adapter_def)
    let ?p = "pace env dec parse clock console_id 0 (c, h_world h, h_input h)"
    show ?thesis
    proof (cases ?p)
      case None
      with True n Some s show ?thesis by (simp add: service_delay_def Let_def returns_ok_def)
    next
      case p: (Some r)
      from pace_ok [OF assms(2) wf(1) i p] obtain c' w' input' where
        "r = Inr (c', w', input')" "wf_world env w'" "connected_to w' console_id" by blast
      with p True n Some s assms(1) show ?thesis
        by (simp add: service_delay_def Let_def returns_ok_def wf_handle_def same_kind_def own_adapter_def)
    qed
  qed
next
  case False
  with assms(1) show ?thesis by (simp add: service_delay_def returns_ok_def same_kind_def)
qed

lemma service_ok:
  assumes "wf_handle env h" and "safe_parser env parse" and "honest_reads os"
  shows "returns_ok env h (infinite_sleep h)
    (do_call env os dec parse (Call_service clock frameEnd next now) h)"
proof -
  from service_burst_wf [OF assms(1)] obtain w where
    w: "service_burst env h = Inr (h\<lparr>h_world := w\<rparr>)" "wf_handle env (h\<lparr>h_world := w\<rparr>)"
      "m_arrays w Uint8 = m_arrays (h_world h) Uint8" by blast
  have sleep: "infinite_sleep (h\<lparr>h_world := w\<rparr>) = infinite_sleep h"
    using w(3) by (simp add: infinite_sleep_def rsupport_handle_get_option_def registry_get_def
        getFromArray_def arr_at_def)
  let ?d = "service_delay env dec parse clock frameEnd next (h\<lparr>h_world := w\<rparr>)"
  note d = delay_ok [OF w(2) assms(2), of dec clock frameEnd "next", unfolded sleep]
  show ?thesis
  proof (cases ?d rule: outcome_cases)
    case None
    with d w(1) show ?thesis by (simp add: rsupport_handle_service_def returns_ok_def)
  next
    case (Inl e)
    with d w(1) show ?thesis by (simp add: rsupport_handle_service_def returns_ok_def)
  next
    case (Inr h2)
    with d have h2: "wf_handle env h2" "same_kind h h2"
      by (simp_all add: returns_ok_def same_kind_def)
    have "\<exists>st h3. service_socket env os parse now h2 = Inr (st, h3) \<and> wf_handle env h3 \<and> same_kind h2 h3"
    proof (cases "socketClientAdapter h2")
      case None
      with h2(1) show ?thesis by (simp add: service_socket_def same_kind_def)
    next
      case s: (Some s)
      from service_socket_ok [OF h2(1) s assms(3) safe_service_entries [OF assms(2)], of now] s
      show ?thesis
        by (auto simp: same_kind_def)
    qed
    with Inr h2 w(1) show ?thesis
      by (auto simp: rsupport_handle_service_def returns_ok_def same_kind_def)
  qed
qed

lemma get_ok:
  assumes "wf_handle env h" and "valid_prop t (unat p)"
  shows "\<exists>v. rsupport_handle_get h t p = Inr v"
  using registry_get_eq [OF wf_handleD(1) [OF assms(1)], of t "prop_of_id p"] assms(2)
  by (simp add: rsupport_handle_get_def)

lemma set_kind:
  "rsupport_handle_set env h p v = Inr h' \<Longrightarrow> same_kind h h'"
  by (auto simp: rsupport_handle_set_def bindR_Inr_conv same_kind_def)

definition is_service :: "handle_call \<Rightarrow> bool" where
  [simp]: "is_service c \<longleftrightarrow> (case c of Call_service _ _ _ _ \<Rightarrow> True | _ \<Rightarrow> False)"

lemma do_call_ok:
  assumes "wf_handle env h" and "safe_parser env parse" and "honest_reads os" and "ok_call c"
  shows "returns_ok env h (is_service c \<and> infinite_sleep h) (do_call env os dec parse c h)"
proof (cases c)
  case (Call_set p v)
  with handle_set_get [OF assms(1), of v p] assms(4) set_kind show ?thesis
    by (fastforce simp: returns_ok_def)
next
  case (Call_get t p)
  with get_ok [OF assms(1), of t p] assms(1,4) show ?thesis
    by (auto simp: returns_ok_def same_kind_def)
next
  case (Call_subscribe t p)
  then have "\<exists>h'. rsupport_handle_subscribe env h t p = Inr h' \<and> wf_handle env h' \<and> same_kind h h'"
    unfolding rsupport_handle_subscribe_def using assms(4)
    by (intro on_adapters_ok [OF assms(1)] byTypeVal_ok) auto
  with Call_subscribe show ?thesis by (auto simp: returns_ok_def)
next
  case (Call_unsubscribe t p)
  then have "\<exists>h'. rsupport_handle_unsubscribe env h t p = Inr h' \<and> wf_handle env h' \<and> same_kind h h'"
    unfolding rsupport_handle_unsubscribe_def using assms(4)
    by (intro on_adapters_ok [OF assms(1)] byTypeVal_ok) auto
  with Call_unsubscribe show ?thesis by (auto simp: returns_ok_def)
next
  case (Call_request t p)
  have "\<exists>h'. rsupport_handle_request env h t p = Inr h' \<and> wf_handle env h' \<and> same_kind h h'"
    unfolding rsupport_handle_request_def
    by (intro on_adapters_ok [OF assms(1)]) (simp add: requestByTypeVal_ok)
  with Call_request show ?thesis by (auto simp: returns_ok_def)
next
  case (Call_option n b)
  have "wf_handle env (the (snd (rsupport_handle_set_option (Some h) n b)))"
    by (rule wf_handle_same [OF assms(1)])
      (simp_all add: rsupport_handle_set_option_def wf_handleD(2) [OF assms(1)])
  with Call_option show ?thesis
    by (simp add: returns_ok_def rsupport_handle_set_option_def same_kind_def)
next
  case (Call_connect env_path pipe)
  with connect_ok [OF assms(1), of os env_path pipe] show ?thesis by (auto simp: returns_ok_def)
next
  case (Call_connect_create env_path pipe)
  then show ?thesis
    using assms(1) wf_handleD(2) [OF assms(1)]
    by (auto simp: returns_ok_def rsupport_handle_connect_create_def same_kind_def
        intro: wf_handle_same [OF assms(1)] split: option.split prod.split)
next
  case Call_disconnect
  then show ?thesis
    using assms(1) wf_handleD(2) [OF assms(1)]
    by (auto simp: returns_ok_def rsupport_handle_disconnect_def same_kind_def
        intro: wf_handle_same [OF assms(1)] split: option.split prod.split)
next
  case (Call_service clock frameEnd nxt now)
  with service_ok [OF assms(1-3)] show ?thesis by simp
qed

text \<open>Some prefix of the calls leads to a service that divides by zero.\<close>

definition reaches_infinite_sleep ::
  "rcore \<Rightarrow> os \<Rightarrow> (string \<Rightarrow> bytes option) \<Rightarrow> parser \<Rightarrow> handle_call list \<Rightarrow> handle \<Rightarrow> bool" where
  "reaches_infinite_sleep env os dec parse cs h \<longleftrightarrow>
     (\<exists>before c after h1. cs = before @ c # after \<and> is_service c \<and>
        do_calls env os dec parse before h = Some (Inr h1) \<and> infinite_sleep h1)"

lemma reaches_now:
  "is_service c \<Longrightarrow> infinite_sleep h \<Longrightarrow> reaches_infinite_sleep env os dec parse (c # cs) h"
  unfolding reaches_infinite_sleep_def
  by (rule exI [of _ "[]"], rule exI [of _ c], rule exI [of _ cs]) simp

lemma reaches_later:
  assumes "do_call env os dec parse c h = Some (Inr h1)"
    and "reaches_infinite_sleep env os dec parse cs h1"
  shows "reaches_infinite_sleep env os dec parse (c # cs) h"
proof -
  from assms(2) obtain before d after h2 where "cs = before @ d # after" "is_service d"
    "do_calls env os dec parse before h1 = Some (Inr h2)" "infinite_sleep h2"
    unfolding reaches_infinite_sleep_def by blast
  then show ?thesis
    using assms(1) unfolding reaches_infinite_sleep_def
    by (intro exI [of _ "c # before"] exI [of _ d] exI [of _ after] exI [of _ h2]) simp
qed

lemma do_calls_ok:
  assumes "wf_handle env h" and "safe_parser env parse" and "honest_reads os" and "list_all ok_call cs"
  shows "returns_ok env h (socketClientAdapter h \<noteq> None \<and> reaches_infinite_sleep env os dec parse cs h)
    (do_calls env os dec parse cs h)"
  using assms(1,4)
proof (induction cs arbitrary: h)
  case Nil
  then show ?case by (simp add: returns_ok_def same_kind_def)
next
  case (Cons c cs)
  have c: "returns_ok env h (is_service c \<and> infinite_sleep h) (do_call env os dec parse c h)"
    using Cons.prems by (intro do_call_ok assms(2,3)) simp_all
  show ?case
  proof (cases "do_call env os dec parse c h" rule: outcome_cases)
    case None
    with c show ?thesis by (simp add: returns_ok_def)
  next
    case (Inl e)
    with c have "is_service c" "infinite_sleep h" "e = FloatToInt" by (simp_all add: returns_ok_def)
    moreover have "socketClientAdapter h \<noteq> None"
      using \<open>infinite_sleep h\<close> Cons.prems(1) by (auto simp: infinite_sleep_def wf_handle_def)
    ultimately show ?thesis
      using Inl reaches_now [of c h env os dec parse cs] by (simp add: returns_ok_def)
  next
    case (Inr h1)
    with c have h1: "wf_handle env h1" "same_kind h h1" by (simp_all add: returns_ok_def)
    have "returns_ok env h1 (socketClientAdapter h1 \<noteq> None \<and> reaches_infinite_sleep env os dec parse cs h1)
        (do_calls env os dec parse cs h1)"
      using Cons.IH [OF h1(1)] Cons.prems(2) by simp
    with h1 Inr reaches_later [OF Inr] show ?thesis
      by (auto simp: returns_ok_def same_kind_def split: option.splits sum.splits)
  qed
qed

section \<open>Freeing\<close>

lemma removeAdapter_frame [simp]:
  "registry_map (removeAdapter w i) = registry_map w" "w_heap (removeAdapter w i) = w_heap w"
  "wf_world env (removeAdapter w i) = wf_world env w"
  by (simp_all add: removeAdapter_def registry_map_def wf_world_def)

lemma destroy_adapter_frame [simp]:
  "registry_map (destroy_adapter w i) = registry_map w"
  "w_heap (destroy_adapter w i) = (w_heap w)(i := None)"
  by (auto simp: destroy_adapter_def Let_def registry_map_def removeAdapter_def fun_eq_iff
      split: option.split)

lemma wf_destroy_adapter [wf_intros]: "wf_world env w \<Longrightarrow> wf_world env (destroy_adapter w i)"
  by (auto simp: destroy_adapter_def Let_def split: option.split) (auto simp: wf_world_def)

lemma free_ok:
  assumes "wf_handle env h"
  shows "\<exists>w. rsupport_handle_free h = (RSupportStatus_Ok, w) \<and> wf_world env w \<and>
    registry_map w = registry_map (h_world h) \<and> w_heap w = (w_heap (h_world h))(own_adapter h := None)"
proof (cases "socketClientAdapter h")
  case None
  then have "consoleAdapter h \<noteq> None" using assms by (simp add: wf_handle_def)
  with None show ?thesis
    using wf_handleD(1) [OF assms] by (simp add: rsupport_handle_free_def own_adapter_def wf_destroy_adapter)
next
  case (Some s)
  then have "consoleAdapter h = None" using assms by (simp add: wf_handle_def)
  with Some show ?thesis
    using wf_handleD(1) [OF assms] by (simp add: rsupport_handle_free_def own_adapter_def wf_destroy_adapter)
qed

section \<open>The life of a handle\<close>


definition example_calls :: "handle_call list" where
  "example_calls = [Call_connect None None, Call_subscribe 1 2, Call_set 2 (VInt16 7),
     Call_service (\<lambda>_. 0) 9 10 11, Call_disconnect]"


end
