(* ===== verification/Logging.thy ===== *)
theory Logging
  imports Prelude
begin

text \<open>
  \<^verbatim>\<open>RUtil/include/RUtil/Logging.hpp\<close> and \<^verbatim>\<open>RUtil/src/Logging.cpp\<close>: the severities and their texts,
  and the initialisation of the logging system. Boost.Log is the sequence of the calls made on
  it; whether a call throws is the argument \<open>ok\<close>, from the calls made before. The progress
  messages on the standard error output are left out.
\<close>

section \<open>Severities\<close>

datatype Severity = Trace | Debug | Info | Warning | Alert | Error | Failure | Fatal

fun Severity_int :: "Severity \<Rightarrow> nat" where
  "Severity_int Trace = 0"
| "Severity_int Debug = 1"
| "Severity_int Info = 2"
| "Severity_int Warning = 3"
| "Severity_int Alert = 4"
| "Severity_int Error = 5"
| "Severity_int Failure = 6"
| "Severity_int Fatal = 7"

text \<open>What is written to a stream: a text, or a number in decimal.\<close>

datatype written = Text string | Number nat

definition severity_strings :: "string list" where
  "severity_strings = [''Trace'', ''Debug'', ''Info'', ''Warning'', ''Alert'', ''Error'', ''Failure'',
     ''Fatal'']"

text \<open>\<^verbatim>\<open>operator<<\<close> for any value of the enumeration.\<close>

definition write_severity :: "nat \<Rightarrow> written" where
  "write_severity level =
     (if level < length severity_strings then Text (severity_strings ! level) else Number level)"

text \<open>The strings for a terminal; the escape character is \<open>ESC\<close>.\<close>

abbreviation ESC :: char where
  "ESC \<equiv> CHR 0x1B"

definition colour :: "string \<Rightarrow> string \<Rightarrow> string" where
  "colour code name = ESC # ''['' @ code @ ''m'' @ name @ ESC # ''[0m''"

definition colorised_strings :: "string list" where
  "colorised_strings =
     [colour ''30'' ''TRCE'', colour ''32'' ''DEBG'', colour ''37'' ''INFO'',
      colour ''33'' ''WARN'', colour ''33'' ''ALRT'', colour ''31'' ''ERRR'',
      colour ''31'' ''FAIL'', colour ''31'' ''FTAL'']"

definition uncolorised_strings :: "string list" where
  "uncolorised_strings = [''TRCE'', ''DEBG'', ''INFO'', ''WARN'', ''ALRT'', ''ERRR'', ''FAIL'', ''FTAL'']"

text \<open>
  The manipulator. The static pointer \<open>strings\<close> is its state, \<open>None\<close> the null pointer; \<open>terminal\<close>
  is the value of \<^verbatim>\<open>TERM\<close>.
\<close>

definition initial_strings :: "string list option" where
  "initial_strings = Some uncolorised_strings"

definition write_severity_tag ::
  "string list option \<Rightarrow> string option \<Rightarrow> nat \<Rightarrow> string list option \<times> written" where
  "write_severity_tag strings terminal level =
     (let table = (case strings of
            Some t \<Rightarrow> t
          | None \<Rightarrow> (case terminal of
                None \<Rightarrow> uncolorised_strings
              | Some t \<Rightarrow> if 7 < length t then colorised_strings else uncolorised_strings))
      in (Some table, if level < length colorised_strings then Text (table ! level)
                      else Number level))"

section \<open>Initialisation\<close>

datatype boost_call =
    AddGlobalAttribute string
  | AddCommonAttributes
  | AddFileLog string
  | AddConsoleLog
  | AddSink
  | SetAttribute string string
  | LogRecord Severity string

record logging =
  m_initialised :: bool
  m_logDir :: string
  m_mainLogPath :: string
  m_fileOut :: bool
  m_consoleOut :: bool
  l_calls :: "boost_call list"

definition logging_new :: "bool \<Rightarrow> boost_call list \<Rightarrow> logging" where
  "logging_new initialised calls = \<lparr>m_initialised = initialised, m_logDir = '''',
     m_mainLogPath = ''rmaster.log'', m_fileOut = True, m_consoleOut = True, l_calls = calls\<rparr>"

text \<open>Both loggers; \<^verbatim>\<open>assert(m_initialised)\<close>.\<close>

definition mainLogger :: "bool \<Rightarrow> logging \<Rightarrow> unit res" where
  "mainLogger ndebug l = (if \<not> ndebug \<and> \<not> m_initialised l then Inl AssertFailed else Inr ())"

definition rcommLogger :: "bool \<Rightarrow> logging \<Rightarrow> unit res" where
  "rcommLogger ndebug l = (if \<not> ndebug \<and> \<not> m_initialised l then Inl AssertFailed else Inr ())"

definition setConsoleOut :: "logging \<Rightarrow> bool \<Rightarrow> logging" where
  "setConsoleOut l enabled = l\<lparr>m_consoleOut := enabled\<rparr>"

text \<open>
  \<^verbatim>\<open>LRT_MAIN_LOG\<close> and \<^verbatim>\<open>LRT_RCOMM_LOG\<close>: the location of the macro's use, the line in decimal, becomes
  the value of the global attributes, then the record goes to the logger. An attribute that was
  never added casts to an empty one, whose \<^verbatim>\<open>set\<close> dereferences a null pointer.
\<close>

record location =
  loc_line :: string
  loc_file :: string
  loc_function :: string

definition LRT_LOGGING_LOCATION :: "location \<Rightarrow> boost_call list" where
  "LRT_LOGGING_LOCATION loc = [SetAttribute ''Line'' (loc_line loc),
     SetAttribute ''File'' (loc_file loc), SetAttribute ''Function'' (loc_function loc)]"

definition has_location :: "boost_call list \<Rightarrow> bool" where
  "has_location log \<longleftrightarrow> AddGlobalAttribute ''Line'' \<in> set log \<and>
     AddGlobalAttribute ''File'' \<in> set log \<and> AddGlobalAttribute ''Function'' \<in> set log"

definition LRT_SEV_LOG ::
  "boost_call list \<Rightarrow> unit res \<Rightarrow> location \<Rightarrow> Severity \<Rightarrow> string \<Rightarrow> boost_call list res" where
  "LRT_SEV_LOG log lg loc severity message =
     (if \<not> has_location log then Inl NullDeref
      else bindR lg (\<lambda>_. Inr (LRT_LOGGING_LOCATION loc @ [LogRecord severity message])))"

definition LRT_MAIN_LOG ::
  "bool \<Rightarrow> logging \<Rightarrow> location \<Rightarrow> Severity \<Rightarrow> string \<Rightarrow> boost_call list res" where
  "LRT_MAIN_LOG ndebug l loc severity message =
     LRT_SEV_LOG (l_calls l) (mainLogger ndebug l) loc severity message"

definition LRT_RCOMM_LOG ::
  "bool \<Rightarrow> logging \<Rightarrow> location \<Rightarrow> Severity \<Rightarrow> string \<Rightarrow> boost_call list res" where
  "LRT_RCOMM_LOG ndebug l loc severity message =
     LRT_SEV_LOG (l_calls l) (rcommLogger ndebug l) loc severity message"

text \<open>Calls in order, up to the first that throws; \<open>True\<close> when none does.\<close>

fun boost_calls ::
  "(boost_call list \<Rightarrow> boost_call \<Rightarrow> bool) \<Rightarrow> boost_call list \<Rightarrow> boost_call list \<Rightarrow>
     bool \<times> boost_call list" where
  "boost_calls ok log [] = (True, log)"
| "boost_calls ok log (c # cs) =
     (if ok log c then boost_calls ok (log @ [c]) cs else (False, log))"

text \<open>What \<^verbatim>\<open>init\<close> asks of the library before it is done.\<close>

definition init_calls :: "string \<Rightarrow> bool \<Rightarrow> bool \<Rightarrow> boost_call list" where
  "init_calls logDir fileOut consoleOut =
     [AddGlobalAttribute ''Line'', AddGlobalAttribute ''File'', AddGlobalAttribute ''Function'',
      AddGlobalAttribute ''Timestamp'', AddCommonAttributes] @
     (if fileOut then [AddFileLog (logDir @ ''/rmaster.log'')] else []) @
     (if consoleOut then [AddConsoleLog, AddSink] else [])"

text \<open>\<^verbatim>\<open>init\<close>: whether it returns (it throws otherwise), and the state.\<close>

definition logging_init ::
  "bool \<Rightarrow> (boost_call list \<Rightarrow> boost_call \<Rightarrow> bool) \<Rightarrow> location \<Rightarrow> logging \<Rightarrow> string \<Rightarrow> bool \<Rightarrow> bool \<Rightarrow>
     (bool \<times> logging) res" where
  "logging_init ndebug ok loc l logDir fileOut consoleOut =
     (let l1 = l\<lparr>m_logDir := logDir, m_mainLogPath := logDir @ ''/rmaster.log'',
                 m_fileOut := fileOut, m_consoleOut := consoleOut\<rparr>
      in case boost_calls ok (l_calls l1) (init_calls logDir (m_fileOut l1) (m_consoleOut l1)) of
         (False, log) \<Rightarrow> Inr (False, l1\<lparr>l_calls := log\<rparr>)
       | (True, log) \<Rightarrow>
           (let l2 = l1\<lparr>m_initialised := True, l_calls := log\<rparr>
            in if m_consoleOut l2
               then bindR (LRT_MAIN_LOG ndebug l2 loc Debug ''Initialized Logging.'')
                      (\<lambda>cs. Inr (True, l2\<lparr>l_calls := l_calls l2 @ cs\<rparr>))
               else Inr (True, l2)))"

text \<open>
  The formats of the two sinks, as functions of the values that the library gives to them: the
  texts of the time and of the attributes, the severity and the message.
\<close>

fun decimal :: "nat \<Rightarrow> string" where
  "decimal n = (if n < 10 then [char_of (48 + n)] else decimal (n div 10) @ [char_of (48 + n mod 10)])"

declare decimal.simps [simp del]

fun shown :: "written \<Rightarrow> string" where
  "shown (Text s) = s"
| "shown (Number n) = decimal n"

definition file_format :: "string \<Rightarrow> nat \<Rightarrow> location \<Rightarrow> string \<Rightarrow> string" where
  "file_format timestamp level loc message =
     ''['' @ timestamp @ ''] '' @ ''['' @ shown (write_severity level) @ ''] '' @
     ''('' @ loc_file loc @ '':'' @ loc_line loc @ '') '' @
     ''('' @ loc_function loc @ ''): '' @ message"

definition console_format :: "string \<Rightarrow> written \<Rightarrow> string \<Rightarrow> string" where
  "console_format timestamp tag message =
     ''['' @ timestamp @ ''] ['' @ shown tag @ ''] '' @ message"

section \<open>What the texts and the initialisation do\<close>

lemma lengths [simp]:
  "length severity_strings = 8" "length colorised_strings = 8" "length uncolorised_strings = 8"
  by (simp_all add: severity_strings_def colorised_strings_def uncolorised_strings_def)

text \<open>The texts of a sequence of records, each with the value of \<^verbatim>\<open>TERM\<close> at its time.\<close>

fun write_severity_tags ::
  "string list option \<Rightarrow> (string option \<times> nat) list \<Rightarrow> written list" where
  "write_severity_tags strings [] = []"
| "write_severity_tags strings ((terminal, level) # rs) =
     (case write_severity_tag strings terminal level of
        (strings1, text) \<Rightarrow> text # write_severity_tags strings1 rs)"

text \<open>Severities are never coloured: the table is chosen from the terminal only when the
  static pointer is null, and it never is; every record of a run, whatever its terminal, gets the
  plain four letters of its severity, or the number of a value that is none.\<close>

theorem severity_never_coloured:
  "write_severity_tags initial_strings rs =
     map (\<lambda>(terminal, level). if level < 8 then Text (uncolorised_strings ! level)
                             else Number level) rs"
proof -
  have "write_severity_tags (Some uncolorised_strings) rs = map (\<lambda>(terminal, level).
      if level < 8 then Text (uncolorised_strings ! level) else Number level) rs"
    by (induction rs) (auto simp: write_severity_tag_def)
  then show ?thesis by (simp add: initial_strings_def)
qed

section \<open>The calls of the macros\<close>

text \<open>
  The records among some calls, each with the values that the program last gave to the three
  attributes of the location before it.
\<close>

fun logged :: "(string \<Rightarrow> string) \<Rightarrow> boost_call list \<Rightarrow> (location \<times> Severity \<times> string) list" where
  "logged at [] = []"
| "logged at (SetAttribute name text # cs) = logged (at(name := text)) cs"
| "logged at (LogRecord severity message # cs) =
     (\<lparr>loc_line = at ''Line'', loc_file = at ''File'', loc_function = at ''Function''\<rparr>,
      severity, message) # logged at cs"
| "logged at (c # cs) = logged at cs"

text \<open>The calls of one use of a macro, and of a sequence of uses of the two.\<close>

definition macro :: "location \<times> Severity \<times> string \<Rightarrow> boost_call list" where
  "macro r = (case r of (loc, severity, message) \<Rightarrow>
     LRT_LOGGING_LOCATION loc @ [LogRecord severity message])"

fun log_uses ::
  "bool \<Rightarrow> logging \<Rightarrow> (bool \<times> location \<times> Severity \<times> string) list \<Rightarrow> boost_call list res" where
  "log_uses ndebug l [] = Inr []"
| "log_uses ndebug l ((main, loc, severity, message) # us) =
     bindR (if main then LRT_MAIN_LOG ndebug l loc severity message
            else LRT_RCOMM_LOG ndebug l loc severity message) (\<lambda>cs.
       bindR (log_uses ndebug l us) (\<lambda>cs'. Inr (cs @ cs')))"

definition usable :: "bool \<Rightarrow> logging \<Rightarrow> bool" where
  "usable ndebug l \<longleftrightarrow> has_location (l_calls l) \<and> (ndebug \<or> m_initialised l)"

lemma log_uses_macros: "usable ndebug l \<Longrightarrow> log_uses ndebug l us = Inr (concat (map (macro \<circ> snd) us))"
  by (induction ndebug l us rule: log_uses.induct)
    (auto simp: usable_def LRT_MAIN_LOG_def LRT_RCOMM_LOG_def LRT_SEV_LOG_def mainLogger_def
      rcommLogger_def macro_def)

lemma log_uses_refused: "\<not> usable ndebug l \<Longrightarrow> us \<noteq> [] \<Longrightarrow> \<exists>err. log_uses ndebug l us = Inl err"
  by (cases us) (auto simp: usable_def LRT_MAIN_LOG_def LRT_RCOMM_LOG_def LRT_SEV_LOG_def
      mainLogger_def rcommLogger_def)

lemma logged_macros: "logged at (concat (map macro rs)) = rs"
proof (induction rs arbitrary: at)
  case (Cons r rs)
  obtain loc severity message where "r = (loc, severity, message)" by (cases r)
  with Cons show ?case by (simp add: macro_def LRT_LOGGING_LOCATION_def)
qed simp

text \<open>The values of the attributes after some calls.\<close>

fun last_set :: "(string \<Rightarrow> string) \<Rightarrow> boost_call list \<Rightarrow> string \<Rightarrow> string" where
  "last_set at [] = at"
| "last_set at (SetAttribute name text # cs) = last_set (at(name := text)) cs"
| "last_set at (c # cs) = last_set at cs"

lemma logged_append: "logged at (xs @ ys) = logged at xs @ logged (last_set at xs) ys"
  by (induction at xs rule: logged.induct) (simp_all add: fun_upd_def)

lemma logged_init: "logged at (init_calls dir f c) = []"
  by (simp add: init_calls_def)

lemma boost_calls_outcome:
  "boost_calls ok log cs =
     (if \<forall>k < length cs. ok (log @ take k cs) (cs ! k) then (True, log @ cs)
      else (False, snd (boost_calls ok log cs)))"
proof (induction cs arbitrary: log)
  case (Cons c cs)
  have "(\<forall>k < length (c # cs). ok (log @ take k (c # cs)) ((c # cs) ! k)) \<longleftrightarrow>
      ok log c \<and> (\<forall>k < length cs. ok ((log @ [c]) @ take k cs) (cs ! k))"
    by (simp add: All_less_Suc2)
  with Cons [of "log @ [c]"] show ?case by (auto split: if_splits)
qed simp

lemma has_location_init: "has_location (xs @ init_calls dir f c @ ys)"
  by (simp add: has_location_def init_calls_def)

text \<open>The first call that throws ends the initialisation; without one it returns.\<close>

definition none_throws :: "(boost_call list \<Rightarrow> boost_call \<Rightarrow> bool) \<Rightarrow> boost_call list \<Rightarrow> boost_call list \<Rightarrow> bool" where
  "none_throws ok log cs \<longleftrightarrow> (\<forall>k < length cs. ok (log @ take k cs) (cs ! k))"

lemma logging_init_outcome:
  fixes dir :: string and f c :: bool and loc :: location
  defines "first \<equiv> if c then [(loc, Debug, ''Initialized Logging.'')] else []"
  shows "\<exists>l'. logging_init ndebug ok loc l dir f c =
      Inr (none_throws ok (l_calls l) (init_calls dir f c), l') \<and>
    m_initialised l' = (none_throws ok (l_calls l) (init_calls dir f c) \<or> m_initialised l) \<and>
    (none_throws ok (l_calls l) (init_calls dir f c) \<longrightarrow>
      l_calls l' = l_calls l @ init_calls dir f c @ concat (map macro first))"
proof (cases "none_throws ok (l_calls l) (init_calls dir f c)")
  case True
  then have "boost_calls ok (l_calls l) (init_calls dir f c) = (True, l_calls l @ init_calls dir f c)"
    using boost_calls_outcome [of ok "l_calls l" "init_calls dir f c"] by (simp add: none_throws_def)
  then show ?thesis
    using True has_location_init [of "l_calls l" dir f True "[]"]
    by (simp add: logging_init_def first_def LRT_MAIN_LOG_def LRT_SEV_LOG_def mainLogger_def macro_def)
next
  case False
  then obtain log where "boost_calls ok (l_calls l) (init_calls dir f c) = (False, log)"
    using boost_calls_outcome [of ok "l_calls l" "init_calls dir f c"]
    by (auto simp: none_throws_def split: if_splits)
  then show ?thesis using False by (simp add: logging_init_def)
qed


text \<open>A second initialisation asks for the sinks again.\<close>

lemma logging_init_twice:
  "\<exists>l1 l2. logging_init ndebug (\<lambda>_ _. True) loc (logging_new False []) dir True c = Inr (True, l1) \<and>
     logging_init ndebug (\<lambda>_ _. True) loc l1 dir True c = Inr (True, l2) \<and>
     count_list (l_calls l2) (AddFileLog (dir @ ''/rmaster.log'')) = 2"
proof -
  have all: "none_throws (\<lambda>_ _. True) log cs" for log cs by (simp add: none_throws_def)
  obtain l1 where l1: "logging_init ndebug (\<lambda>_ _. True) loc (logging_new False []) dir True c = Inr (True, l1)"
    "l_calls l1 = init_calls dir True c @ concat (map macro
       (if c then [(loc, Debug, ''Initialized Logging.'')] else []))"
    using logging_init_outcome [of ndebug "\<lambda>_ _. True" loc "logging_new False []" dir True c] all
    by (auto simp: logging_new_def)
  obtain l2 where l2: "logging_init ndebug (\<lambda>_ _. True) loc l1 dir True c = Inr (True, l2)"
    "l_calls l2 = l_calls l1 @ init_calls dir True c @ concat (map macro
       (if c then [(loc, Debug, ''Initialized Logging.'')] else []))"
    using logging_init_outcome [of ndebug "\<lambda>_ _. True" loc l1 dir True c] all by auto
  have "count_list (l_calls l2) (AddFileLog (dir @ ''/rmaster.log'')) = 2"
    by (cases c) (simp_all add: l1(2) l2(2) init_calls_def macro_def LRT_LOGGING_LOCATION_def)
  with l1(1) l2(1) show ?thesis by blast
qed

text \<open>
  The location is kept in attributes of the whole process. When two threads log at the same time
  there is an interleaving of their calls in which both records carry the location of the second.
\<close>

lemma log_location_race:
  "\<exists>cs \<in> shuffles (macro (loc1, s1, m1)) (macro (loc2, s2, m2)).
     logged at cs = [(loc2, s1, m1), (loc2, s2, m2)]"
proof -
  let ?cs = "LRT_LOGGING_LOCATION loc1 @ macro (loc2, s1, m1) @ [LogRecord s2 m2]"
  have "?cs \<in> shuffles (macro (loc1, s1, m1)) (macro (loc2, s2, m2))"
    by (simp add: macro_def LRT_LOGGING_LOCATION_def Cons_in_shuffles_iff)
  moreover have "logged at ?cs = [(loc2, s1, m1), (loc2, s2, m2)]"
    by (simp add: macro_def LRT_LOGGING_LOCATION_def)
  ultimately show ?thesis by blast
qed

end
