(* ===== verification/Flow.thy ===== *)
theory Flow
  imports TypeConverter Reliability "HOL-Library.Multiset"
begin

text \<open>
  The specification of a network of registries: what the values of the entries, the
  subscriptions and the messages in flight do when programs set, subscribe and request and the
  links deliver. Nothing here is code; theory \<open>Network\<close> shows that the registries, adapters and
  message handlers of the code, connected by links, implement it step by step, and so takes
  over what is proved here: where values come from, when delivering ends, when the registries
  agree in the end and when they never do.
\<close>

section \<open>The state\<close>

type_synonym entry_key = "Type \<times> nat"

text \<open>One end of a link: the number of the program, and of the adapter in it.\<close>

type_synonym endpoint = "nat \<times> nat"
type_synonym links = "endpoint \<Rightarrow> endpoint option"

datatype flow_msg =
    FUpdate entry_key val
  | FRequest entry_key
  | FSubscribe entry_key
  | FUnsubscribe entry_key

text \<open>
  The value of each entry in each program, the entries that each end sends, and what each end
  has sent that the other has not received yet.
\<close>

record flow =
  f_val :: "nat \<Rightarrow> entry_key \<rightharpoonup> val"
  f_sub :: "endpoint \<Rightarrow> entry_key \<Rightarrow> bool"
  f_chan :: "endpoint \<Rightarrow> flow_msg list"

text \<open>What can happen: a program calls an operation, or a link delivers or loses a message.\<close>

datatype action =
    ASet nat property val Reliability
  | ARequest endpoint Type property Reliability
  | ASubscribe endpoint Type property Reliability
  | AUnsubscribe endpoint Type property Reliability
  | ADeliver endpoint
  | ALose endpoint

section \<open>The steps\<close>

definition flow_send :: "endpoint \<Rightarrow> flow_msg \<Rightarrow> flow \<Rightarrow> flow" where
  "flow_send ep m f = f\<lparr>f_chan := (f_chan f)(ep := f_chan f ep @ [m])\<rparr>"

text \<open>Whether the end \<open>ep\<close> forwards a change of \<open>e\<close> in program \<open>k\<close> that came in at \<open>except\<close>.\<close>

definition forwards :: "links \<Rightarrow> nat \<Rightarrow> nat option \<Rightarrow> entry_key \<Rightarrow> flow \<Rightarrow> endpoint \<Rightarrow> bool" where
  "forwards peer k except e f ep \<longleftrightarrow> fst ep = k \<and> except \<noteq> Some (snd ep) \<and> peer ep \<noteq> None \<and>
     f_sub f ep e"

definition flow_store ::
  "links \<Rightarrow> nat \<Rightarrow> nat option \<Rightarrow> entry_key \<Rightarrow> val \<Rightarrow> flow \<Rightarrow> flow" where
  "flow_store peer k except e v f =
     (case f_val f k e of
        None \<Rightarrow> f
      | Some old \<Rightarrow>
          if val_eq old v then f
          else f\<lparr>f_val := (f_val f)(k := (f_val f k)(e \<mapsto> v)),
                 f_chan := \<lambda>ep. f_chan f ep @
                   (if forwards peer k except e f ep then [FUpdate e v] else [])\<rparr>)"

definition flow_subscription :: "endpoint \<Rightarrow> entry_key \<Rightarrow> bool \<Rightarrow> flow \<Rightarrow> flow" where
  "flow_subscription ep e b f = f\<lparr>f_sub := (f_sub f)(ep := (f_sub f ep)(e := b))\<rparr>"

text \<open>A message arrives at the end \<open>ep\<close>.\<close>

fun flow_handle :: "links \<Rightarrow> endpoint \<Rightarrow> flow_msg \<Rightarrow> flow \<Rightarrow> flow" where
  "flow_handle peer ep (FUpdate e v) f = flow_store peer (fst ep) (Some (snd ep)) e v f"
| "flow_handle peer ep (FRequest e) f =
     (case f_val f (fst ep) e of
        None \<Rightarrow> f
      | Some v \<Rightarrow> if f_sub f ep e then flow_send ep (FUpdate e v) f else f)"
| "flow_handle peer ep (FSubscribe e) f = flow_subscription ep e True f"
| "flow_handle peer ep (FUnsubscribe e) f = flow_subscription ep e False f"

definition flow_pop :: "endpoint \<Rightarrow> flow \<Rightarrow> flow" where
  "flow_pop ep f = f\<lparr>f_chan := (f_chan f)(ep := tl (f_chan f ep))\<rparr>"

fun flow_do :: "links \<Rightarrow> action \<Rightarrow> flow \<Rightarrow> flow" where
  "flow_do peer (ASet k p v rel) f = flow_store peer k None (vtype v, prop_index p) v f"
| "flow_do peer (ARequest ep t p rel) f =
     (if peer ep = None then f else flow_send ep (FRequest (t, prop_index p)) f)"
| "flow_do peer (ASubscribe ep t p rel) f =
     (if peer ep = None then f else flow_send ep (FSubscribe (t, prop_index p)) f)"
| "flow_do peer (AUnsubscribe ep t p rel) f =
     (if peer ep = None then f else flow_send ep (FUnsubscribe (t, prop_index p)) f)"
| "flow_do peer (ADeliver ep) f =
     (case peer ep of
        None \<Rightarrow> f
      | Some ep' \<Rightarrow> (case f_chan f ep of
            [] \<Rightarrow> f
          | m # ms \<Rightarrow> flow_handle peer ep' m (flow_pop ep f)))"
| "flow_do peer (ALose ep) f = (if peer ep = None then f else flow_pop ep f)"

fun flow_run :: "links \<Rightarrow> action list \<Rightarrow> flow \<Rightarrow> flow" where
  "flow_run peer [] f = f"
| "flow_run peer (a # as) f = flow_run peer as (flow_do peer a f)"

lemma flow_run_append: "flow_run peer (as @ bs) f = flow_run peer bs (flow_run peer as f)"
  by (induction as arbitrary: f) simp_all

lemma flow_send_simps [simp]:
  "f_val (flow_send ep m f) = f_val f" "f_sub (flow_send ep m f) = f_sub f"
  "f_chan (flow_send ep m f) = (f_chan f)(ep := f_chan f ep @ [m])"
  by (simp_all add: flow_send_def)

lemma flow_subscription_simps [simp]:
  "f_val (flow_subscription ep e b f) = f_val f" "f_chan (flow_subscription ep e b f) = f_chan f"
  "f_sub (flow_subscription ep e b f) = (f_sub f)(ep := (f_sub f ep)(e := b))"
  by (simp_all add: flow_subscription_def)

lemma flow_pop_simps [simp]:
  "f_val (flow_pop ep f) = f_val f" "f_sub (flow_pop ep f) = f_sub f"
  "f_chan (flow_pop ep f) = (f_chan f)(ep := tl (f_chan f ep))"
  by (simp_all add: flow_pop_def)

lemma flow_store_sub [simp]: "f_sub (flow_store peer k x e v f) = f_sub f"
  by (simp add: flow_store_def split: option.split)

lemma forwards_pop [simp]: "forwards peer k x e (flow_pop ep f) = forwards peer k x e f"
  by (rule ext) (simp add: forwards_def)

text \<open>What storing a value does to values and channels.\<close>

lemma flow_store_same: "f_val f k e = Some old \<Longrightarrow> val_eq old v \<Longrightarrow> flow_store peer k x e v f = f"
  by (simp add: flow_store_def)

lemma flow_store_change:
  assumes "f_val f k e = Some old" and "\<not> val_eq old v"
  shows "f_val (flow_store peer k x e v f) = (f_val f)(k := (f_val f k)(e \<mapsto> v))"
    and "f_chan (flow_store peer k x e v f) =
      (\<lambda>ep. f_chan f ep @ (if forwards peer k x e f ep then [FUpdate e v] else []))"
  using assms by (simp_all add: flow_store_def)

lemma flow_store_val:
  "f_val (flow_store peer k x e v f) k' e' =
     (if k' = k \<and> e' = e then (case f_val f k e of None \<Rightarrow> None
        | Some old \<Rightarrow> Some (if val_eq old v then old else v))
      else f_val f k' e')"
  by (auto simp: flow_store_def split: option.split)

lemma flow_store_chan:
  "\<exists>ms. f_chan (flow_store peer k x e v f) ep = f_chan f ep @ ms \<and>
     set ms \<subseteq> (if forwards peer k x e f ep then {FUpdate e v} else {})"
  by (auto simp: flow_store_def split: option.split)

section \<open>Invariants of runs\<close>

text \<open>A predicate that every allowed action keeps holds after every run of allowed actions.\<close>

locale run_invariant =
  fixes peer :: links and holds :: "flow \<Rightarrow> bool" and allowed :: "action \<Rightarrow> bool"
  assumes keeps: "holds f \<Longrightarrow> allowed a \<Longrightarrow> holds (flow_do peer a f)"
begin

lemma run_keeps: "holds f \<Longrightarrow> list_all allowed as \<Longrightarrow> holds (flow_run peer as f)"
  by (induction as arbitrary: f) (simp_all add: keeps)

end

section \<open>Where values come from\<close>

text \<open>Every value in a program or in flight satisfies \<open>P\<close>.\<close>

definition carries :: "(entry_key \<Rightarrow> val \<Rightarrow> bool) \<Rightarrow> flow \<Rightarrow> bool" where
  "carries P f \<longleftrightarrow> (\<forall>k e v. f_val f k e = Some v \<longrightarrow> P e v) \<and>
     (\<forall>ep e v. FUpdate e v \<in> set (f_chan f ep) \<longrightarrow> P e v)"

fun sets_only :: "(entry_key \<Rightarrow> val \<Rightarrow> bool) \<Rightarrow> action \<Rightarrow> bool" where
  "sets_only P (ASet k p v rel) = P (vtype v, prop_index p) v"
| "sets_only P _ = True"

lemma carries_val: "carries P f \<Longrightarrow> f_val f k e = Some v \<Longrightarrow> P e v"
  unfolding carries_def by blast

lemma carries_send: "carries P f \<Longrightarrow> (\<And>e v. m = FUpdate e v \<Longrightarrow> P e v) \<Longrightarrow> carries P (flow_send ep m f)"
  by (auto simp: carries_def)

lemma in_set_tl: "x \<in> set (tl xs) \<Longrightarrow> x \<in> set xs"
  by (cases xs) simp_all

lemma carries_pop: "carries P f \<Longrightarrow> carries P (flow_pop ep f)"
  unfolding carries_def by (auto dest: in_set_tl split: if_splits)

lemma carries_store: "carries P f \<Longrightarrow> P e v \<Longrightarrow> carries P (flow_store peer k x e v f)"
  unfolding carries_def
  by (cases "f_val f k e") (auto simp: flow_store_def split: if_splits)

lemma carries_handle:
  assumes "carries P f" and "\<And>e v. m = FUpdate e v \<Longrightarrow> P e v"
  shows "carries P (flow_handle peer ep m f)"
proof (cases m)
  case (FUpdate e v)
  with assms show ?thesis by (simp add: carries_store)
next
  case (FRequest e)
  with assms show ?thesis
    by (auto split: option.split intro!: carries_send simp: carries_def [of P f])
qed (use assms in \<open>auto simp: carries_def\<close>)

lemma carries_do: "carries P f \<Longrightarrow> sets_only P a \<Longrightarrow> carries P (flow_do peer a f)"
proof (cases a)
  case (ADeliver ep)
  assume f: "carries P f"
  have "P e v" if "f_chan f ep = FUpdate e v # ms" for e v ms
    using f that unfolding carries_def by (metis list.set_intros(1))
  with f ADeliver show ?thesis
    by (auto split: option.split list.split intro!: carries_handle carries_pop)
qed (auto intro: carries_store carries_send carries_pop)

interpretation provenance: run_invariant peer "carries P" "sets_only P" for peer P
  by unfold_locales (rule carries_do)

section \<open>When delivering ends\<close>

text \<open>
  A network has no loop of links when its ends have a height that falls on the way of a value:
  what comes in at an end goes out only at lower ones.
\<close>

definition loop_free :: "links \<Rightarrow> (endpoint \<Rightarrow> nat) \<Rightarrow> bool" where
  "loop_free peer h \<longleftrightarrow> (\<forall>ep k j j'. peer ep = Some (k, j) \<and> j' \<noteq> j \<and> peer (k, j') \<noteq> None \<longrightarrow>
     h (k, j') < h ep)"

lemma loop_freeD:
  "loop_free peer h \<Longrightarrow> peer ep = Some (k, j) \<Longrightarrow> j \<noteq> j' \<Longrightarrow> peer (k, j') = Some y \<Longrightarrow>
   h (k, j') < h ep"
  unfolding loop_free_def by (metis option.discI)

text \<open>A request counts above its answer, which goes back on the same link.\<close>

fun rank :: "links \<Rightarrow> (endpoint \<Rightarrow> nat) \<Rightarrow> endpoint \<Rightarrow> flow_msg \<Rightarrow> nat" where
  "rank peer h ep (FUpdate e v) = h ep"
| "rank peer h ep (FRequest e) = Suc (case peer ep of None \<Rightarrow> 0 | Some ep' \<Rightarrow> h ep')"
| "rank peer h ep _ = 0"

definition ranks_in_flight :: "links \<Rightarrow> (endpoint \<Rightarrow> nat) \<Rightarrow> flow \<Rightarrow> nat multiset" where
  "ranks_in_flight peer h f = (\<Sum>ep \<in> dom peer. image_mset (rank peer h ep) (mset (f_chan f ep)))"

text \<open>Taking a message from one channel and putting lower ones in any lowers the multiset.\<close>

lemma ranks_less:
  assumes "finite (dom peer)" and "ep \<in> dom peer" and "f_chan f ep = m # ms"
    and "\<And>x. x \<in> dom peer \<Longrightarrow> f_chan g x = f_chan (flow_pop ep f) x @ new x"
    and "\<And>x m'. x \<in> dom peer \<Longrightarrow> m' \<in> set (new x) \<Longrightarrow> rank peer h x m' < rank peer h ep m"
  shows "(ranks_in_flight peer h g, ranks_in_flight peer h f) \<in> mult less_than"
proof -
  let ?R = "\<lambda>c. \<Sum>x \<in> dom peer. image_mset (rank peer h x) (mset (c x))"
  have "?R (f_chan f) = ?R (f_chan (flow_pop ep f)) + {#rank peer h ep m#}"
    using assms(1-3) by (simp add: sum.remove)
  moreover have "?R (f_chan g) = ?R (f_chan (flow_pop ep f)) + ?R new"
    unfolding sum.distrib [symmetric] by (rule sum.cong) (simp_all add: assms(4))
  moreover have "(?R (f_chan (flow_pop ep f)) + ?R new,
      ?R (f_chan (flow_pop ep f)) + {#rank peer h ep m#}) \<in> mult less_than"
    by (rule one_step_implies_mult) (use assms(1,5) in \<open>auto simp: set_mset_sum\<close>)
  ultimately show ?thesis by (simp add: ranks_in_flight_def)
qed

lemma handle_chan:
  assumes "peer ep = Some (k, j)" and "loop_free peer h"
  obtains new where "\<And>x. f_chan (flow_handle peer (k, j) m f) x = f_chan f x @ new x"
    and "\<And>x m'. m' \<in> set (new x) \<Longrightarrow> rank peer h x m' < rank peer h ep m"
proof (cases m)
  case (FUpdate e v)
  define new where "new x = (if f_val f k e = None \<or> val_eq (the (f_val f k e)) v then []
    else if forwards peer k (Some j) e f x then [FUpdate e v] else [])" for x
  show ?thesis
  proof (rule that)
    show "f_chan (flow_handle peer (k, j) m f) x = f_chan f x @ new x" for x
      using FUpdate by (auto simp: flow_store_def new_def split: option.split)
    show "rank peer h x m' < rank peer h ep m" if "m' \<in> set (new x)" for x m'
    proof -
      from that have "m' = FUpdate e v" "forwards peer k (Some j) e f x"
        by (auto simp: new_def split: if_splits)
      with assms(1,2) FUpdate show ?thesis
        by (cases x) (auto simp: forwards_def intro: loop_freeD)
    qed
  qed
next
  case (FRequest e)
  define new where "new x = (if x = (k, j) \<and> f_val f k e \<noteq> None \<and> f_sub f (k, j) e
    then [FUpdate e (the (f_val f k e))] else [])" for x
  show ?thesis
  proof (rule that)
    show "f_chan (flow_handle peer (k, j) m f) x = f_chan f x @ new x" for x
      using FRequest by (auto simp: new_def split: option.split)
    show "rank peer h x m' < rank peer h ep m" if "m' \<in> set (new x)" for x m'
      using that assms(1) FRequest by (auto simp: new_def split: if_splits)
  qed
qed (rule that [of "\<lambda>_. []"]; simp)+

lemma deliver_less:
  assumes "finite (dom peer)" and "loop_free peer h" and "peer ep \<noteq> None" and "f_chan f ep \<noteq> []"
  shows "(ranks_in_flight peer h (flow_do peer (ADeliver ep) f), ranks_in_flight peer h f)
    \<in> mult less_than"
proof -
  obtain k j where p: "peer ep = Some (k, j)" using assms(3) by auto
  obtain m ms where m: "f_chan f ep = m # ms" using assms(4) by (cases "f_chan f ep") auto
  from handle_chan [OF p assms(2), of m "flow_pop ep f"] obtain new where
    new: "\<And>x. f_chan (flow_handle peer (k, j) m (flow_pop ep f)) x = f_chan (flow_pop ep f) x @ new x"
    "\<And>x m'. m' \<in> set (new x) \<Longrightarrow> rank peer h x m' < rank peer h ep m" by blast
  show ?thesis
    by (rule ranks_less [where ep = ep and m = m and ms = ms and new = new])
      (use assms(1) p m new in auto)
qed

section \<open>When the registries agree\<close>

text \<open>What a program holds after it has received what is on its way to it.\<close>

definition receive :: "entry_key \<Rightarrow> val \<Rightarrow> flow_msg \<Rightarrow> val" where
  "receive e x m =
     (case m of FUpdate e' v \<Rightarrow> if e' = e \<and> \<not> val_eq x v then v else x | _ \<Rightarrow> x)"

definition replay :: "entry_key \<Rightarrow> val \<Rightarrow> flow_msg list \<Rightarrow> val" where
  "replay e = foldl (receive e)"

lemma replay_simps [simp]:
  "replay e x [] = x" "replay e x (m # ms) = replay e (receive e x m) ms"
  "replay e x (ms @ [m]) = receive e (replay e x ms) m"
  by (simp_all add: replay_def)

lemma receive_simps [simp]:
  "receive e x (FUpdate e' v) = (if e' = e \<and> \<not> val_eq x v then v else x)"
  "receive e x (FRequest e') = x" "receive e x (FSubscribe e') = x"
  "receive e x (FUnsubscribe e') = x"
  by (simp_all add: receive_def)

lemma receive_alike: "alike (receive e x (FUpdate e v)) v"
  by (simp add: alike_def)

text \<open>
  The links form a tree that is rooted at the program \<open>r\<close>: each link has a lower and an upper
  end, the ends of the root lead down, and every other program has at most one end that leads
  up.
\<close>

definition oriented :: "links \<Rightarrow> nat \<Rightarrow> (endpoint \<Rightarrow> bool) \<Rightarrow> bool" where
  "oriented peer r down \<longleftrightarrow>
     (\<forall>ep ep'. peer ep = Some ep' \<longrightarrow>
        peer ep' = Some ep \<and> fst ep' \<noteq> fst ep \<and> (down ep' \<longleftrightarrow> \<not> down ep)) \<and>
     (\<forall>j. peer (r, j) \<noteq> None \<longrightarrow> down (r, j)) \<and>
     (\<forall>k j j'. peer (k, j) \<noteq> None \<and> peer (k, j') \<noteq> None \<and> \<not> down (k, j) \<and> \<not> down (k, j') \<longrightarrow>
        j = j')"

text \<open>
  On a link that leads down the lower program holds, once it has received what is on its way,
  what the upper one holds; on a link that leads up no value of the entry travels.
\<close>

definition synced :: "entry_key \<Rightarrow> flow \<Rightarrow> endpoint \<Rightarrow> endpoint \<Rightarrow> bool" where
  "synced e f ep ep' \<longleftrightarrow>
     (\<exists>x y. f_val f (fst ep) e = Some y \<and> f_val f (fst ep') e = Some x \<and>
        alike (replay e x (f_chan f ep)) y)"

definition link_ok :: "entry_key \<Rightarrow> (endpoint \<Rightarrow> bool) \<Rightarrow> flow \<Rightarrow> endpoint \<Rightarrow> endpoint \<Rightarrow> bool" where
  "link_ok e down f ep ep' \<longleftrightarrow>
     (if down ep then f_sub f ep e \<and> FRequest e \<notin> set (f_chan f ep) \<and> synced e f ep ep'
      else FUnsubscribe e \<notin> set (f_chan f ep) \<and> (\<forall>v. FUpdate e v \<notin> set (f_chan f ep)))"

definition following :: "links \<Rightarrow> entry_key \<Rightarrow> (endpoint \<Rightarrow> bool) \<Rightarrow> flow \<Rightarrow> bool" where
  "following peer e down f \<longleftrightarrow> (\<forall>ep ep'. peer ep = Some ep' \<longrightarrow> link_ok e down f ep ep')"

text \<open>
  Only the root sets the entry, requests for it go up, nobody who is below gives up the
  subscription, and nothing on its way down is lost.
\<close>

fun single_writer :: "nat \<Rightarrow> (endpoint \<Rightarrow> bool) \<Rightarrow> entry_key \<Rightarrow> action \<Rightarrow> bool" where
  "single_writer r down e (ASet k p v rel) = ((vtype v, prop_index p) = e \<longrightarrow> k = r)"
| "single_writer r down e (ARequest ep t p rel) = ((t, prop_index p) = e \<longrightarrow> \<not> down ep)"
| "single_writer r down e (AUnsubscribe ep t p rel) = ((t, prop_index p) = e \<longrightarrow> down ep)"
| "single_writer r down e (ALose ep) = (\<not> down ep)"
| "single_writer r down e _ = True"

lemma orientedD:
  assumes "oriented peer r down" and "peer ep = Some ep'"
  shows "peer ep' = Some ep" and "fst ep' \<noteq> fst ep" and "down ep' \<longleftrightarrow> \<not> down ep"
  using assms unfolding oriented_def by blast+

lemma oriented_root: "oriented peer r down \<Longrightarrow> peer (r, j) = Some y \<Longrightarrow> down (r, j)"
  unfolding oriented_def by blast

lemma oriented_up:
  "oriented peer r down \<Longrightarrow> peer (k, j) = Some y \<Longrightarrow> peer (k, j') = Some z \<Longrightarrow> \<not> down (k, j) \<Longrightarrow>
   j' \<noteq> j \<Longrightarrow> down (k, j')"
  unfolding oriented_def by blast

text \<open>Each kind of step keeps the invariant of a link.\<close>

lemma link_ok_store_other:
  assumes "link_ok e down f ep ep'" and "e' \<noteq> e"
  shows "link_ok e down (flow_store peer k x e' v f) ep ep'"
  using assms by (auto simp: link_ok_def synced_def flow_store_def split: option.split)

lemma link_ok_store:
  assumes "link_ok e down f ep ep'" and "\<And>g. forwards peer k x e g ep \<Longrightarrow> down ep"
    and "peer ep \<noteq> None" and "fst ep = k \<Longrightarrow> down ep \<Longrightarrow> x \<noteq> Some (snd ep)"
    and "down ep \<Longrightarrow> fst ep' \<noteq> k"
  shows "link_ok e down (flow_store peer k x e v f) ep ep'"
proof (cases "down ep")
  case True
  then obtain xv yv where l: "f_sub f ep e" "FRequest e \<notin> set (f_chan f ep)"
    "f_val f (fst ep) e = Some yv" "f_val f (fst ep') e = Some xv"
    "alike (replay e xv (f_chan f ep)) yv"
    using assms(1) by (auto simp: link_ok_def synced_def)
  show ?thesis
  proof (cases "fst ep = k \<and> \<not> val_eq yv v")
    case True
    then have "forwards peer k x e f ep" using assms(3,4) l(1) \<open>down ep\<close> by (simp add: forwards_def)
    then show ?thesis
      using True \<open>down ep\<close> l assms(5) receive_alike [of e "replay e xv (f_chan f ep)" v]
      by (simp add: link_ok_def synced_def flow_store_def del: receive_simps)
  next
    case False
    then have "f_chan (flow_store peer k x e v f) ep = f_chan f ep"
      using l(3) by (auto simp: flow_store_def forwards_def split: option.split)
    with False l True assms(5) show ?thesis
      by (auto simp: link_ok_def synced_def flow_store_val split: option.split)
  qed
next
  case False
  then have "\<not> forwards peer k x e f ep" using assms(2) by blast
  with False assms(1) show ?thesis
    by (auto simp: link_ok_def flow_store_def split: option.split)
qed

lemma link_ok_pop:
  assumes "link_ok e down f x y" and "f_chan f ep = m # ms" and "down ep \<Longrightarrow> \<forall>v. m \<noteq> FUpdate e v"
  shows "link_ok e down (flow_pop ep f) x y"
proof (cases "x = ep")
  case True
  have "receive e z m = z" if "down ep" for z
    using assms(3) [OF that] by (cases m) auto
  with True assms(1,2) show ?thesis
    by (cases "down ep") (auto simp: link_ok_def synced_def)
next
  case False
  with assms(1) show ?thesis by (auto simp: link_ok_def synced_def split: if_splits)
qed

lemma link_ok_pop_up:
  assumes "link_ok e down f x y" and "x = ep \<Longrightarrow> \<not> down ep"
  shows "link_ok e down (flow_pop ep f) x y"
  using assms by (cases "x = ep") (auto simp: link_ok_def synced_def dest: in_set_tl split: if_splits)

lemma link_ok_send:
  assumes "link_ok e down f x y"
    and "x = ep \<Longrightarrow> down ep \<Longrightarrow> m \<noteq> FRequest e \<and> (\<forall>v. m = FUpdate e v \<longrightarrow> f_val f (fst ep) e = Some v)"
    and "x = ep \<Longrightarrow> \<not> down ep \<Longrightarrow> m \<noteq> FUnsubscribe e \<and> (\<forall>v. m \<noteq> FUpdate e v)"
  shows "link_ok e down (flow_send ep m f) x y"
proof (cases "x = ep \<and> down ep")
  case True
  with assms(1) obtain xv yv where l: "f_sub f ep e" "FRequest e \<notin> set (f_chan f ep)"
    "f_val f (fst ep) e = Some yv" "f_val f (fst y) e = Some xv"
    "alike (replay e xv (f_chan f ep)) yv"
    by (auto simp: link_ok_def synced_def)
  have "alike (receive e (replay e xv (f_chan f ep)) m) yv"
  proof (cases "\<exists>v. m = FUpdate e v")
    case True
    with assms(2) l(3) \<open>x = ep \<and> down ep\<close> have "m = FUpdate e yv" by auto
    then show ?thesis by (simp only: receive_alike)
  next
    case False
    then have "receive e z m = z" for z by (cases m) auto
    with l(5) show ?thesis by simp
  qed
  with True l assms(2) show ?thesis by (auto simp: link_ok_def synced_def)
next
  case False
  with assms(1,3) show ?thesis by (auto simp: link_ok_def synced_def)
qed

lemma link_ok_subscription:
  "link_ok e down f x y \<Longrightarrow> (x = ep \<Longrightarrow> down ep \<Longrightarrow> e' = e \<Longrightarrow> b) \<Longrightarrow>
   link_ok e down (flow_subscription ep e' b f) x y"
  by (auto simp: link_ok_def synced_def)

lemma following_link: "following peer e down f \<Longrightarrow> peer x = Some y \<Longrightarrow> link_ok e down f x y"
  unfolding following_def by blast

lemma followingI:
  "(\<And>x y. peer x = Some y \<Longrightarrow> link_ok e down f x y) \<Longrightarrow> following peer e down f"
  unfolding following_def by blast

text \<open>An update of the entry that arrives came from above, and goes on to all others below.\<close>

lemma following_update:
  assumes "oriented peer r down" and "following peer e down f" and "peer ep = Some (k, j)"
    and "f_chan f ep = FUpdate e v # ms"
  shows "following peer e down (flow_store peer k (Some j) e v (flow_pop ep f))"
proof (rule followingI)
  fix x y
  assume xy: "peer x = Some y"
  note sym = orientedD(1) [OF assms(1)] and up = oriented_up [OF assms(1)]
  have ep: "link_ok e down f ep (k, j)" using assms(2,3) by (rule following_link)
  then have down: "down ep" using assms(4) by (auto simp: link_ok_def split: if_splits)
  have kj: "peer (k, j) = Some ep" "\<not> down (k, j)" "k \<noteq> fst ep"
    using orientedD [OF assms(1,3)] down by auto
  show "link_ok e down (flow_store peer k (Some j) e v (flow_pop ep f)) x y"
  proof (cases "x = ep")
    case True
    then have "y = (k, j)" using xy assms(3) by simp
    with ep down assms(4) kj(3) True show ?thesis
      by (auto simp: link_ok_def synced_def flow_store_def forwards_def split: option.split)
  next
    case False
    have "link_ok e down (flow_pop ep f) x y"
      using following_link [OF assms(2) xy] False by (auto intro: link_ok_pop_up)
    then show ?thesis
    proof (rule link_ok_store)
      fix g
      assume "forwards peer k (Some j) e g x"
      then show "down x" using up [OF kj(1) _ kj(2)] xy by (cases x) (auto simp: forwards_def)
    next
      assume "fst x = k" and "down x"
      then show "Some j \<noteq> Some (snd x)" using kj(2) by (cases x) auto
    next
      assume "down x"
      show "fst y \<noteq> k"
      proof
        assume "fst y = k"
        then have "y = (k, j)"
          using up [OF kj(1) _ kj(2)] sym [OF xy] orientedD(3) [OF assms(1) xy] \<open>down x\<close>
          by (cases y) fastforce
        with sym [OF xy] kj(1) False show False by simp
      qed
    qed (use xy in simp)
  qed
qed

lemma following_deliver:
  assumes "oriented peer r down" and "following peer e down f" and "peer ep = Some (k, j)"
    and "f_chan f ep = m # ms"
  shows "following peer e down (flow_handle peer (k, j) m (flow_pop ep f))"
proof (cases "\<exists>v. m = FUpdate e v")
  case True
  with following_update [OF assms(1-3)] assms(4) show ?thesis by auto
next
  case False
  then have pop: "link_ok e down (flow_pop ep f) x y" if "peer x = Some y" for x y
    using link_ok_pop [OF following_link [OF assms(2) that] assms(4)] by blast
  have ep: "link_ok e down f ep (k, j)" using assms(2,3) by (rule following_link)
  have kj: "down (k, j) \<longleftrightarrow> \<not> down ep" using orientedD [OF assms(1,3)] by simp
  show ?thesis
  proof (rule followingI)
    fix x y
    assume xy: "peer x = Some y"
    show "link_ok e down (flow_handle peer (k, j) m (flow_pop ep f)) x y"
    proof (cases m)
      case (FUpdate e' v)
      with False pop [OF xy] show ?thesis by (auto intro: link_ok_store_other)
    next
      case (FRequest e')
      with ep assms(4) have "e' = e \<Longrightarrow> \<not> down ep" by (auto simp: link_ok_def)
      with FRequest pop [OF xy] kj show ?thesis
        by (auto split: option.split intro!: link_ok_send)
    next
      case (FSubscribe e')
      with pop [OF xy] show ?thesis by (auto intro: link_ok_subscription)
    next
      case (FUnsubscribe e')
      with ep assms(4) have "e' = e \<Longrightarrow> down ep" by (auto simp: link_ok_def split: if_splits)
      with FUnsubscribe pop [OF xy] kj show ?thesis by (auto intro: link_ok_subscription)
    qed
  qed
qed

lemma following_do:
  assumes "oriented peer r down" and "following peer e down f" and "single_writer r down e a"
  shows "following peer e down (flow_do peer a f)"
proof (cases a)
  case (ASet k p v rel)
  show ?thesis
  proof (rule followingI)
    fix x y
    assume xy: "peer x = Some y"
    note l = following_link [OF assms(2) xy]
    show "link_ok e down (flow_do peer a f) x y"
    proof (cases "(vtype v, prop_index p) = e")
      case True
      then have k: "k = r" using assms(3) ASet by simp
      have "link_ok e down (flow_store peer r None e v f) x y"
      proof (rule link_ok_store [OF l])
        show "down x" if "forwards peer r None e g x" for g
          using that oriented_root [OF assms(1)] by (cases x) (auto simp: forwards_def)
        assume "down x"
        then show "fst y \<noteq> r"
          using oriented_root [OF assms(1), of "snd y" x] orientedD(1,3) [OF assms(1) xy]
          by (cases y) auto
      qed (use xy in simp_all)
      with True k ASet show ?thesis by simp
    qed (use l ASet in \<open>simp add: link_ok_store_other\<close>)
  qed
next
  case (ADeliver ep)
  with assms(2) following_deliver [OF assms(1,2)] show ?thesis
    by (auto split: option.split list.split)
next
  case (ALose ep)
  with assms(2,3) show ?thesis by (auto intro!: followingI link_ok_pop_up dest: following_link)
qed (use assms(2,3) in \<open>auto intro!: followingI link_ok_send dest: following_link\<close>)

text \<open>The programs below the root, and the root.\<close>

definition below :: "links \<Rightarrow> (endpoint \<Rightarrow> bool) \<Rightarrow> nat \<Rightarrow> nat \<Rightarrow> bool" where
  "below peer down s k \<longleftrightarrow> (\<exists>i j. peer (s, i) = Some (k, j) \<and> down (s, i))"

definition nothing_in_flight :: "links \<Rightarrow> flow \<Rightarrow> bool" where
  "nothing_in_flight peer f \<longleftrightarrow> (\<forall>ep. peer ep \<noteq> None \<longrightarrow> f_chan f ep = [])"

lemma following_agree:
  assumes "following peer e down f" and "nothing_in_flight peer f" and "(below peer down)\<^sup>*\<^sup>* r k"
    and "f_val f r e = Some v"
  shows "\<exists>x. f_val f k e = Some x \<and> alike x v"
  using assms(3)
proof (induction rule: rtranclp_induct)
  case base
  with assms(4) show ?case by simp
next
  case (step s k)
  then obtain x i j where x: "f_val f s e = Some x" "alike x v" "peer (s, i) = Some (k, j)"
    "down (s, i)" by (auto simp: below_def)
  from following_link [OF assms(1) x(3)] x assms(2) show ?case
    by (auto simp: link_ok_def synced_def nothing_in_flight_def intro: alike_trans)
qed

interpretation tree: run_invariant peer "\<lambda>f. oriented peer r down \<and> following peer e down f"
  "single_writer r down e" for peer r down e
  by unfold_locales (auto intro: following_do)

text \<open>The root holds what its own sets made of its first value.\<close>

fun set_msg :: "action \<Rightarrow> flow_msg list" where
  "set_msg (ASet k p v rel) = [FUpdate (vtype v, prop_index p) v]"
| "set_msg _ = []"

lemma root_do:
  assumes "oriented peer r down" and "following peer e down f" and "single_writer r down e a"
    and "f_val f r e = Some x"
  shows "f_val (flow_do peer a f) r e = Some (replay e x (set_msg a))"
proof (cases a)
  case (ASet k p v rel)
  show ?thesis
  proof (cases "(vtype v, prop_index p) = e")
    case True
    then have "k = r" using assms(3) ASet by simp
    with True ASet assms(4) show ?thesis by (simp add: flow_store_val)
  next
    case False
    then have "f_val (flow_store peer k None (vtype v, prop_index p) v f) r e = f_val f r e"
      unfolding flow_store_val by metis
    with False ASet assms(4) show ?thesis by simp
  qed
next
  case (ADeliver ep)
  have "fst ep' \<noteq> r" if p: "peer ep = Some ep'" and m: "f_chan f ep = FUpdate e v # ms" for ep' v ms
  proof
    assume "fst ep' = r"
    moreover have "down ep"
      using following_link [OF assms(2) p] m by (auto simp: link_ok_def split: if_splits)
    ultimately show False
      using orientedD(1,3) [OF assms(1) p] oriented_root [OF assms(1), of "snd ep'" ep]
      by (cases ep') auto
  qed
  then have "f_val (flow_handle peer ep' m (flow_pop ep f)) r e = Some x"
    if "peer ep = Some ep'" and "f_chan f ep = m # ms" for ep' m ms
    using that assms(4) by (cases m) (auto simp: flow_store_val split: option.split)
  with ADeliver assms(4) show ?thesis by (auto split: option.split list.split)
qed (use assms(4) in auto)

lemma replay_append: "replay e x (ms @ ms') = replay e (replay e x ms) ms'"
  by (simp add: replay_def)

lemma root_run:
  assumes "oriented peer r down" and "following peer e down f"
    and "list_all (single_writer r down e) as" and "f_val f r e = Some x"
  shows "f_val (flow_run peer as f) r e = Some (replay e x (concat (map set_msg as)))"
  using assms(2-)
proof (induction as arbitrary: f x)
  case (Cons a as)
  have a: "single_writer r down e a" and as: "list_all (single_writer r down e) as"
    using Cons.prems(2) by simp_all
  from Cons.IH [OF following_do [OF assms(1) Cons.prems(1) a] as
      root_do [OF assms(1) Cons.prems(1) a Cons.prems(3)]]
  show ?case by (simp only: flow_run.simps list.map concat.simps replay_append)
qed simp

section \<open>When the registries never agree\<close>

text \<open>Two programs with one link; \<open>idle_link\<close> has nothing in flight and both subscribed.\<close>

definition idle_link :: "links \<Rightarrow> entry_key \<Rightarrow> endpoint \<Rightarrow> endpoint \<Rightarrow> flow \<Rightarrow> bool" where
  "idle_link peer e a b f \<longleftrightarrow> peer a = Some b \<and> peer b = Some a \<and> fst a \<noteq> fst b \<and>
     f_chan f a = [] \<and> f_chan f b = [] \<and> f_sub f a e \<and> f_sub f b e"

text \<open>The values cross on the link and are swapped, for good.\<close>

lemma flow_crossing:
  assumes "idle_link peer (vtype v, prop_index p) a b f" and "vtype w = vtype v"
    and "f_val f (fst a) (vtype v, prop_index p) = Some x" and "\<not> val_eq x v"
    and "f_val f (fst b) (vtype v, prop_index p) = Some y" and "\<not> val_eq y w"
    and "\<not> val_eq v w"
  shows "let f' = flow_run peer [ASet (fst a) p v rel, ASet (fst b) p w rel', ADeliver a, ADeliver b] f
    in f_val f' (fst a) (vtype v, prop_index p) = Some w \<and>
      f_val f' (fst b) (vtype v, prop_index p) = Some v \<and>
      idle_link peer (vtype v, prop_index p) a b f'"
proof -
  obtain A i B j where ab: "a = (A, i)" "b = (B, j)" by (cases a, cases b)
  show ?thesis
    using assms val_eq_sym [of w v]
    by (auto simp: ab idle_link_def flow_store_def forwards_def Let_def)
qed

text \<open>
  Two programs with two links: \<open>double_link\<close> has the values \<open>x\<close> and \<open>y\<close> in the programs and the
  updates \<open>us\<close> on their way on the first link.
\<close>

definition double_link ::
  "links \<Rightarrow> entry_key \<Rightarrow> endpoint \<Rightarrow> endpoint \<Rightarrow> endpoint \<Rightarrow> endpoint \<Rightarrow> bool" where
  "double_link peer e a1 b1 a2 b2 \<longleftrightarrow>
     peer a1 = Some b1 \<and> peer b1 = Some a1 \<and> peer a2 = Some b2 \<and> peer b2 = Some a2 \<and>
     fst a2 = fst a1 \<and> fst b2 = fst b1 \<and> fst a1 \<noteq> fst b1 \<and> a1 \<noteq> a2 \<and> b1 \<noteq> b2"

definition double_state ::
  "entry_key \<Rightarrow> endpoint \<Rightarrow> endpoint \<Rightarrow> endpoint \<Rightarrow> endpoint \<Rightarrow> val \<Rightarrow> val \<Rightarrow> val list \<Rightarrow> val list \<Rightarrow>
     val list \<Rightarrow> flow \<Rightarrow> bool" where
  "double_state e a1 b1 a2 b2 x y us us' ws f \<longleftrightarrow>
     f_val f (fst a1) e = Some x \<and> f_val f (fst b1) e = Some y \<and>
     f_chan f a1 = map (FUpdate e) us \<and> f_chan f a2 = map (FUpdate e) us' \<and>
     f_chan f b1 = [] \<and> f_chan f b2 = map (FUpdate e) ws \<and>
     f_sub f a1 e \<and> f_sub f a2 e \<and> f_sub f b1 e \<and> f_sub f b2 e"

text \<open>A value that is set goes out on both links.\<close>

lemma double_set:
  assumes "double_link peer e a1 b1 a2 b2" and "double_state e a1 b1 a2 b2 x y us us' ws f"
    and "\<not> val_eq x v" and "(vtype v, prop_index p) = e"
  shows "double_state e a1 b1 a2 b2 v y (us @ [v]) (us' @ [v]) ws
    (flow_do peer (ASet (fst a1) p v rel) f)"
proof -
  have "f_val f (fst a1) e = Some x" using assms(2) by (simp add: double_state_def)
  note c = flow_store_change [OF this assms(3)]
  show ?thesis
    using assms(1,2) by (auto simp: assms(4) c double_link_def double_state_def forwards_def)
qed

text \<open>A value that differs goes round: it is sent back on the second link and out on the first.\<close>

lemma double_deliver:
  assumes "double_link peer e a1 b1 a2 b2"
    and "double_state e a1 b1 a2 b2 x y (v # us) us' ws f" and "\<not> val_eq y v"
  shows "double_state e a1 b1 a2 b2 x v us us' (ws @ [v]) (flow_do peer (ADeliver a1) f)"
proof -
  have "f_val (flow_pop a1 f) (fst b1) e = Some y" using assms(2) by (simp add: double_state_def)
  note c = flow_store_change [OF this assms(3)]
  have "snd b1 \<noteq> snd b2" using assms(1) by (auto simp: double_link_def prod_eq_iff)
  then show ?thesis
    using assms(1,2) by (auto simp: c double_link_def double_state_def forwards_def)
qed

lemma double_return:
  assumes "double_link peer e a1 b1 a2 b2"
    and "double_state e a1 b1 a2 b2 x y us us' (v # ws) f" and "\<not> val_eq x v"
  shows "double_state e a1 b1 a2 b2 v y (us @ [v]) us' ws (flow_do peer (ADeliver b2) f)"
proof -
  have fst: "fst a2 = fst a1" and snd: "snd a1 \<noteq> snd a2" "a2 \<noteq> b2"
    using assms(1) by (auto simp: double_link_def prod_eq_iff)
  have "f_val (flow_pop b2 f) (fst a1) e = Some x" using assms(2) by (simp add: double_state_def)
  note c = flow_store_change [OF this assms(3)]
  show ?thesis
    using assms(1,2) snd by (auto simp: fst c double_link_def double_state_def forwards_def)
qed

lemma double_second:
  assumes "double_link peer e a1 b1 a2 b2"
    and "double_state e a1 b1 a2 b2 x y us (v # us') ws f" and "val_eq y v"
  shows "double_state e a1 b1 a2 b2 x y us us' ws (flow_do peer (ADeliver a2) f)"
proof -
  have fst: "fst b2 = fst b1" "a2 \<noteq> b2" using assms(1) by (auto simp: double_link_def)
  have "f_val (flow_pop a2 f) (fst b1) e = Some y" using assms(2) by (simp add: double_state_def)
  note c = flow_store_same [OF this assms(3)]
  show ?thesis
    using assms(1,2) fst(2) by (auto simp: fst(1) c double_link_def double_state_def)
qed

text \<open>
  Two values set one after the other. Each round ends as it began: both programs took the
  first value, then the second, and both are on their way again.
\<close>

definition double_start :: "endpoint \<Rightarrow> endpoint \<Rightarrow> endpoint \<Rightarrow> property \<Rightarrow> val \<Rightarrow> val \<Rightarrow> action list" where
  "double_start a1 a2 b2 p v w =
     [ASet (fst a1) p v DefaultReliability, ASet (fst a1) p w DefaultReliability,
      ADeliver a1, ADeliver a2, ADeliver b2, ADeliver a1, ADeliver a2, ADeliver b2]"

definition double_round :: "endpoint \<Rightarrow> endpoint \<Rightarrow> action list" where
  "double_round a1 b2 = [ADeliver a1, ADeliver b2, ADeliver a1, ADeliver b2]"

lemma double_half:
  assumes "double_link peer e a1 b1 a2 b2" and "double_state e a1 b1 a2 b2 x x [y, x] us' [] f"
    and "\<not> val_eq x y"
  shows "double_state e a1 b1 a2 b2 y y [x, y] us' [] (flow_run peer [ADeliver a1, ADeliver b2] f)"
proof -
  from double_deliver [OF assms(1,2,3)] have "double_state e a1 b1 a2 b2 x y [x] us' [y]
      (flow_do peer (ADeliver a1) f)" by simp
  from double_return [OF assms(1) this assms(3)] show ?thesis by simp
qed

lemma double_circulates:
  assumes "double_link peer (vtype v, prop_index p) a1 b1 a2 b2" (is "double_link peer ?e a1 b1 a2 b2")
    and "double_state (vtype v, prop_index p) a1 b1 a2 b2 x y [] [] [] f"
    and "vtype w = vtype v" and "\<not> val_eq v w" and "\<not> is_nan v" and "\<not> is_nan w"
    and "\<not> val_eq x v" and "\<not> val_eq y v"
  shows "double_state (vtype v, prop_index p) a1 b1 a2 b2 w w [v, w] [] []
    (flow_run peer (double_start a1 a2 b2 p v w @ concat (replicate n (double_round a1 b2))) f)"
proof -
  note link = assms(1)
  have ne: "\<not> val_eq w v" "val_eq v v" "val_eq w w"
    using assms(4-6) val_eq_sym [of w v] by (auto simp: val_eq_refl_iff)
  have start: "double_state ?e a1 b1 a2 b2 w w [v, w] [] [] (flow_run peer (double_start a1 a2 b2 p v w) f)"
  proof -
    let ?f1 = "flow_do peer (ASet (fst a1) p v DefaultReliability) f"
    let ?f2 = "flow_do peer (ASet (fst a1) p w DefaultReliability) ?f1"
    have "double_state ?e a1 b1 a2 b2 v y ([] @ [v]) ([] @ [v]) [] ?f1"
      using double_set [OF link assms(2,7)] by simp
    then have "double_state ?e a1 b1 a2 b2 w y (([] @ [v]) @ [w]) (([] @ [v]) @ [w]) [] ?f2"
      by (rule double_set [OF link _ assms(4)]) (simp_all add: assms(3))
    then have "double_state ?e a1 b1 a2 b2 w y [v, w] [v, w] [] ?f2" by simp
    from double_deliver [OF link this assms(8)] have "double_state ?e a1 b1 a2 b2 w v [w] [v, w] [v]
        (flow_do peer (ADeliver a1) ?f2)" by simp
    from double_second [OF link this ne(2)] have "double_state ?e a1 b1 a2 b2 w v [w] [w] [v]
        (flow_do peer (ADeliver a2) (flow_do peer (ADeliver a1) ?f2))" .
    from double_return [OF link this ne(1)] have "double_state ?e a1 b1 a2 b2 v v [w, v] [w] []
        (flow_run peer [ADeliver a1, ADeliver a2, ADeliver b2] ?f2)" by simp
    from double_deliver [OF link this assms(4)] have "double_state ?e a1 b1 a2 b2 v w [v] [w] [w]
        (flow_do peer (ADeliver a1) (flow_run peer [ADeliver a1, ADeliver a2, ADeliver b2] ?f2))" by simp
    from double_second [OF link this ne(3)] have "double_state ?e a1 b1 a2 b2 v w [v] [] [w]
        (flow_do peer (ADeliver a2) (flow_do peer (ADeliver a1)
          (flow_run peer [ADeliver a1, ADeliver a2, ADeliver b2] ?f2)))" .
    from double_return [OF link this assms(4)] show ?thesis by (simp add: double_start_def)
  qed
  have round: "double_state ?e a1 b1 a2 b2 w w [v, w] [] [] (flow_run peer (double_round a1 b2) g)"
    if "double_state ?e a1 b1 a2 b2 w w [v, w] [] [] g" for g
  proof -
    from double_half [OF link that ne(1)] have "double_state ?e a1 b1 a2 b2 v v [w, v] [] []
        (flow_run peer [ADeliver a1, ADeliver b2] g)" .
    from double_half [OF link this assms(4)] show ?thesis by (simp add: double_round_def)
  qed
  show ?thesis
  proof (induction n)
    case 0
    with start show ?case by simp
  next
    case (Suc n)
    have "concat (replicate (Suc n) (double_round a1 b2)) =
        concat (replicate n (double_round a1 b2)) @ double_round a1 b2"
      by (induction n) simp_all
    with round [OF Suc.IH] show ?case by (simp add: flow_run_append)
  qed
qed

end
