(* ===== verification/Network.thy ===== *)
theory Network
  imports LiteComm Flow
begin

text \<open>
  Several programs, each with its registry and its adapters, connected by links that deliver
  in order. The operations are those of theories \<open>Registry\<close>, \<open>Adapter\<close> and \<open>LiteComm\<close>; what is added is
  only who is connected to whom and what the RCore library and the transports make of a call on
  a transmit buffer. The theory shows that this network implements the specification of
  theory \<open>Flow\<close> and draws the conclusions.
\<close>

section \<open>The network\<close>

text \<open>
  What the RCore library and the transport make of a call on a transmit buffer: an entry that
  the receiving adapter's handler gets. \<open>enc\<close> are the bytes of a value.
\<close>

definition received :: "(val \<Rightarrow> bytes) \<Rightarrow> tb_call \<Rightarrow> tb_entry \<Rightarrow> bool" where
  "received enc c e \<longleftrightarrow>
     (case c of
        TbSend ty pid v ack \<Rightarrow> e_type e = ty \<and> e_property e = pid \<and> e_message_type e = MSG_UPDATE \<and>
          e_reliable e = ack \<and> e_data e = Some (enc v)
      | TbCtrl ty pid mt ack \<Rightarrow> e_type e = ty \<and> e_property e = pid \<and> e_message_type e = mt \<and>
          e_reliable e = ack)"

text \<open>
  The environment of each program, the links, and the entry that the receiving end's parser
  finishes for a call on the sending end's buffer, which may depend on the calls before it (the
  library counts sequence numbers), and the time at which it is handled.
\<close>

record network_env =
  n_env :: "nat \<Rightarrow> rcore"
  n_peer :: links
  n_enc :: "val \<Rightarrow> bytes"
  n_wire :: "tb_call list \<Rightarrow> tb_call \<Rightarrow> tb_entry"
  n_clock :: "nat \<Rightarrow> int"

text \<open>
  The state: the objects of each program, and how many of the calls on each end's buffer the
  link has taken.
\<close>

record net =
  n_world :: "nat \<Rightarrow> world"
  n_delivered :: "endpoint \<Rightarrow> nat"

definition tb_log :: "world \<Rightarrow> nat \<Rightarrow> tb_call list" where
  "tb_log w j = (case w_heap w j of None \<Rightarrow> [] | Some a \<Rightarrow> m_transmit_buffer a)"

definition in_flight :: "net \<Rightarrow> endpoint \<Rightarrow> tb_call list" where
  "in_flight n ep = drop (n_delivered n ep) (tb_log (n_world n (fst ep)) (snd ep))"

definition set_world :: "net \<Rightarrow> nat \<Rightarrow> world \<Rightarrow> net" where
  "set_world n k w = n\<lparr>n_world := (n_world n)(k := w)\<rparr>"

definition take_message :: "net \<Rightarrow> endpoint \<Rightarrow> net" where
  "take_message n ep = n\<lparr>n_delivered := (n_delivered n)(ep := Suc (n_delivered n ep))\<rparr>"

text \<open>A call of an adapter's method by the program that owns it.\<close>

definition adapter_do ::
  "net \<Rightarrow> endpoint \<Rightarrow> (adapter \<Rightarrow> (rcore_event \<times> adapter) res) \<Rightarrow> net res" where
  "adapter_do n ep op =
     (let w = n_world n (fst ep) in
      case w_heap w (snd ep) of
        None \<Rightarrow> Inl NullDeref
      | Some a \<Rightarrow> bindR (op a) (\<lambda>r. Inr (set_world n (fst ep) (put_adapter w (snd ep) (snd r)))))"

fun net_do :: "network_env \<Rightarrow> action \<Rightarrow> net \<Rightarrow> net res" where
  "net_do T (ASet k p v rel) n =
     bindR (registry_set (n_env T k) (n_world n k) p v rel) (\<lambda>w. Inr (set_world n k w))"
| "net_do T (ARequest ep t p rel) n =
     adapter_do n ep (\<lambda>a. Inr (request (n_env T (fst ep)) a t p rel))"
| "net_do T (ASubscribe ep t p rel) n =
     adapter_do n ep (\<lambda>a. subscribe (n_env T (fst ep)) a t p rel)"
| "net_do T (AUnsubscribe ep t p rel) n =
     adapter_do n ep (\<lambda>a. unsubscribe (n_env T (fst ep)) a t p rel)"
| "net_do T (ADeliver ep) n =
     (case n_peer T ep of
        None \<Rightarrow> Inr n
      | Some (k, j) \<Rightarrow>
          (case in_flight n ep of
             [] \<Rightarrow> Inr n
           | c # _ \<Rightarrow>
               let d = n_delivered n ep;
                   e = n_wire T (take d (tb_log (n_world n (fst ep)) (snd ep))) c
               in bindR (on_finished (n_env T k) (n_clock T d) (n_world n k) j e) (\<lambda>w.
                    Inr (set_world (take_message n ep) k w))))"
| "net_do T (ALose ep) n =
     (if n_peer T ep = None \<or> in_flight n ep = [] then Inr n else Inr (take_message n ep))"

fun net_run :: "network_env \<Rightarrow> action list \<Rightarrow> net \<Rightarrow> net res" where
  "net_run T [] n = Inr n"
| "net_run T (a # as) n = bindR (net_do T a n) (\<lambda>n'. net_run T as n')"

lemma net_run_append:
  "net_run T (as @ bs) n = bindR (net_run T as n) (\<lambda>n'. net_run T bs n')"
  by (induction as arbitrary: n) (auto simp: bindR_assoc intro!: bindR_cong)

section \<open>Well-formed networks\<close>

text \<open>A call that means something to the other end: it names an entry that is no string.\<close>

definition link_call :: "tb_call \<Rightarrow> bool" where
  "link_call c \<longleftrightarrow>
     (case c of
        TbSend ty pid v ack \<Rightarrow> vtype v \<noteq> String \<and> valid_prop (vtype v) (unat pid) \<and>
          unat ty = Type_int (vtype v)
      | TbCtrl ty pid mt ack \<Rightarrow> mt \<in> {MSG_REQUEST, MSG_SUBSCRIBE, MSG_UNSUBSCRIBE} \<and>
          (\<exists>t. t \<noteq> String \<and> unat ty = Type_int t \<and> valid_prop t (unat pid)))"

text \<open>
  What is relied on: links connect both ways, the library hands every call to the other end as
  it was made, its decoders invert the encoding, and it numbers the four kinds of messages.
\<close>

definition network_ok :: "network_env \<Rightarrow> bool" where
  "network_ok T \<longleftrightarrow>
     (\<forall>ep ep'. n_peer T ep = Some ep' \<longrightarrow> n_peer T ep' = Some ep) \<and>
     (\<forall>l c. received (n_enc T) c (n_wire T l c)) \<and>
     (\<forall>k v. vtype v \<noteq> String \<longrightarrow> from_data (n_env T k) (vtype v) (n_enc T v) = Some v) \<and>
     (\<forall>k mt. mt \<in> {MSG_UPDATE, MSG_REQUEST, MSG_SUBSCRIBE, MSG_UNSUBSCRIBE} \<longrightarrow>
        message_type_to_num (n_env T k) mt < MESSAGE_TYPE_COUNT (n_env T k))"

text \<open>
  The adapter of a link: it is alive, registered once with its registry, accepts properties and
  drops nothing.
\<close>

definition link_adapter :: "world \<Rightarrow> nat \<Rightarrow> bool" where
  "link_adapter w j \<longleftrightarrow> count_list (m_adapters w) (Some j) = 1 \<and>
     (\<exists>a. w_heap w j = Some a \<and> m_registry a \<and> m_acceptProperty a \<and> m_dropperPolicy a = BasePolicy \<and>
        list_all link_call (m_transmit_buffer a))"

definition wf_net :: "network_env \<Rightarrow> net \<Rightarrow> bool" where
  "wf_net T n \<longleftrightarrow> (\<forall>k. wf_world (n_env T k) (n_world n k)) \<and>
     (\<forall>ep. n_peer T ep \<noteq> None \<longrightarrow> link_adapter (n_world n (fst ep)) (snd ep) \<and>
        n_delivered n ep \<le> length (tb_log (n_world n (fst ep)) (snd ep)))"

text \<open>Programs name entries of the catalogue that are no strings, and use adapters of links.\<close>

fun ok_action :: "network_env \<Rightarrow> action \<Rightarrow> bool" where
  "ok_action T (ASet k p v rel) = (vtype v \<noteq> String \<and> valid_prop (vtype v) (prop_index p))"
| "ok_action T (ARequest ep t p rel) = (n_peer T ep \<noteq> None \<and> t \<noteq> String \<and> valid_prop t (unat p))"
| "ok_action T (ASubscribe ep t p rel) = (n_peer T ep \<noteq> None \<and> t \<noteq> String \<and> valid_prop t (unat p))"
| "ok_action T (AUnsubscribe ep t p rel) = (n_peer T ep \<noteq> None \<and> t \<noteq> String \<and> valid_prop t (unat p))"
| "ok_action T _ = True"

section \<open>The abstraction\<close>

definition world_sub :: "world \<Rightarrow> nat \<Rightarrow> entry_key \<Rightarrow> bool" where
  "world_sub w j e =
     (case w_heap w j of None \<Rightarrow> False | Some a \<Rightarrow> subscribed_at a (fst e) (snd e))"

definition msg_of :: "tb_call \<Rightarrow> flow_msg" where
  "msg_of c =
     (case c of
        TbSend ty pid v ack \<Rightarrow> FUpdate (vtype v, unat pid) v
      | TbCtrl ty pid mt ack \<Rightarrow>
          (let e = (the (Type_of (unat ty)), unat pid) in
           case mt of
             MSG_REQUEST \<Rightarrow> FRequest e
           | MSG_SUBSCRIBE \<Rightarrow> FSubscribe e
           | _ \<Rightarrow> FUnsubscribe e))"

definition flow_of :: "network_env \<Rightarrow> net \<Rightarrow> flow" where
  "flow_of T n =
     \<lparr>f_val = \<lambda>k. registry_map (n_world n k),
      f_sub = \<lambda>ep e. n_peer T ep \<noteq> None \<and> world_sub (n_world n (fst ep)) (snd ep) e,
      f_chan = \<lambda>ep. if n_peer T ep = None then [] else map msg_of (in_flight n ep)\<rparr>"

lemma flow_of_simps [simp]:
  "f_val (flow_of T n) k = registry_map (n_world n k)"
  "f_sub (flow_of T n) ep e = (n_peer T ep \<noteq> None \<and> world_sub (n_world n (fst ep)) (snd ep) e)"
  "f_chan (flow_of T n) ep = (if n_peer T ep = None then [] else map msg_of (in_flight n ep))"
  by (simp_all add: flow_of_def)

lemma set_world_simps [simp]:
  "n_world (set_world n k w) = (n_world n)(k := w)"
  "n_delivered (set_world n k w) = n_delivered n"
  by (simp_all add: set_world_def)

lemma take_message_simps [simp]:
  "n_world (take_message n ep) = n_world n"
  "n_delivered (take_message n ep) = (n_delivered n)(ep := Suc (n_delivered n ep))"
  by (simp_all add: take_message_def)

section \<open>What a step does to one program\<close>

lemma count_list_filter: "count_list (filter P xs) x = (if P x then count_list xs x else 0)"
  by (induction xs) auto

lemma heap_set_result:
  "w_heap (set_result w pid v rel) j = map_option (adapter_put pid v rel ^^
     (if val_eq (m_arrays w (vtype v) ! prop_index pid) v then 0
      else count_list (m_adapters w) (Some j))) (w_heap w j)"
  by (simp add: set_result_def Let_def option.map_id)

lemma adapters_set_result:
  "w_heap w j \<noteq> None \<Longrightarrow>
   count_list (m_adapters (set_result w pid v rel)) (Some j) = count_list (m_adapters w) (Some j)"
  by (simp add: set_result_def Let_def count_list_filter)

lemma unat_Type [simp]: "unat (word_of_nat (Type_int t) :: 8 word) = Type_int t"
  by (cases t) simp_all

lemma msg_of_value [simp]: "msg_of (value_call pid v rel) = FUpdate (vtype v, prop_index pid) v"
  by (simp add: msg_of_def value_call_def prop_index_def)

lemma link_call_value:
  "vtype v \<noteq> String \<Longrightarrow> valid_prop (vtype v) (prop_index pid) \<Longrightarrow> link_call (value_call pid v rel)"
  by (simp add: link_call_def value_call_def prop_index_def)

text \<open>
  The program stores \<open>v\<close>, which came in at the adapter \<open>x\<close>, or nowhere: its map changes, and
  each adapter of a link but \<open>x\<close> that has the entry subscribed sends the change.
\<close>

definition stores :: "rcore \<Rightarrow> world \<Rightarrow> nat option \<Rightarrow> entry_key \<Rightarrow> val \<Rightarrow> world \<Rightarrow> bool" where
  "stores env w x e v w' \<longleftrightarrow> wf_world env w' \<and>
     (\<exists>old. registry_map w e = Some old \<and>
        registry_map w' = (if val_eq old v then registry_map w else (registry_map w)(e \<mapsto> v)) \<and>
        (\<forall>j. link_adapter w j \<longrightarrow> link_adapter w' j \<and> world_sub w' j = world_sub w j \<and>
           (\<exists>cs. tb_log w' j = tb_log w j @ cs \<and> map msg_of cs =
              (if \<not> val_eq old v \<and> x \<noteq> Some j \<and> world_sub w j e then [FUpdate e v] else []))))"

lemma put_link_adapter:
  assumes "link_adapter w j" and "w_heap w j = Some a" and "w_heap w' j = Some (adapter_put pid v rel a)"
    and "count_list (m_adapters w') (Some j) = count_list (m_adapters w) (Some j)"
    and "vtype v \<noteq> String" and "valid_prop (vtype v) (prop_index pid)"
  shows "link_adapter w' j \<and> world_sub w' j = world_sub w j \<and> tb_log w' j = tb_log w j @
    (if world_sub w j (vtype v, prop_index pid) then [value_call pid v rel] else [])"
proof -
  have "accepts a v pid \<longleftrightarrow> world_sub w j (vtype v, prop_index pid)"
    using assms(1,2,5) by (auto simp: link_adapter_def accepts_def world_sub_def)
  moreover have "world_sub w' j = world_sub w j"
    using assms(2,3) by (simp add: world_sub_def fun_eq_iff subscribed_at_def)
  ultimately show ?thesis
    using assms link_call_value [OF assms(5,6), of rel]
    by (auto simp: link_adapter_def tb_log_def transmit_buffer_put)
qed

lemma set_stores:
  assumes "wf_world env w" and "valid_prop (vtype v) (prop_index pid)" and "vtype v \<noteq> String"
  shows "stores env w None (vtype v, prop_index pid) v (set_result w pid v rel)"
proof -
  let ?w = "set_result w pid v rel" and ?e = "(vtype v, prop_index pid)"
  let ?old = "m_arrays w (vtype v) ! prop_index pid"
  have "link_adapter ?w j \<and> world_sub ?w j = world_sub w j \<and>
      (\<exists>cs. tb_log ?w j = tb_log w j @ cs \<and> map msg_of cs =
        (if \<not> val_eq ?old v \<and> world_sub w j ?e then [FUpdate ?e v] else []))"
    if j: "link_adapter w j" for j
  proof (cases "val_eq ?old v")
    case True
    with j show ?thesis by (simp add: set_result_def Let_def)
  next
    case False
    from j obtain a where a: "w_heap w j = Some a" "count_list (m_adapters w) (Some j) = 1"
      by (auto simp: link_adapter_def)
    have "w_heap ?w j = Some (adapter_put pid v rel a)" using False a by (simp add: heap_set_result)
    from put_link_adapter [OF j a(1) this _ assms(3,2)] False a(1) show ?thesis
      by (auto simp: adapters_set_result)
  qed
  then show ?thesis
    using wf_set_result [OF assms(1)] registry_map_set_result [OF assms(1,2), of rel]
      registry_map_eq [OF assms(1)] assms(2) by (simp add: stores_def)
qed

lemma stored_stores:
  assumes "wf_world env w" and "w_heap w i = Some a" and "link_adapter w i"
    and "valid_prop (vtype v) (prop_index pid)" and "vtype v \<noteq> String"
  shows "stores env w (Some i) (vtype v, prop_index pid) v
    (stored_world w i a BasePolicy pid v\<lparr>w_callbacks := c, m_persistencyPolicy := q\<rparr>)"
proof -
  let ?u = "put_adapter w i (updating a BasePolicy)"
  let ?s = "stored_world w i a BasePolicy pid v"
  let ?w = "?s\<lparr>w_callbacks := c, m_persistencyPolicy := q\<rparr>" and ?e = "(vtype v, prop_index pid)"
  let ?old = "m_arrays w (vtype v) ! prop_index pid"
  have a: "m_registry a" "list_all link_call (m_transmit_buffer a)"
    using assms(2,3) by (auto simp: link_adapter_def)
  have ad: "count_list (m_adapters ?w) (Some j) = count_list (m_adapters w) (Some j)"
    if "w_heap w j \<noteq> None" for j
    using that adapters_set_result [of ?u j pid v DefaultReliability]
    by (cases "j = i") (simp_all add: stored_world_def)
  have "link_adapter ?w j \<and> world_sub ?w j = world_sub w j \<and>
      (\<exists>cs. tb_log ?w j = tb_log w j @ cs \<and> map msg_of cs =
        (if \<not> val_eq ?old v \<and> Some i \<noteq> Some j \<and> world_sub w j ?e then [FUpdate ?e v] else []))"
    if j: "link_adapter w j" for j
  proof (cases "j = i")
    case True
    with j a assms(2) ad [of i] stored_world_adapter [of w i a BasePolicy pid v] show ?thesis
      by (auto simp: link_adapter_def world_sub_def tb_log_def updating_def subscribed_at_def)
  next
    case False
    from j obtain b where b: "w_heap w j = Some b" "count_list (m_adapters w) (Some j) = 1"
      by (auto simp: link_adapter_def)
    then have h: "w_heap ?w j = Some ((if val_eq ?old v then id else
        adapter_put pid v DefaultReliability) b)"
      using False by (simp add: stored_world_def heap_set_result)
    show ?thesis
    proof (cases "val_eq ?old v")
      case True
      with h j b ad [of j] show ?thesis
        by (auto simp: link_adapter_def world_sub_def tb_log_def)
    next
      case changed: False
      with h have "w_heap ?w j = Some (adapter_put pid v DefaultReliability b)" by simp
      from put_link_adapter [OF j b(1) this _ assms(5,4)] False changed b(1) ad [of j]
      show ?thesis by auto
    qed
  qed
  moreover have "wf_world env ?s \<and> registry_map ?s =
      (if val_eq ?old v then registry_map w else (registry_map w)(?e \<mapsto> v))"
    using stored_world_map [OF assms(1) wf_world_adapter [OF assms(1,2)] _ assms(4), of BasePolicy]
    by simp
  ultimately show ?thesis
    using registry_map_eq [OF assms(1)] assms(4) by (simp add: stores_def)
qed

section \<open>Every step implements the specification\<close>

lemma wf_netD:
  assumes "wf_net T n"
  shows "wf_world (n_env T k) (n_world n k)"
    and "n_peer T (k, j) = Some y \<Longrightarrow> link_adapter (n_world n k) j"
    and "n_peer T ep \<noteq> None \<Longrightarrow> n_delivered n ep \<le> length (tb_log (n_world n (fst ep)) (snd ep))"
proof -
  show "wf_world (n_env T k) (n_world n k)" using assms by (simp add: wf_net_def)
  have link: "n_peer T x \<noteq> None \<longrightarrow> link_adapter (n_world n (fst x)) (snd x) \<and>
      n_delivered n x \<le> length (tb_log (n_world n (fst x)) (snd x))" for x
    using assms unfolding wf_net_def by blast
  from link [of "(k, j)"] show "n_peer T (k, j) = Some y \<Longrightarrow> link_adapter (n_world n k) j" by simp
  from link [of ep] show "n_peer T ep \<noteq> None \<Longrightarrow>
      n_delivered n ep \<le> length (tb_log (n_world n (fst ep)) (snd ep))" by simp
qed

lemma flow_eqI:
  assumes "\<And>k. f_val f k = f_val g k" and "\<And>ep e. f_sub f ep e = f_sub g ep e"
    and "\<And>ep. f_chan f ep = f_chan g ep"
  shows "f = (g :: flow)"
  by (rule flow.equality) (simp_all add: assms fun_eq_iff)

lemma in_flight_set_world:
  assumes "wf_net T n" and "n_peer T ep \<noteq> None"
    and "fst ep = k \<Longrightarrow> tb_log w' (snd ep) = tb_log (n_world n k) (snd ep) @ cs"
  shows "in_flight (set_world n k w') ep = in_flight n ep @ (if fst ep = k then cs else [])"
  using assms(3) wf_netD(3) [OF assms(1,2)] by (auto simp: in_flight_def)

lemma store_refines:
  assumes n: "wf_net T n" and s: "stores (n_env T k) (n_world n k) x e v w'"
  shows "wf_net T (set_world n k w') \<and>
    flow_of T (set_world n k w') = flow_store (n_peer T) k x e v (flow_of T n)"
proof -
  let ?w = "n_world n k"
  obtain old where old: "registry_map ?w e = Some old" "wf_world (n_env T k) w'"
      "registry_map w' = (if val_eq old v then registry_map ?w else (registry_map ?w)(e \<mapsto> v))" and
    ad: "\<And>j. link_adapter ?w j \<Longrightarrow> link_adapter w' j \<and> world_sub w' j = world_sub ?w j \<and>
      (\<exists>cs. tb_log w' j = tb_log ?w j @ cs \<and> map msg_of cs =
        (if \<not> val_eq old v \<and> x \<noteq> Some j \<and> world_sub ?w j e then [FUpdate e v] else []))"
    using s unfolding stores_def by blast
  have link: "link_adapter ?w (snd ep)" if "n_peer T ep \<noteq> None" "fst ep = k" for ep
    using wf_netD(2) [OF n, of k "snd ep"] that by (cases ep) auto
  have wf: "wf_net T (set_world n k w')"
    using n old(2) ad link unfolding wf_net_def by fastforce
  have chan: "f_chan (flow_of T (set_world n k w')) ep =
      f_chan (flow_store (n_peer T) k x e v (flow_of T n)) ep" for ep
  proof (cases "n_peer T ep \<noteq> None \<and> fst ep = k")
    case True
    then obtain cs where cs: "tb_log w' (snd ep) = tb_log ?w (snd ep) @ cs"
      "map msg_of cs = (if \<not> val_eq old v \<and> x \<noteq> Some (snd ep) \<and> world_sub ?w (snd ep) e
         then [FUpdate e v] else [])" using ad [OF link] by blast
    with in_flight_set_world [OF n _ cs(1)] True old(1) show ?thesis
      by (auto simp: flow_store_def forwards_def)
  next
    case False
    with in_flight_set_world [OF n, of ep k w' "[]"] old(1) show ?thesis
      by (auto simp: flow_store_def forwards_def)
  qed
  have "flow_of T (set_world n k w') = flow_store (n_peer T) k x e v (flow_of T n)"
  proof (rule flow_eqI)
    show "f_val (flow_of T (set_world n k w')) k' =
        f_val (flow_store (n_peer T) k x e v (flow_of T n)) k'" for k'
      using old(1,3) by (simp add: flow_store_def)
    show "f_sub (flow_of T (set_world n k w')) ep e' =
        f_sub (flow_store (n_peer T) k x e v (flow_of T n)) ep e'" for ep e'
      using ad [OF link, of ep] by auto
  qed (rule chan)
  with wf show ?thesis ..
qed

lemma take_message_refines:
  assumes "wf_net T n" and "n_peer T ep \<noteq> None" and "in_flight n ep \<noteq> []"
  shows "wf_net T (take_message n ep) \<and>
    flow_of T (take_message n ep) = flow_pop ep (flow_of T n)"
proof -
  have "n_delivered n ep < length (tb_log (n_world n (fst ep)) (snd ep))"
    using assms(3) by (simp add: in_flight_def)
  then have "wf_net T (take_message n ep)"
    using assms(1) unfolding wf_net_def by auto
  moreover have "in_flight (take_message n ep) x = (if x = ep then tl (in_flight n ep) else in_flight n x)" for x
    by (simp add: in_flight_def drop_Suc tl_drop)
  then have "flow_of T (take_message n ep) = flow_pop ep (flow_of T n)"
    using assms(2) by (intro flow_eqI) (auto simp: map_tl)
  ultimately show ?thesis ..
qed

text \<open>The adapter of one end changes: its subscriptions, and what it sends.\<close>

lemma local_refines:
  assumes n: "wf_net T n" and p: "n_peer T (k, j) \<noteq> None" and a: "w_heap (n_world n k) j = Some a"
    and w': "wf_world (n_env T k) w'" "m_arrays w' = m_arrays (n_world n k)"
      "m_adapters w' = m_adapters (n_world n k)" "w_heap w' = (w_heap (n_world n k))(j \<mapsto> a')"
    and a': "m_registry a' = m_registry a" "m_acceptProperty a' = m_acceptProperty a"
      "m_dropperPolicy a' = m_dropperPolicy a" "m_transmit_buffer a' = m_transmit_buffer a @ cs"
      "list_all link_call cs"
  shows "wf_net T (set_world n k w') \<and> flow_of T (set_world n k w') =
    \<lparr>f_val = f_val (flow_of T n),
     f_sub = (f_sub (flow_of T n))((k, j) := \<lambda>e. subscribed_at a' (fst e) (snd e)),
     f_chan = (f_chan (flow_of T n))((k, j) := f_chan (flow_of T n) (k, j) @ map msg_of cs)\<rparr>"
    (is "_ \<and> _ = ?f")
proof -
  have link: "link_adapter w' j'" if "link_adapter (n_world n k) j'" for j'
    using that a a' w'(3,4) by (cases "j' = j") (auto simp: link_adapter_def)
  have log: "tb_log w' j' = tb_log (n_world n k) j' @ (if j' = j then cs else [])" for j'
    using a a' w'(4) by (simp add: tb_log_def)
  have "wf_net T (set_world n k w')"
    using n w'(1) link log unfolding wf_net_def by fastforce
  moreover have "flow_of T (set_world n k w') = ?f"
  proof (rule flow_eqI)
    fix k' and ep :: endpoint and e
    show "f_val (flow_of T (set_world n k w')) k' = f_val ?f k'"
      using w'(2) by (simp add: registry_map_def)
    show "f_sub (flow_of T (set_world n k w')) ep e = f_sub ?f ep e"
      using w'(4) p by (cases ep) (auto simp: world_sub_def)
    show "f_chan (flow_of T (set_world n k w')) ep = f_chan ?f ep"
      using in_flight_set_world [OF n, of ep k w' "if snd ep = j then cs else []"] p
      by (cases ep) (auto simp: log)
  qed
  ultimately show ?thesis ..
qed

lemma f_sub_adapter:
  "n_peer T (k, j) \<noteq> None \<Longrightarrow> w_heap (n_world n k) j = Some a \<Longrightarrow>
   f_sub (flow_of T n) (k, j) = (\<lambda>e. subscribed_at a (fst e) (snd e))"
  by (rule ext) (auto simp: world_sub_def)

lemma send_refines:
  assumes "wf_net T n" and "n_peer T (k, j) \<noteq> None" and "w_heap (n_world n k) j = Some a"
    and "wf_world (n_env T k) w'" "m_arrays w' = m_arrays (n_world n k)"
      "m_adapters w' = m_adapters (n_world n k)" "w_heap w' = (w_heap (n_world n k))(j \<mapsto> a')"
    and "m_registry a' = m_registry a" "m_acceptProperty a' = m_acceptProperty a"
      "m_dropperPolicy a' = m_dropperPolicy a" "m_transmit_buffer a' = m_transmit_buffer a @ [c]"
      "link_call c" "m_subscriptions a' = m_subscriptions a"
  shows "wf_net T (set_world n k w') \<and>
    flow_of T (set_world n k w') = flow_send (k, j) (msg_of c) (flow_of T n)"
proof -
  have "(f_sub (flow_of T n))((k, j) := \<lambda>e. subscribed_at a' (fst e) (snd e)) = f_sub (flow_of T n)"
    using f_sub_adapter [OF assms(2,3)] assms(13) by (simp add: subscribed_at_def fun_upd_idem)
  with local_refines [OF assms(1-11)] assms(12) show ?thesis by (simp add: flow_send_def flow_of_def)
qed

lemma subscription_refines:
  assumes "wf_net T n" and "n_peer T (k, j) \<noteq> None" and "w_heap (n_world n k) j = Some a"
    and "wf_world (n_env T k) w'" "m_arrays w' = m_arrays (n_world n k)"
      "m_adapters w' = m_adapters (n_world n k)" "w_heap w' = (w_heap (n_world n k))(j \<mapsto> a')"
    and "m_registry a' = m_registry a" "m_acceptProperty a' = m_acceptProperty a"
      "m_dropperPolicy a' = m_dropperPolicy a" "m_transmit_buffer a' = m_transmit_buffer a @ []"
    and "\<And>s i. subscribed_at a' s i = (if (s, i) = e then b else subscribed_at a s i)"
  shows "wf_net T (set_world n k w') \<and>
    flow_of T (set_world n k w') = flow_subscription (k, j) e b (flow_of T n)"
proof -
  have "(\<lambda>e'. subscribed_at a' (fst e') (snd e')) = (f_sub (flow_of T n) (k, j))(e := b)"
    using f_sub_adapter [OF assms(2,3)] assms(12) by (auto simp: fun_eq_iff)
  with local_refines [OF assms(1-11)] show ?thesis
    by (simp add: flow_subscription_def flow_of_def fun_upd_idem)
qed

lemma arrival_refines:
  assumes T: "network_ok T" and n: "wf_net T n" and p: "n_peer T (k, j) = Some y"
    and c: "link_call c" and e: "received (n_enc T) c e"
  shows "\<exists>w. on_finished (n_env T k) now (n_world n k) j e = Inr w \<and> wf_net T (set_world n k w) \<and>
    flow_of T (set_world n k w) = flow_handle (n_peer T) (k, j) (msg_of c) (flow_of T n)"
proof -
  let ?w = "n_world n k" and ?env = "n_env T k"
  have p': "n_peer T (k, j) \<noteq> None" using p by simp
  have wf: "wf_world ?env ?w" and l: "link_adapter ?w j" using wf_netD [OF n] p by auto
  then obtain a where a: "w_heap ?w j = Some a" "m_registry a" "m_acceptProperty a"
    "m_dropperPolicy a = BasePolicy" by (auto simp: link_adapter_def)
  have num: "message_type_to_num ?env mt < MESSAGE_TYPE_COUNT ?env"
    if "mt \<in> {MSG_UPDATE, MSG_REQUEST, MSG_SUBSCRIBE, MSG_UNSUBSCRIBE}" for mt
    using T that unfolding network_ok_def by blast
  show ?thesis
  proof (cases c)
    case (TbSend ty pid v ack)
    with c have v: "vtype v \<noteq> String" "valid_prop (vtype v) (unat pid)" "unat ty = Type_int (vtype v)"
      by (simp_all add: link_call_def)
    have ee: "e_type e = ty" "e_property e = pid" "e_message_type e = MSG_UPDATE"
      "e_data e = Some (n_enc T v)" using e TbSend by (simp_all add: received_def)
    have "shouldBeDropped (m_dropperPolicy a) (e_reliable e) (e_type e) (e_property e)
        (e_seq_number e) (m_adapterId a) = Inr (False, BasePolicy)"
      by (simp add: a(4) Base_shouldBeDropped_def)
    moreover have "from_data ?env (vtype v) (n_enc T v) = Some v"
      using T v(1) by (simp add: network_ok_def)
    ultimately obtain cb q where fin: "on_finished ?env now ?w j e =
        Inr (stored_world ?w j a BasePolicy (prop_of_id pid) v\<lparr>w_callbacks := cb, m_persistencyPolicy := q\<rparr>)"
      using on_finished_stored [OF wf a(1,2) _ ee(3), of "vtype v" "n_enc T v" v BasePolicy now]
        num [of MSG_UPDATE] ee v by auto
    from stored_stores [OF wf a(1) l, of v "prop_of_id pid" q cb] v
    have "stores ?env ?w (Some j) (vtype v, unat pid) v
        (stored_world ?w j a BasePolicy (prop_of_id pid) v\<lparr>w_callbacks := cb, m_persistencyPolicy := q\<rparr>)"
      by simp
    from store_refines [OF n this] fin TbSend show ?thesis by (simp add: msg_of_def)
  next
    case (TbCtrl ty pid mt ack)
    with c obtain t where t: "t \<noteq> String" "unat ty = Type_int t" "valid_prop t (unat pid)"
      and mt: "mt = MSG_REQUEST \<or> mt = MSG_SUBSCRIBE \<or> mt = MSG_UNSUBSCRIBE"
      by (auto simp: link_call_def)
    have ee: "e_type e = ty" "e_property e = pid" "e_message_type e = mt"
      using e TbCtrl by (simp_all add: received_def)
    show ?thesis
    proof (cases "mt = MSG_REQUEST")
      case True
      let ?pid = "prop_of_id pid"
      obtain v cb q where v: "registry_map ?w (t, unat pid) = Some v" "vtype v = t" and
        fin: "on_finished ?env now ?w j e = Inr (put_adapter ?w j (adapter_put ?pid v DefaultReliability a)
          \<lparr>w_callbacks := cb, m_persistencyPolicy := q\<rparr>)"
        using on_finished_requested [OF wf a(1,2) num, of e t now] True ee t by auto
      let ?a = "adapter_put ?pid v DefaultReliability a"
      let ?w' = "put_adapter ?w j ?a\<lparr>w_callbacks := cb, m_persistencyPolicy := q\<rparr>"
      have wf': "wf_world ?env ?w'"
        using wf wf_world_adapter [OF wf a(1)] by (simp add: wf_put_adapter wf_adapter_put)
      have heap: "w_heap ?w' = (w_heap ?w)(j \<mapsto> ?a)" by (simp add: put_adapter_def)
      have acc: "accepts a v ?pid \<longleftrightarrow> f_sub (flow_of T n) (k, j) (t, unat pid)"
        using f_sub_adapter [OF p' a(1)] v(2) t(1) a(3) by (simp add: accepts_def)
      have m: "msg_of c = FRequest (t, unat pid)" using TbCtrl True t(2) by (simp add: msg_of_def)
      show ?thesis
      proof (cases "accepts a v ?pid")
        case True
        have "wf_net T (set_world n k ?w') \<and> flow_of T (set_world n k ?w') =
            flow_send (k, j) (msg_of (value_call ?pid v DefaultReliability)) (flow_of T n)"
          by (rule send_refines [OF n p' a(1) wf' _ _ heap])
            (use True v(2) t in \<open>simp_all add: transmit_buffer_put link_call_value\<close>)
        with fin m v acc True show ?thesis by simp
      next
        case False
        then have "wf_net T (set_world n k ?w') \<and> flow_of T (set_world n k ?w') =
            flow_subscription (k, j) (t, unat pid) (subscribed_at a t (unat pid)) (flow_of T n)"
          by (intro subscription_refines [OF n p' a(1) wf' _ _ heap])
            (auto simp: transmit_buffer_put subscribed_at_def)
        moreover have "flow_subscription (k, j) (t, unat pid) (subscribed_at a t (unat pid)) (flow_of T n) =
            flow_of T n"
          using f_sub_adapter [OF p' a(1)] by (simp add: flow_subscription_def fun_upd_idem)
        moreover have "flow_handle (n_peer T) (k, j) (msg_of c) (flow_of T n) = flow_of T n"
          using m v(1) acc False by (simp del: flow_of_simps(2))
        ultimately show ?thesis using fin by simp
      qed
    next
      case False
      have "Type_of (unat (e_type e)) = Some t" using ee t by simp
      then have cm: "control_message e"
        using ee t mt False by (auto simp: control_message_def)
      have num': "message_type_to_num ?env (e_message_type e) < MESSAGE_TYPE_COUNT ?env"
        using num [of mt] mt ee by auto
      obtain m cb q where fin: "on_finished ?env now ?w j e =
          Inr (put_adapter ?w j (a\<lparr>m_subscriptions := m\<rparr>)\<lparr>w_callbacks := cb, m_persistencyPolicy := q\<rparr>)"
        and wfa: "wf_adapter ?env (a\<lparr>m_subscriptions := m\<rparr>)"
        and sub: "\<And>s i. subscribed_at (a\<lparr>m_subscriptions := m\<rparr>) s i =
          subscribed_after [e] s i (subscribed_at a s i)"
        using on_finished_subscribed [OF wf a(1,2) cm num', of now] by blast
      let ?w' = "put_adapter ?w j (a\<lparr>m_subscriptions := m\<rparr>)
        \<lparr>w_callbacks := cb, m_persistencyPolicy := q\<rparr>"
      have wf': "wf_world ?env ?w'" using wf wfa by (simp add: wf_put_adapter)
      have heap: "w_heap ?w' = (w_heap ?w)(j \<mapsto> a\<lparr>m_subscriptions := m\<rparr>)"
        by (simp add: put_adapter_def)
      have "wf_net T (set_world n k ?w') \<and> flow_of T (set_world n k ?w') =
          flow_subscription (k, j) (t, unat pid) (mt = MSG_SUBSCRIBE) (flow_of T n)"
        by (rule subscription_refines [OF n p' a(1) wf' _ _ heap]) (use sub ee t in auto)
      moreover have "msg_of c = (if mt = MSG_SUBSCRIBE then FSubscribe (t, unat pid)
          else FUnsubscribe (t, unat pid))"
        using TbCtrl t(2) mt False by (auto simp: msg_of_def)
      ultimately show ?thesis using fin by auto
    qed
  qed
qed

text \<open>A control message that a program sends.\<close>

lemma ctrl_refines:
  assumes n: "wf_net T n" and p: "n_peer T (k, j) \<noteq> None" and t: "t \<noteq> String" "valid_prop t (unat pid)"
    and mt: "mt \<in> {MSG_REQUEST, MSG_SUBSCRIBE, MSG_UNSUBSCRIBE}"
    and a: "w_heap (n_world n k) j = Some a" and m: "wf_map m"
  shows "let r = sendRequestSubscribeUpdate (n_env T k) (a\<lparr>m_subscriptionsRemote := m\<rparr>) t pid mt rel;
      n' = set_world n k (put_adapter (n_world n k) j (snd r))
    in wf_net T n' \<and> flow_of T n' = flow_send (k, j)
      (case mt of MSG_REQUEST \<Rightarrow> FRequest (t, prop_index pid) | MSG_SUBSCRIBE \<Rightarrow> FSubscribe (t, prop_index pid)
        | _ \<Rightarrow> FUnsubscribe (t, prop_index pid)) (flow_of T n)"
proof -
  let ?w = "n_world n k" and ?env = "n_env T k"
  let ?c = "TbCtrl (word_of_nat (Type_int t)) (ucast pid) mt (reliability_contains rel Acknowledged)"
  let ?a = "a\<lparr>m_subscriptionsRemote := m, m_currentReliability := rel,
    m_transmit_buffer := m_transmit_buffer a @ [?c]\<rparr>"
  have wf: "wf_world ?env ?w" using n by (rule wf_netD)
  have "wf_adapter ?env ?a" using wf_world_adapter [OF wf a] m by (simp add: wf_adapter_def)
  then have wf': "wf_world ?env (put_adapter ?w j ?a)" by (rule wf_put_adapter [OF wf])
  have idx: "unat (ucast pid :: 16 word) = unat pid"
    using prop_small(1) [OF t(2)] by (simp add: prop_index_def)
  have "link_call ?c" using mt t idx by (auto simp: link_call_def)
  then have "wf_net T (set_world n k (put_adapter ?w j ?a)) \<and>
      flow_of T (set_world n k (put_adapter ?w j ?a)) = flow_send (k, j) (msg_of ?c) (flow_of T n)"
    by (intro send_refines [OF n p a wf', where a' = ?a]) (simp_all add: put_adapter_def)
  moreover have "msg_of ?c = (case mt of MSG_REQUEST \<Rightarrow> FRequest (t, prop_index pid)
      | MSG_SUBSCRIBE \<Rightarrow> FSubscribe (t, prop_index pid) | _ \<Rightarrow> FUnsubscribe (t, prop_index pid))"
    using idx prop_small(1) [OF t(2)] by (simp add: msg_of_def Let_def split: message_type.split)
  ultimately show ?thesis by (simp add: sendRequestSubscribeUpdate_def tb_do_def Let_def)
qed

lemma remote_put:
  assumes "wf_net T n" and "w_heap (n_world n k) j = Some a" and "valid_prop t (unat pid)"
  obtains m where "sub_put (m_subscriptionsRemote a) (Type_int t) (prop_size pid) b = Inr m"
    and "wf_map m"
proof -
  have "wf_map (m_subscriptionsRemote a)"
    using wf_world_adapter [OF wf_netD(1) [OF assms(1)] assms(2)] by (simp add: wf_adapter_def)
  from sub_map.wr_total [OF this _ TrueI, of t "prop_size pid" b] assms(3) that show ?thesis
    by (auto simp: prop_small(2) [OF assms(3)])
qed

lemma net_do_refines:
  assumes T: "network_ok T" and n: "wf_net T n" and ok: "ok_action T x"
  shows "\<exists>n'. net_do T x n = Inr n' \<and> wf_net T n' \<and>
    flow_of T n' = flow_do (n_peer T) x (flow_of T n)"
proof -
  have adapter: "\<exists>a. w_heap (n_world n k) j = Some a \<and> wf_map (m_subscriptionsRemote a)"
    if "n_peer T (k, j) \<noteq> None" for k j
  proof -
    from that wf_netD(2) [OF n] obtain a where a: "w_heap (n_world n k) j = Some a"
      by (force simp: link_adapter_def)
    with wf_world_adapter [OF wf_netD(1) [OF n] a] show ?thesis by (simp add: wf_adapter_def)
  qed
  show ?thesis
  proof (cases x)
    case (ASet k p v rel)
    with ok set_stores [OF wf_netD(1) [OF n]] registry_set_eq [OF wf_netD(1) [OF n]]
      store_refines [OF n] show ?thesis by fastforce
  next
    case (ARequest ep t p rel)
    obtain k j where ep: "ep = (k, j)" by (cases ep)
    with ok ARequest have p: "n_peer T (k, j) \<noteq> None" by simp
    from adapter [OF this] obtain a where a: "w_heap (n_world n k) j = Some a"
      "wf_map (m_subscriptionsRemote a)" by auto
    from ctrl_refines [OF n _ _ _ _ a, where mt = MSG_REQUEST and rel = rel] ok ARequest ep a show ?thesis
      by (auto simp: adapter_do_def request_def Let_def)
  next
    case (ASubscribe ep t p rel)
    obtain k j where ep: "ep = (k, j)" by (cases ep)
    with ok ASubscribe have p: "n_peer T (k, j) \<noteq> None" by simp
    from adapter [OF this] obtain a where a: "w_heap (n_world n k) j = Some a" by auto
    from ok ASubscribe have t: "valid_prop t (unat p)" by simp
    from remote_put [OF n a t, of True] obtain m where
      "sub_put (m_subscriptionsRemote a) (Type_int t) (prop_size p) True = Inr m" "wf_map m" .
    with ctrl_refines [OF n p _ t _ a, where m = m and mt = MSG_SUBSCRIBE and rel = rel] ok ASubscribe ep a show ?thesis
      by (auto simp: adapter_do_def subscribe_def Let_def)
  next
    case (AUnsubscribe ep t p rel)
    obtain k j where ep: "ep = (k, j)" by (cases ep)
    with ok AUnsubscribe have p: "n_peer T (k, j) \<noteq> None" by simp
    from adapter [OF this] obtain a where a: "w_heap (n_world n k) j = Some a" by auto
    from ok AUnsubscribe have t: "valid_prop t (unat p)" by simp
    from remote_put [OF n a t, of False] obtain m where
      "sub_put (m_subscriptionsRemote a) (Type_int t) (prop_size p) False = Inr m" "wf_map m" .
    with ctrl_refines [OF n p _ t _ a, where m = m and mt = MSG_UNSUBSCRIBE and rel = rel] ok AUnsubscribe ep a show ?thesis
      by (auto simp: adapter_do_def unsubscribe_def Let_def)
  next
    case (ADeliver ep)
    show ?thesis
    proof (cases "n_peer T ep = None \<or> in_flight n ep = []")
      case True
      with ADeliver n show ?thesis by (auto split: option.split)
    next
      case False
      then obtain k j c cs where p: "n_peer T ep = Some (k, j)" and c: "in_flight n ep = c # cs"
        by (cases "in_flight n ep") auto
      let ?n = "take_message n ep"
      have pop: "wf_net T ?n" "flow_of T ?n = flow_pop ep (flow_of T n)"
        using take_message_refines [OF n] False by auto
      have "n_peer T (k, j) = Some ep" using T p unfolding network_ok_def by blast
      moreover have "link_call c"
      proof -
        have "c \<in> set (tb_log (n_world n (fst ep)) (snd ep))"
          using c unfolding in_flight_def by (metis in_set_dropD list.set_intros(1))
        moreover have "link_adapter (n_world n (fst ep)) (snd ep)"
          using wf_netD(2) [OF n, of "fst ep" "snd ep"] p by simp
        ultimately show ?thesis by (auto simp: link_adapter_def tb_log_def list_all_iff)
      qed
      moreover have "received (n_enc T) c (n_wire T l c)" for l
        using T by (simp add: network_ok_def)
      ultimately obtain w where "on_finished (n_env T k) (n_clock T (n_delivered n ep)) (n_world n k) j
          (n_wire T (take (n_delivered n ep) (tb_log (n_world n (fst ep)) (snd ep))) c) = Inr w"
        "wf_net T (set_world ?n k w)"
        "flow_of T (set_world ?n k w) = flow_handle (n_peer T) (k, j) (msg_of c) (flow_of T ?n)"
        using arrival_refines [OF T pop(1)] by fastforce
      with ADeliver p c pop(2) show ?thesis by (simp add: Let_def)
    qed
  next
    case (ALose ep)
    with n take_message_refines [OF n, of ep] show ?thesis
      by (cases "n_peer T ep = None \<or> in_flight n ep = []") (auto intro!: flow_eqI)
  qed
qed

lemma net_run_refines:
  assumes "network_ok T" and "wf_net T n" and "list_all (ok_action T) as"
  shows "\<exists>n'. net_run T as n = Inr n' \<and> wf_net T n' \<and>
    flow_of T n' = flow_run (n_peer T) as (flow_of T n)"
  using assms(2,3)
proof (induction as arbitrary: n)
  case (Cons a as)
  from net_do_refines [OF assms(1) Cons.prems(1), of a] Cons.prems(2) obtain n1 where
    n1: "net_do T a n = Inr n1" "wf_net T n1" "flow_of T n1 = flow_do (n_peer T) a (flow_of T n)"
    by auto
  from Cons.IH [OF n1(2)] Cons.prems(2) n1(1,3) show ?case by simp
qed simp

section \<open>Deliveries\<close>

definition delivers :: "network_env \<Rightarrow> net \<Rightarrow> net \<Rightarrow> bool" where
  "delivers T n n' \<longleftrightarrow> (\<exists>ep. n_peer T ep \<noteq> None \<and> in_flight n ep \<noteq> [] \<and>
     net_do T (ADeliver ep) n = Inr n')"

definition quiet :: "network_env \<Rightarrow> net \<Rightarrow> bool" where
  "quiet T n \<longleftrightarrow> (\<forall>ep. n_peer T ep \<noteq> None \<longrightarrow> in_flight n ep = [])"

lemma deliversE:
  assumes "network_ok T" and "wf_net T n" and "delivers T n n'"
  obtains ep where "n_peer T ep \<noteq> None" and "f_chan (flow_of T n) ep \<noteq> []" and "wf_net T n'"
    and "flow_of T n' = flow_do (n_peer T) (ADeliver ep) (flow_of T n)"
proof -
  from assms(3) obtain ep where ep: "n_peer T ep \<noteq> None" "in_flight n ep \<noteq> []"
    "net_do T (ADeliver ep) n = Inr n'" unfolding delivers_def by blast
  from net_do_refines [OF assms(1,2), of "ADeliver ep"] ep(3) have "wf_net T n' \<and>
    flow_of T n' = flow_do (n_peer T) (ADeliver ep) (flow_of T n)"
    by (simp del: net_do.simps flow_do.simps)
  with ep that show ?thesis by simp
qed

lemma delivers_run:
  assumes "network_ok T" and "(delivers T)\<^sup>*\<^sup>* n n'" and "wf_net T n"
  shows "wf_net T n' \<and> (\<exists>eps. flow_of T n' = flow_run (n_peer T) (map ADeliver eps) (flow_of T n))"
  using assms(2)
proof (induction rule: rtranclp_induct)
  case base
  have "flow_of T n = flow_run (n_peer T) (map ADeliver []) (flow_of T n)" by simp
  with assms(3) show ?case by blast
next
  case (step n1 n2)
  then obtain eps where eps: "wf_net T n1"
    "flow_of T n1 = flow_run (n_peer T) (map ADeliver eps) (flow_of T n)" by blast
  from deliversE [OF assms(1) eps(1) step(2)] obtain ep where
    "wf_net T n2" "flow_of T n2 = flow_do (n_peer T) (ADeliver ep) (flow_of T n1)" .
  with eps(2) have "wf_net T n2 \<and>
      flow_of T n2 = flow_run (n_peer T) (map ADeliver (eps @ [ep])) (flow_of T n)"
    by (simp add: flow_run_append)
  then show ?case by blast
qed

lemma delivers_total:
  assumes "network_ok T" and "wf_net T n" and "\<not> quiet T n"
  shows "\<exists>n'. delivers T n n'"
proof -
  from assms(3) obtain ep where "n_peer T ep \<noteq> None" "in_flight n ep \<noteq> []"
    unfolding quiet_def by blast
  moreover obtain n' where "net_do T (ADeliver ep) n = Inr n'"
    using net_do_refines [OF assms(1,2), of "ADeliver ep"] by auto
  ultimately show ?thesis unfolding delivers_def by blast
qed

lemma delivers_wf:
  assumes "network_ok T" and "finite (dom (n_peer T))" and "loop_free (n_peer T) h"
  shows "wf {(n', n). wf_net T n \<and> delivers T n n'}"
proof (rule wf_subset)
  show "wf (inv_image (mult less_than) (\<lambda>n. ranks_in_flight (n_peer T) h (flow_of T n)))"
    by (intro wf_inv_image wf_mult wf_less_than)
  show "{(n', n). wf_net T n \<and> delivers T n n'} \<subseteq>
      inv_image (mult less_than) (\<lambda>n. ranks_in_flight (n_peer T) h (flow_of T n))"
  proof (rule subrelI)
    fix n' n
    assume "(n', n) \<in> {(n', n). wf_net T n \<and> delivers T n n'}"
    then have n: "wf_net T n" "delivers T n n'" by simp_all
    from deliversE [OF assms(1) n] obtain ep where
      "n_peer T ep \<noteq> None" "f_chan (flow_of T n) ep \<noteq> []"
      "flow_of T n' = flow_do (n_peer T) (ADeliver ep) (flow_of T n)" .
    with deliver_less [OF assms(2,3)]
    show "(n', n) \<in> inv_image (mult less_than) (\<lambda>n. ranks_in_flight (n_peer T) h (flow_of T n))"
      by (simp del: flow_of_simps flow_do.simps)
  qed
qed

lemma delivers_quiet:
  assumes "network_ok T" and "finite (dom (n_peer T))" and "loop_free (n_peer T) h"
  shows "wf_net T n \<Longrightarrow> \<exists>n'. (delivers T)\<^sup>*\<^sup>* n n' \<and> wf_net T n' \<and> quiet T n'"
proof (induction n rule: wf_induct_rule [OF delivers_wf [OF assms]])
  case (1 n)
  show ?case
  proof (cases "quiet T n")
    case False
    with delivers_total [OF assms(1) 1(2)] obtain n1 where n1: "delivers T n n1" by blast
    from deliversE [OF assms(1) 1(2) n1] have "wf_net T n1" .
    with 1 n1 obtain n' where "(delivers T)\<^sup>*\<^sup>* n1 n'" "wf_net T n'" "quiet T n'" by blast
    with n1 show ?thesis by (meson converse_rtranclp_into_rtranclp)
  qed (use 1(2) in blast)
qed

lemma followers:
  assumes T: "network_ok T" and o: "oriented (n_peer T) r down" and n: "wf_net T n"
    and f: "following (n_peer T) e down (flow_of T n)" and v: "registry_map (n_world n r) e = Some v"
    and as: "list_all (ok_action T) as" "list_all (single_writer r down e) as"
    and k: "(below (n_peer T) down)\<^sup>*\<^sup>* r k"
  shows "\<exists>n'. net_run T as n = Inr n' \<and> wf_net T n' \<and>
    (\<forall>n''. (delivers T)\<^sup>*\<^sup>* n' n'' \<and> quiet T n'' \<longrightarrow>
       (\<exists>x. registry_map (n_world n'' k) e = Some x \<and> alike x (replay e v (concat (map set_msg as)))))"
proof -
  obtain n' where n': "net_run T as n = Inr n'" "wf_net T n'"
    "flow_of T n' = flow_run (n_peer T) as (flow_of T n)"
    using net_run_refines [OF T n as(1)] by blast
  have "\<exists>x. registry_map (n_world n'' k) e = Some x \<and> alike x (replay e v (concat (map set_msg as)))"
    if d: "(delivers T)\<^sup>*\<^sup>* n' n''" and q: "quiet T n''" for n''
  proof -
    from delivers_run [OF T d n'(2)] obtain eps where
      "flow_of T n'' = flow_run (n_peer T) (map ADeliver eps) (flow_of T n')" by blast
    then have fl: "flow_of T n'' = flow_run (n_peer T) (as @ map ADeliver eps) (flow_of T n)"
      by (simp add: n'(3) flow_run_append)
    have all: "list_all (single_writer r down e) (as @ map ADeliver eps)"
      using as(2) by (auto simp: list_all_iff)
    have fo: "following (n_peer T) e down (flow_of T n'')"
      unfolding fl using tree.run_keeps [OF conjI [OF o f] all] by simp
    have empty: "nothing_in_flight (n_peer T) (flow_of T n'')"
      using q by (simp add: nothing_in_flight_def quiet_def)
    have none: "concat (map (set_msg \<circ> ADeliver) eps) = []" by (induction eps) simp_all
    have "f_val (flow_of T n'') r e = Some (replay e v (concat (map set_msg as)))"
      unfolding fl using root_run [OF o f all, of v] v by (simp add: none)
    from following_agree [OF fo empty k this] show ?thesis by simp
  qed
  with n'(1,2) show ?thesis by blast
qed

end
