(* ===== verification/Replicas.thy ===== *)
theory Replicas
  imports Network
begin

text \<open>
  What registries that are connected by links do together, concluded from the refinement of
  theory \<open>Network\<close> and the specification of theory \<open>Flow\<close>: what can be relied on, and two
  situations in which the registries do not agree.
\<close>

section \<open>Example networks\<close>

text \<open>Values in little-endian byte order, which the decoders of \<open>example_rcore\<close> read.\<close>

fun le_bytes :: "nat \<Rightarrow> nat \<Rightarrow> bytes" where
  "le_bytes 0 x = []"
| "le_bytes (Suc n) x = word_of_nat x # le_bytes n (x div 256)"

fun val_nat :: "val \<Rightarrow> nat" where
  "val_nat (VInt8 x) = unat x"
| "val_nat (VInt16 x) = unat x"
| "val_nat (VInt32 x) = unat x"
| "val_nat (VInt64 x) = unat x"
| "val_nat (VUint8 x) = unat x"
| "val_nat (VUint16 x) = unat x"
| "val_nat (VUint32 x) = unat x"
| "val_nat (VUint64 x) = unat x"
| "val_nat (VFloat x) = unat x"
| "val_nat (VDouble x) = unat x"
| "val_nat (VBool b) = of_bool b"
| "val_nat (VString s) = 0"

definition le_enc :: "val \<Rightarrow> bytes" where
  "le_enc v = le_bytes (GetSizeOfType (vtype v)) (val_nat v)"

lemma length_le_bytes [simp]: "length (le_bytes n x) = n"
  by (induction n x rule: le_bytes.induct) simp_all

lemma le_nat_bytes: "le_nat (le_bytes n x) n = x mod 256 ^ n"
proof (induction n x rule: le_bytes.induct)
  case (2 n x)
  have "le_nat (le_bytes (Suc n) x) (Suc n) = x mod 256 + 256 * le_nat (le_bytes n (x div 256)) n"
    by (simp add: le_nat_def unat_of_nat)
  then show ?case by (simp add: 2 mod_mult2_eq)
qed (simp add: le_nat_def)

lemma word_of_nat_mod:
  "m = 2 ^ LENGTH('a) \<Longrightarrow> word_of_nat (unat x mod m) = (x :: 'a::len word)"
  using unsigned_less [of x, where 'a = nat] by simp

lemma le_enc_inverse: "vtype v \<noteq> String \<Longrightarrow> from_data example_rcore (vtype v) (le_enc v) = Some v"
proof -
  have "le_nat [x] (Suc 0) = unat x" for x by (simp add: le_nat_def)
  then show "vtype v \<noteq> String \<Longrightarrow> ?thesis"
    by (cases v) (simp_all add: from_data_def enough_data_def example_rcore_def le_enc_def
        le_nat_bytes word_of_nat_mod)
qed

definition example_wire :: "tb_call list \<Rightarrow> tb_call \<Rightarrow> tb_entry" where
  "example_wire l c =
     (case c of
        TbSend ty pid v ack \<Rightarrow> \<lparr>e_type = ty, e_property = pid, e_message_type = MSG_UPDATE,
          e_seq_number = word_of_nat (length l), e_reliable = ack, e_data = Some (le_enc v)\<rparr>
      | TbCtrl ty pid mt ack \<Rightarrow> \<lparr>e_type = ty, e_property = pid, e_message_type = mt,
          e_seq_number = word_of_nat (length l), e_reliable = ack, e_data = Some []\<rparr>)"

definition example_network :: "links \<Rightarrow> network_env" where
  "example_network peer = \<lparr>n_env = \<lambda>_. example_rcore, n_peer = peer, n_enc = le_enc,
     n_wire = example_wire, n_clock = \<lambda>_. 0\<rparr>"

text \<open>Every program has two adapters that send everything.\<close>

definition example_net :: net where
  "example_net = \<lparr>n_world = \<lambda>_. zero_world\<lparr>m_adapters := [Some 1, Some 2],
     w_heap := [1 \<mapsto> example_adapter, 2 \<mapsto> example_adapter]\<rparr>, n_delivered = \<lambda>_. 0\<rparr>"

lemma n_peer_example [simp]: "n_peer (example_network peer) = peer"
  by (simp add: example_network_def)

lemma example_network_ok:
  assumes "\<And>ep ep'. peer ep = Some ep' \<Longrightarrow> peer ep' = Some ep"
  shows "network_ok (example_network peer)"
proof -
  let ?T = "example_network peer"
  have "received le_enc c (example_wire l c)" for l c
    by (cases c) (simp_all add: received_def example_wire_def)
  then have wire: "\<forall>l c. received (n_enc ?T) c (n_wire ?T l c)"
    by (simp add: example_network_def)
  have dec: "\<forall>k v. vtype v \<noteq> String \<longrightarrow> from_data (n_env ?T k) (vtype v) (n_enc ?T v) = Some v"
    by (simp add: example_network_def le_enc_inverse)
  have num: "\<forall>k mt. mt \<in> {MSG_UPDATE, MSG_REQUEST, MSG_SUBSCRIBE, MSG_UNSUBSCRIBE} \<longrightarrow>
      message_type_to_num (n_env ?T k) mt < MESSAGE_TYPE_COUNT (n_env ?T k)"
    by (auto simp: example_network_def example_rcore_def)
  have "\<forall>ep ep'. peer ep = Some ep' \<longrightarrow> peer ep' = Some ep" using assms by blast
  with wire dec num show ?thesis unfolding network_ok_def n_peer_example by blast
qed

lemma wf_example_net:
  assumes "\<And>ep. peer ep \<noteq> None \<Longrightarrow> snd ep = 1 \<or> snd ep = 2"
  shows "wf_net (example_network peer) example_net"
proof -
  have "wf_world example_rcore (n_world example_net k)" for k
    using wf_zero_world [of example_rcore] by (simp add: example_net_def wf_world_def)
  moreover have "link_adapter (n_world example_net k) j" if "j = 1 \<or> j = 2" for k j
    using that by (auto simp: link_adapter_def example_net_def example_adapter_def adapter_init_def)
  ultimately show ?thesis
    using assms by (simp add: wf_net_def example_network_def example_net_def)
qed

lemma example_net_values:
  "valid_prop t i \<Longrightarrow> registry_map (n_world example_net k) (t, i) = Some (zero_of t)"
  using registry_map_eq [OF wf_netD(1) [OF wf_example_net], of "Map.empty" k t i]
  by (simp add: example_net_def zero_world_def valid_prop_def)

lemma example_net_dom:
  "registry_map (n_world example_net k) (t, i) = Some v \<Longrightarrow> v = zero_of t"
  using registry_map_eq [OF wf_netD(1) [OF wf_example_net], of "Map.empty" k t i]
  by (simp add: example_net_def zero_world_def valid_prop_def split: if_splits)

lemma example_net_flight [simp]: "in_flight example_net ep = []"
  by (simp add: in_flight_def example_net_def tb_log_def example_adapter_def adapter_init_def)

lemma example_net_sub:
  "valid_prop t i \<Longrightarrow> j = 1 \<or> j = 2 \<Longrightarrow> world_sub (n_world example_net k) j (t, i)"
  by (auto simp: world_sub_def example_net_def subscribed_at_def example_adapter_def adapter_init_def)

text \<open>Three programs in a line, and two programs with two links.\<close>

definition line_peer :: links where
  "line_peer = [(0, 1) \<mapsto> (1, 1), (1, 1) \<mapsto> (0, 1), (1, 2) \<mapsto> (2, 1), (2, 1) \<mapsto> (1, 2)]"

definition twin_peer :: links where
  "twin_peer = [(0, 1) \<mapsto> (1, 1), (1, 1) \<mapsto> (0, 1), (0, 2) \<mapsto> (1, 2), (1, 2) \<mapsto> (0, 2)]"

lemma line_network: "network_ok (example_network line_peer)"
  by (rule example_network_ok) (auto simp: line_peer_def split: if_splits)

lemma twin_network: "network_ok (example_network twin_peer)"
  by (rule example_network_ok) (auto simp: twin_peer_def split: if_splits)

lemma line_net: "wf_net (example_network line_peer) example_net"
  by (rule wf_example_net) (auto simp: line_peer_def split: if_splits)

lemma twin_net: "wf_net (example_network twin_peer) example_net"
  by (rule wf_example_net) (auto simp: twin_peer_def split: if_splits)

section \<open>The network implements its specification\<close>

text \<open>Property C1.  Whatever programs that are connected by links do (set, request, subscribe and
  unsubscribe entries of the catalogue, in any interleaving with the deliveries and losses of
  the links), nothing leaves defined behaviour, every registry and adapter stays well-formed,
  and values, subscriptions and messages in flight are exactly those of the specification: a
  changed value is stored once and sent once on every other subscribed link, requests are
  answered, subscriptions switch sending on and off.\<close>

theorem network_refines:
  assumes "network_ok T" and "wf_net T n" and "list_all (ok_action T) as"
  shows "\<exists>n'. net_run T as n = Inr n' \<and> wf_net T n' \<and>
    flow_of T n' = flow_run (n_peer T) as (flow_of T n)"
  using assms by (rule net_run_refines)

definition line_actions :: "action list" where
  "line_actions = [ASet 0 2 (VInt16 7) BasicDelivery, ADeliver (0, 1), AUnsubscribe (2, 1) Int16 2 Ordered,
     ADeliver (1, 2), ADeliver (2, 1)]"

lemma line_actions_ok: "list_all (ok_action (example_network line_peer)) line_actions"
  by (simp add: line_actions_def line_peer_def valid_prop_def prop_index_def)

theorem network_refines_witness:
  "\<exists>n'. net_run (example_network line_peer) line_actions example_net = Inr n' \<and>
    wf_net (example_network line_peer) n' \<and>
    flow_of (example_network line_peer) n' = flow_run (n_peer (example_network line_peer)) line_actions
      (flow_of (example_network line_peer) example_net)"
  by (rule network_refines [OF line_network line_net line_actions_ok])

text \<open>Property C4.  Values come from somewhere: a predicate of entries and values that holds of every
  value in the registries and in flight at first, and of every value that a program sets, holds
  of every value in every registry after any run. No link, handler or forwarding makes a value
  up or attributes it to another entry.\<close>

theorem values_have_a_source:
  assumes "network_ok T" and "wf_net T n" and "list_all (ok_action T) as"
    and "carries P (flow_of T n)" and "list_all (sets_only P) as"
  shows "\<exists>n'. net_run T as n = Inr n' \<and> carries P (flow_of T n') \<and>
    (\<forall>k e v. registry_map (n_world n' k) e = Some v \<longrightarrow> P e v)"
proof -
  obtain n' where n': "net_run T as n = Inr n'" "flow_of T n' = flow_run (n_peer T) as (flow_of T n)"
    using net_run_refines [OF assms(1-3)] by blast
  have c: "carries P (flow_of T n')"
    unfolding n'(2) by (rule provenance.run_keeps [OF assms(4,5)])
  have "P e v" if "registry_map (n_world n' k) e = Some v" for k e v
    using carries_val [OF c, of k e v] that by simp
  with n'(1) c show ?thesis by blast
qed

definition zero_or_seven :: "entry_key \<Rightarrow> val \<Rightarrow> bool" where
  "zero_or_seven e v \<longleftrightarrow> v = zero_of (fst e) \<or> v = VInt16 7"

lemma example_carries: "carries zero_or_seven (flow_of (example_network peer) example_net)"
  by (auto simp: carries_def zero_or_seven_def dest: example_net_dom)

theorem values_have_a_source_witness:
  "\<exists>n'. net_run (example_network line_peer) line_actions example_net = Inr n' \<and>
    carries zero_or_seven (flow_of (example_network line_peer) n') \<and>
    (\<forall>k e v. registry_map (n_world n' k) e = Some v \<longrightarrow> zero_or_seven e v)"
  by (rule values_have_a_source [OF line_network line_net line_actions_ok example_carries])
    (simp add: line_actions_def zero_or_seven_def)

section \<open>Where the registries agree in the end\<close>

text \<open>Property C3.  On a network without a loop of links the messages die out: from any state, in
  whatever order the links deliver, only finitely many deliveries are possible, and as long as
  something is in flight another one is; so every network comes to rest. This covers updates
  forwarded from link to link and the answers to requests.\<close>

theorem deliveries_end:
  assumes "network_ok T" and "finite (dom (n_peer T))" and "loop_free (n_peer T) h" and "wf_net T n"
  shows "wf {(n', n). wf_net T n \<and> delivers T n n'} \<and>
    (quiet T n \<or> (\<exists>n'. delivers T n n' \<and> wf_net T n')) \<and>
    (\<exists>n'. (delivers T)\<^sup>*\<^sup>* n n' \<and> wf_net T n' \<and> quiet T n')"
  using delivers_wf [OF assms(1-3)] delivers_total [OF assms(1,4)] deliversE [OF assms(1,4)]
    delivers_quiet [OF assms] by metis

definition line_height :: "endpoint \<Rightarrow> nat" where
  "line_height ep = (if ep = (0, 1) \<or> ep = (2, 1) then 1 else 0)"

lemma line_loop_free: "finite (dom line_peer)" "loop_free line_peer line_height"
proof -
  show "finite (dom line_peer)" by (simp add: line_peer_def)
  have "line_height (k, j') < line_height ep"
    if "line_peer ep = Some (k, j)" "j' \<noteq> j" "line_peer (k, j') \<noteq> None" for ep k j j'
    using that by (auto simp: line_peer_def line_height_def split: if_splits)
  then show "loop_free line_peer line_height" unfolding loop_free_def by blast
qed

theorem deliveries_end_witness:
  "wf {(n', n). wf_net (example_network line_peer) n \<and> delivers (example_network line_peer) n n'} \<and>
    (quiet (example_network line_peer) example_net \<or>
     (\<exists>n'. delivers (example_network line_peer) example_net n' \<and> wf_net (example_network line_peer) n')) \<and>
    (\<exists>n'. (delivers (example_network line_peer))\<^sup>*\<^sup>* example_net n' \<and>
       wf_net (example_network line_peer) n' \<and> quiet (example_network line_peer) n')"
  by (rule deliveries_end [OF line_network _ _ line_net, where h = line_height])
    (simp_all add: line_loop_free)

text \<open>Property C2.  With one writer the registries agree in the end: in a tree of links, all of whose
  lower ends are subscribed to an entry that only the root sets, whatever else the programs do
  and however the deliveries are interleaved with it, the network comes to rest once they stop,
  and whenever it rests every registry below holds a value that equals what the root's own
  sets left there.\<close>

theorem replicas_agree:
  assumes "network_ok T" and "finite (dom (n_peer T))" and "loop_free (n_peer T) h"
    and "oriented (n_peer T) r down" and "wf_net T n"
    and "following (n_peer T) e down (flow_of T n)" and "registry_map (n_world n r) e = Some v"
    and "list_all (ok_action T) as" and "list_all (single_writer r down e) as"
    and "(below (n_peer T) down)\<^sup>*\<^sup>* r k"
  shows "\<exists>n'. net_run T as n = Inr n' \<and> (\<exists>n''. (delivers T)\<^sup>*\<^sup>* n' n'' \<and> quiet T n'') \<and>
    (\<forall>n''. (delivers T)\<^sup>*\<^sup>* n' n'' \<and> quiet T n'' \<longrightarrow>
       (\<exists>x. registry_map (n_world n'' k) e = Some x \<and> alike x (replay e v (concat (map set_msg as)))))"
  using followers [OF assms(1,4-10)] delivers_quiet [OF assms(1-3)] by blast

definition line_down :: "endpoint \<Rightarrow> bool" where
  "line_down ep \<longleftrightarrow> ep = (0, 1) \<or> ep = (1, 2)"

lemma line_oriented: "oriented line_peer 0 line_down"
proof -
  have "line_peer ep' = Some ep \<and> fst ep' \<noteq> fst ep \<and> (line_down ep' \<longleftrightarrow> \<not> line_down ep)"
    if "line_peer ep = Some ep'" for ep ep'
    using that by (auto simp: line_peer_def line_down_def split: if_splits)
  moreover have "line_down (0, j)" if "line_peer (0, j) \<noteq> None" for j
    using that by (auto simp: line_peer_def line_down_def split: if_splits)
  moreover have "j = j'" if "line_peer (k, j) \<noteq> None" "line_peer (k, j') \<noteq> None"
    "\<not> line_down (k, j)" "\<not> line_down (k, j')" for k j j'
    using that by (auto simp: line_peer_def line_down_def split: if_splits)
  ultimately show ?thesis unfolding oriented_def by blast
qed

lemma line_following:
  assumes "valid_prop t i"
  shows "following line_peer (t, i) line_down (flow_of (example_network line_peer) example_net)"
proof (rule followingI)
  fix x y
  assume xy: "line_peer x = Some y"
  then have "snd x = 1 \<or> snd x = 2" by (auto simp: line_peer_def split: if_splits)
  with xy assms show "link_ok (t, i) line_down (flow_of (example_network line_peer) example_net) x y"
    by (cases x) (simp add: link_ok_def synced_def example_net_values example_net_sub)
qed

lemma line_below: "(below line_peer line_down)\<^sup>*\<^sup>* 0 2"
proof -
  have "below line_peer line_down 0 1" unfolding below_def
    by (intro exI [of _ 1]) (simp add: line_peer_def line_down_def)
  moreover have "below line_peer line_down 1 2" unfolding below_def
    by (intro exI [of _ 2] exI [of _ 1]) (simp add: line_peer_def line_down_def)
  ultimately show ?thesis by (meson converse_rtranclp_into_rtranclp r_into_rtranclp)
qed

definition writer_actions :: "action list" where
  "writer_actions = [ASet 0 2 (VInt16 7) BasicDelivery, ADeliver (0, 1), ASet 0 2 (VInt16 8) BasicDelivery,
     ARequest (2, 1) Int16 2 Ordered, ASet 1 3 (VInt16 9) BasicDelivery]"

theorem replicas_agree_witness:
  "\<exists>n'. net_run (example_network line_peer) writer_actions example_net = Inr n' \<and>
    (\<exists>n''. (delivers (example_network line_peer))\<^sup>*\<^sup>* n' n'' \<and> quiet (example_network line_peer) n'') \<and>
    (\<forall>n''. (delivers (example_network line_peer))\<^sup>*\<^sup>* n' n'' \<and> quiet (example_network line_peer) n'' \<longrightarrow>
       (\<exists>x. registry_map (n_world n'' 2) (Int16, 2) = Some x \<and>
          alike x (replay (Int16, 2) (VInt16 0) (concat (map set_msg writer_actions)))))"
proof (rule replicas_agree [where h = line_height and r = 0 and down = line_down])
  show "registry_map (n_world example_net 0) (Int16, 2) = Some (VInt16 0)"
    using example_net_values [of Int16 2 0] by (simp add: valid_prop_def)
  show "list_all (ok_action (example_network line_peer)) writer_actions"
    by (simp add: writer_actions_def line_peer_def valid_prop_def prop_index_def)
  show "list_all (single_writer 0 line_down (Int16, 2)) writer_actions"
    by (simp add: writer_actions_def line_down_def prop_index_def)
qed (simp_all add: line_network line_net line_loop_free line_oriented line_following line_below
    valid_prop_def)

section \<open>Where they do not\<close>

text \<open>Property C19.  Two programs that set the same entry at the same time swap their values: on a link
  that both have subscribed, and with nothing in flight, the two updates cross, each overwrites
  the other program's value without being answered, and the link is at rest with two different
  values. No later message repairs this.\<close>

theorem crossing_sets_swap:
  assumes "network_ok T" and "wf_net T n"
    and "idle_link (n_peer T) (vtype v, prop_index p) a b (flow_of T n)"
    and "vtype w = vtype v" and "vtype v \<noteq> String" and "valid_prop (vtype v) (prop_index p)"
    and "registry_map (n_world n (fst a)) (vtype v, prop_index p) = Some x" and "\<not> val_eq x v"
    and "registry_map (n_world n (fst b)) (vtype v, prop_index p) = Some y" and "\<not> val_eq y w"
    and "\<not> val_eq v w"
  shows "\<exists>n'. net_run T [ASet (fst a) p v rel, ASet (fst b) p w rel', ADeliver a, ADeliver b] n = Inr n' \<and>
    registry_map (n_world n' (fst a)) (vtype v, prop_index p) = Some w \<and>
    registry_map (n_world n' (fst b)) (vtype v, prop_index p) = Some v \<and>
    in_flight n' a = [] \<and> in_flight n' b = []"
proof -
  let ?as = "[ASet (fst a) p v rel, ASet (fst b) p w rel', ADeliver a, ADeliver b]"
  have "list_all (ok_action T) ?as" using assms(4-6) by simp
  from net_run_refines [OF assms(1,2) this] obtain n' where
    n': "net_run T ?as n = Inr n'" "flow_of T n' = flow_run (n_peer T) ?as (flow_of T n)" by blast
  have "f_val (flow_of T n') (fst a) (vtype v, prop_index p) = Some w \<and>
      f_val (flow_of T n') (fst b) (vtype v, prop_index p) = Some v \<and>
      idle_link (n_peer T) (vtype v, prop_index p) a b (flow_of T n')"
    using flow_crossing [OF assms(3,4), of x y rel rel'] assms(7-11) unfolding n'(2) Let_def by simp
  with n'(1) show ?thesis by (auto simp: idle_link_def)
qed

theorem crossing_sets_swap_witness:
  "\<exists>n'. net_run (example_network line_peer) [ASet (fst (0, 1 :: nat)) 2 (VInt16 7) BasicDelivery,
      ASet (fst (1, 1 :: nat)) 2 (VInt16 8) BasicDelivery, ADeliver (0, 1), ADeliver (1, 1)] example_net = Inr n' \<and>
    registry_map (n_world n' (fst (0, 1 :: nat))) (vtype (VInt16 7), prop_index 2) = Some (VInt16 8) \<and>
    registry_map (n_world n' (fst (1, 1 :: nat))) (vtype (VInt16 7), prop_index 2) = Some (VInt16 7) \<and>
    in_flight n' (0, 1) = [] \<and> in_flight n' (1, 1) = []"
proof (rule crossing_sets_swap [OF line_network line_net])
  have v: "valid_prop (vtype (VInt16 7)) (prop_index 2)" by (simp add: valid_prop_def prop_index_def)
  then show "valid_prop (vtype (VInt16 7)) (prop_index 2)" .
  show "idle_link (n_peer (example_network line_peer)) (vtype (VInt16 7), prop_index 2) (0, 1) (1, 1)
      (flow_of (example_network line_peer) example_net)"
    using v by (simp add: idle_link_def line_peer_def example_net_sub)
  show "registry_map (n_world example_net (fst (0, 1 :: nat))) (vtype (VInt16 7), prop_index 2) =
      Some (VInt16 0)"
    and "registry_map (n_world example_net (fst (1, 1 :: nat))) (vtype (VInt16 7), prop_index 2) =
      Some (VInt16 0)"
    using v example_net_values [of "vtype (VInt16 7)" "prop_index 2"] by simp_all
qed simp_all

text \<open>Property C20.  Two programs with two links may never come to rest: when one of them sets two
  values in a row, both values are sent on both links, each comes back on the other link as
  news, and there is an order of the deliveries, in which no message waits for ever, that keeps
  both on their way and makes both registries change between the two values again and again.
  Only adapters that are alone on their way back are protected from the echo.\<close>

theorem updates_circulate:
  assumes "network_ok T" and "wf_net T n" and "double_link (n_peer T) (vtype v, prop_index p) a1 b1 a2 b2"
    and "double_state (vtype v, prop_index p) a1 b1 a2 b2 x y [] [] [] (flow_of T n)"
    and "vtype w = vtype v" and "vtype v \<noteq> String" and "valid_prop (vtype v) (prop_index p)"
    and "\<not> val_eq v w" and "\<not> is_nan v" and "\<not> is_nan w" and "\<not> val_eq x v" and "\<not> val_eq y v"
  shows "\<exists>n' n''. net_run T (double_start a1 a2 b2 p v w @ concat (replicate m (double_round a1 b2))) n = Inr n' \<and>
    map msg_of (in_flight n' a1) = [FUpdate (vtype v, prop_index p) v, FUpdate (vtype v, prop_index p) w] \<and>
    in_flight n' a2 = [] \<and> in_flight n' b1 = [] \<and> in_flight n' b2 = [] \<and>
    (\<forall>k \<in> {fst a1, fst b1}. registry_map (n_world n' k) (vtype v, prop_index p) = Some w) \<and>
    net_run T [ADeliver a1, ADeliver b2] n' = Inr n'' \<and>
    (\<forall>k \<in> {fst a1, fst b1}. registry_map (n_world n'' k) (vtype v, prop_index p) = Some v)"
proof -
  let ?e = "(vtype v, prop_index p)"
  let ?as = "double_start a1 a2 b2 p v w @ concat (replicate m (double_round a1 b2))"
  have "list_all (ok_action T) ?as"
    using assms(5-7) by (simp add: double_start_def double_round_def list_all_iff)
  from net_run_refines [OF assms(1,2) this] obtain n' where
    n': "net_run T ?as n = Inr n'" "wf_net T n'" "flow_of T n' = flow_run (n_peer T) ?as (flow_of T n)"
    by blast
  have "list_all (ok_action T) [ADeliver a1, ADeliver b2]" by simp
  from net_run_refines [OF assms(1) n'(2) this] obtain n'' where
    n'': "net_run T [ADeliver a1, ADeliver b2] n' = Inr n''"
    "flow_of T n'' = flow_run (n_peer T) [ADeliver a1, ADeliver b2] (flow_of T n')" by blast
  have s1: "double_state ?e a1 b1 a2 b2 w w [v, w] [] [] (flow_of T n')"
    unfolding n'(3) by (rule double_circulates [OF assms(3,4,5,8-12)])
  have "\<not> val_eq w v" using assms(8) val_eq_sym by blast
  from double_half [OF assms(3) s1 this] have s2: "double_state ?e a1 b1 a2 b2 v v [w, v] [] [] (flow_of T n'')"
    unfolding n''(2) .
  have "n_peer T a1 \<noteq> None" "n_peer T a2 \<noteq> None" "n_peer T b1 \<noteq> None" "n_peer T b2 \<noteq> None"
    using assms(3) by (auto simp: double_link_def)
  with n'(1) n''(1) s1 s2 show ?thesis unfolding double_state_def by simp
qed

lemma twin_double: "double_link twin_peer (Int16, 2) (0, 1) (1, 1) (0, 2) (1, 2)"
  by (simp add: double_link_def twin_peer_def)

lemma twin_state:
  "double_state (Int16, 2) (0, 1) (1, 1) (0, 2) (1, 2) (VInt16 0) (VInt16 0) [] [] []
     (flow_of (example_network twin_peer) example_net)"
  using example_net_values [of Int16 2] by (simp add: double_state_def twin_peer_def example_net_sub valid_prop_def)

theorem updates_circulate_witness:
  "\<exists>n' n''. net_run (example_network twin_peer)
      (double_start (0, 1) (0, 2) (1, 2) 2 (VInt16 7) (VInt16 8) @
       concat (replicate 100 (double_round (0, 1) (1, 2)))) example_net = Inr n' \<and>
    map msg_of (in_flight n' (0, 1)) = [FUpdate (vtype (VInt16 7), prop_index 2) (VInt16 7),
      FUpdate (vtype (VInt16 7), prop_index 2) (VInt16 8)] \<and>
    in_flight n' (0, 2) = [] \<and> in_flight n' (1, 1) = [] \<and> in_flight n' (1, 2) = [] \<and>
    (\<forall>k \<in> {fst (0, 1 :: nat), fst (1, 1 :: nat)}.
       registry_map (n_world n' k) (vtype (VInt16 7), prop_index 2) = Some (VInt16 8)) \<and>
    net_run (example_network twin_peer) [ADeliver (0, 1), ADeliver (1, 2)] n' = Inr n'' \<and>
    (\<forall>k \<in> {fst (0, 1 :: nat), fst (1, 1 :: nat)}.
       registry_map (n_world n'' k) (vtype (VInt16 7), prop_index 2) = Some (VInt16 7))"
proof (rule updates_circulate [OF twin_network twin_net])
  have e: "(vtype (VInt16 7), prop_index 2) = (Int16, 2)" by (simp add: prop_index_def)
  show "double_link (n_peer (example_network twin_peer)) (vtype (VInt16 7), prop_index 2)
      (0, 1) (1, 1) (0, 2) (1, 2)"
    unfolding e n_peer_example by (rule twin_double)
  show "double_state (vtype (VInt16 7), prop_index 2) (0, 1) (1, 1) (0, 2) (1, 2) (VInt16 0) (VInt16 0)
      [] [] [] (flow_of (example_network twin_peer) example_net)"
    unfolding e by (rule twin_state)
qed (simp_all add: valid_prop_def prop_index_def)

end
