(* ===== verification/Reception.thy ===== *)
theory Reception
  imports LiteComm
begin

text \<open>
  Sequences of received updates: the handler of theory \<open>LiteComm\<close> and the dropper of its adapter
  together are a small machine on the registry's map, and with the lossy policy the registry
  ends with the newest value, in whatever order the updates arrive.
\<close>

section \<open>The specification\<close>

text \<open>The entry and the value of an update.\<close>

definition decoded :: "rcore \<Rightarrow> tb_entry \<Rightarrow> ((Type \<times> nat) \<times> val) option" where
  "decoded env e =
     (case (Type_of (unat (e_type e)), e_data e) of
        (Some t, Some s) \<Rightarrow> map_option (Pair (t, unat (e_property e))) (from_data env t s)
      | _ \<Rightarrow> None)"

definition update_of :: "rcore \<Rightarrow> tb_entry \<Rightarrow> Type \<Rightarrow> nat \<Rightarrow> val \<Rightarrow> bool" where
  "update_of env e t i v \<longleftrightarrow> e_message_type e = MSG_UPDATE \<and> decoded env e = Some ((t, i), v) \<and>
     valid_prop t i"

definition is_update :: "rcore \<Rightarrow> tb_entry \<Rightarrow> bool" where
  "is_update env e \<longleftrightarrow> (\<exists>t i v. update_of env e t i v)"

definition stored_in :: "((Type \<times> nat) \<rightharpoonup> val) \<Rightarrow> Type \<times> nat \<Rightarrow> val \<Rightarrow> (Type \<times> nat) \<rightharpoonup> val" where
  "stored_in m k v =
     (case m k of None \<Rightarrow> m | Some old \<Rightarrow> if val_eq old v then m else m(k \<mapsto> v))"

text \<open>The dropper decides about each update, and the map takes those that it lets through.\<close>

fun receive_all ::
  "rcore \<Rightarrow> 32 word \<Rightarrow> tb_entry list \<Rightarrow> dropper \<times> ((Type \<times> nat) \<rightharpoonup> val) \<Rightarrow>
     dropper \<times> ((Type \<times> nat) \<rightharpoonup> val)" where
  "receive_all env aid [] s = s"
| "receive_all env aid (e # es) (d, m) =
     (case shouldBeDropped d (e_reliable e) (e_type e) (e_property e) (e_seq_number e) aid of
        Inl _ \<Rightarrow> (d, m)
      | Inr (dropped, d1) \<Rightarrow> receive_all env aid es
          (d1, if dropped then m
               else (case decoded env e of None \<Rightarrow> m | Some (k, v) \<Rightarrow> stored_in m k v)))"

section \<open>The handler implements it\<close>

lemma update_ofD:
  assumes "update_of env e t i v"
  obtains s where "e_message_type e = MSG_UPDATE" and "Type_of (unat (e_type e)) = Some t"
    and "unat (e_property e) = i" and "valid_prop t i" and "e_data e = Some s"
    and "from_data env t s = Some v"
  using assms by (auto simp: update_of_def decoded_def split: option.splits)

lemma on_finished_receive:
  assumes "wf_world env w" and "w_heap w i = Some a" and "m_registry a"
    and "message_type_to_num env MSG_UPDATE < MESSAGE_TYPE_COUNT env" and "is_update env e"
  shows "\<exists>w' a'. on_finished env now w i e = Inr w' \<and> wf_world env w' \<and> w_heap w' i = Some a' \<and>
    m_registry a' \<and> m_adapterId a' = m_adapterId a \<and>
    (m_dropperPolicy a', registry_map w') =
      receive_all env (m_adapterId a) [e] (m_dropperPolicy a, registry_map w)"
proof -
  obtain t j v where u: "update_of env e t j v" using assms(5) by (auto simp: is_update_def)
  then obtain s where e: "e_message_type e = MSG_UPDATE" "Type_of (unat (e_type e)) = Some t"
    "unat (e_property e) = j" "valid_prop t j" "e_data e = Some s" "from_data env t s = Some v"
    by (rule update_ofD)
  have wfa: "wf_adapter env a" by (rule wf_world_adapter [OF assms(1,2)])
  have valid: "valid_prop t (unat (e_property e))" using e(3,4) by simp
  let ?ask = "shouldBeDropped (m_dropperPolicy a) (e_reliable e) (e_type e) (e_property e)
      (e_seq_number e) (m_adapterId a)"
  obtain d p where p: "?ask = Inr (d, p)" "wf_dropper p"
    using policy_ok [OF wfa e(2) valid] by blast
  show ?thesis
  proof (cases d)
    case True
    then have "?ask = Inr (True, p)" using p(1) by simp
    from on_finished_drop [OF assms(2) e(1,2) valid this]
    have "on_finished env now w i e = Inr (put_adapter w i (a\<lparr>m_dropperPolicy := p\<rparr>))" .
    moreover have "wf_world env (put_adapter w i (a\<lparr>m_dropperPolicy := p\<rparr>))"
      using wfa p(2) by (intro wf_put_adapter assms(1)) (simp add: wf_adapter_def)
    ultimately show ?thesis using True p(1) assms(3) by simp
  next
    case False
    let ?w = "stored_world w i a p (prop_of_id (e_property e)) v"
    have "?ask = Inr (False, p)" using p(1) False by simp
    from on_finished_stored [OF assms(1-4) e(1,2) valid e(5,6) this, of now] obtain c q where v: "vtype v = t" and
      fin: "on_finished env now w i e = Inr (?w\<lparr>w_callbacks := c, m_persistencyPolicy := q\<rparr>)" by auto
    have wf: "wf_world env ?w" "registry_map ?w =
        (if val_eq (m_arrays w t ! j) v then registry_map w else (registry_map w)((t, j) \<mapsto> v))"
      using stored_world_map [OF assms(1) wfa p(2), of v "prop_of_id (e_property e)" i] e(3,4) v
      by simp_all
    then have "registry_map ?w = stored_in (registry_map w) (t, j) v"
      using registry_map_eq [OF assms(1), of t j] e(4) by (simp add: stored_in_def)
    moreover have "decoded env e = Some ((t, j), v)" using u by (simp add: update_of_def)
    ultimately show ?thesis
      using False fin wf(1) stored_world_adapter [of w i a p "prop_of_id (e_property e)" v] p(1) assms(3)
      by (simp add: updating_def)
  qed
qed

lemma receive_all_Cons:
  "receive_all env aid (e # es) s =
     (case shouldBeDropped (fst s) (e_reliable e) (e_type e) (e_property e) (e_seq_number e) aid of
        Inl _ \<Rightarrow> s | Inr _ \<Rightarrow> receive_all env aid es (receive_all env aid [e] s))"
  by (cases s) (auto split: sum.split prod.split)

lemma on_finished_receive_all:
  assumes "wf_world env w" and "w_heap w i = Some a" and "m_registry a"
    and "message_type_to_num env MSG_UPDATE < MESSAGE_TYPE_COUNT env" and "list_all (is_update env) es"
  shows "\<exists>w' a'. on_finished_all env now w i es = Inr w' \<and> wf_world env w' \<and> w_heap w' i = Some a' \<and>
    m_registry a' \<and> m_adapterId a' = m_adapterId a \<and> (m_dropperPolicy a', registry_map w') =
      receive_all env (m_adapterId a) es (m_dropperPolicy a, registry_map w)"
  using assms(1-3,5)
proof (induction es arbitrary: w a)
  case (Cons e es)
  from on_finished_receive [OF Cons.prems(1-3) assms(4), of e now] Cons.prems(4) obtain w1 a1 where
    s: "on_finished env now w i e = Inr w1" "wf_world env w1" "w_heap w1 i = Some a1" "m_registry a1"
      "m_adapterId a1 = m_adapterId a" "(m_dropperPolicy a1, registry_map w1) =
        receive_all env (m_adapterId a) [e] (m_dropperPolicy a, registry_map w)" by auto
  obtain t j v where "update_of env e t j v" using Cons.prems(4) by (auto simp: is_update_def)
  then obtain d p where "shouldBeDropped (m_dropperPolicy a) (e_reliable e) (e_type e) (e_property e)
      (e_seq_number e) (m_adapterId a) = Inr (d, p)"
    using policy_ok [OF wf_world_adapter [OF Cons.prems(1,2)]] by (blast elim: update_ofD)
  then have "receive_all env (m_adapterId a) (e # es) (m_dropperPolicy a, registry_map w) =
      receive_all env (m_adapterId a1) es (m_dropperPolicy a1, registry_map w1)"
    unfolding s(5,6) by (subst receive_all_Cons) simp
  with Cons.IH [OF s(2-4)] Cons.prems(4) s(1,5) show ?case by simp
qed simp

section \<open>The lossy policy keeps the newest value\<close>

text \<open>The specification for one entry: take an update unless a newer one was taken.\<close>

fun keep_newest :: "16 word \<Rightarrow> val \<Rightarrow> (16 word \<times> val) list \<Rightarrow> val" where
  "keep_newest q x [] = x"
| "keep_newest q x ((sn, v) # us) =
     (if q \<le> sn then keep_newest sn (if val_eq x v then x else v) us else keep_newest q x us)"

lemma receive_lossy:
  assumes "\<not> is_reset_entry ty pid" and "sub_at rs (unat ty) (unat pid) = Inr r"
    and "uint (er_adapterId r) = sint aid"
    and "\<forall>e \<in> set es. e_type e = ty \<and> e_property e = pid \<and> decoded env e = Some (k, payload e)"
    and "\<forall>q \<in> insert (er_sequentNumber r) (e_seq_number ` set es). lo \<le> unat q \<and> unat q \<le> lo + 50"
    and "lo + 50 < 32768 \<or> 32768 \<le> lo" and "m k = Some x"
  shows "\<exists>rs' m'. receive_all env aid es (LossyPolicy rs, m) = (LossyPolicy rs', m') \<and>
    m' k = Some (keep_newest (er_sequentNumber r) x (map (\<lambda>e. (e_seq_number e, payload e)) es)) \<and>
    (\<forall>k'. k' \<noteq> k \<longrightarrow> m' k' = m k')"
  using assms(2-5,7)
proof (induction es arbitrary: rs r m x)
  case (Cons e es)
  let ?d = "decide r (e_seq_number e) aid"
  let ?rs = "rs[unat ty := (rs ! unat ty)[unat pid := snd ?d]]"
  have e: "e_type e = ty" "e_property e = pid" "decoded env e = Some (k, payload e)"
    using Cons.prems(3) by simp_all
  have dec: "shouldBeDropped (LossyPolicy rs) (e_reliable e) (e_type e) (e_property e) (e_seq_number e) aid =
      Inr (fst ?d, LossyPolicy ?rs)"
    using Lossy_decide [OF Cons.prems(1), of "e_reliable e" "e_seq_number e" aid] assms(1) e(1,2) by simp
  have rs: "sub_at ?rs (unat ty) (unat pid) = Inr (snd ?d)" by (rule sub_at_updated [OF Cons.prems(1)])
  show ?case
  proof (cases "er_sequentNumber r \<le> e_seq_number e")
    case True
    then have d: "?d = (False, r\<lparr>er_sequentNumber := e_seq_number e\<rparr>)" by (rule decide_newer)
    have m: "stored_in m k (payload e) k = Some (if val_eq x (payload e) then x else payload e)"
      "\<And>k'. k' \<noteq> k \<Longrightarrow> stored_in m k (payload e) k' = m k'"
      using Cons.prems(5) by (simp_all add: stored_in_def)
    have "\<exists>rs' m'. receive_all env aid es (LossyPolicy ?rs, stored_in m k (payload e)) = (LossyPolicy rs', m') \<and>
        m' k = Some (keep_newest (er_sequentNumber (snd ?d)) (if val_eq x (payload e) then x else payload e)
          (map (\<lambda>e. (e_seq_number e, payload e)) es)) \<and>
        (\<forall>k'. k' \<noteq> k \<longrightarrow> m' k' = stored_in m k (payload e) k')"
      by (rule Cons.IH [where m = "stored_in m k (payload e)", OF rs]) (use m(1) Cons.prems(2-4) d in simp_all)
    with True d dec e(3) m(2) show ?thesis by auto
  next
    case False
    then have "delayed (er_sequentNumber r) (e_seq_number e)"
      using Cons.prems(4) assms(6) by (auto simp: delayed_def word_le_nat_alt)
    then have d: "?d = (True, r)" using Cons.prems(2) by (rule decide_late)
    have "\<exists>rs' m'. receive_all env aid es (LossyPolicy ?rs, m) = (LossyPolicy rs', m') \<and>
        m' k = Some (keep_newest (er_sequentNumber (snd ?d)) x
          (map (\<lambda>e. (e_seq_number e, payload e)) es)) \<and> (\<forall>k'. k' \<noteq> k \<longrightarrow> m' k' = m k')"
      by (rule Cons.IH [where m = m, OF rs]) (use Cons.prems(2-5) d in simp_all)
    with False d dec show ?thesis by auto
  qed
qed simp

lemma keep_newest_late: "\<forall>(sn, v) \<in> set us. sn < q \<Longrightarrow> keep_newest q x us = x"
  by (induction us) (auto simp: not_le [symmetric])

lemma keep_newest_last:
  assumes "distinct (map fst us)" and "(s, v) \<in> set us" and "\<forall>(sn, v) \<in> set us. sn \<le> s" and "q \<le> s"
  shows "alike (keep_newest q x us) v"
  using assms
proof (induction q x us rule: keep_newest.induct)
  case (2 q x sn w us)
  show ?case
  proof (cases "(s, v) = (sn, w)")
    case True
    have "\<forall>(sn', v') \<in> set us. sn' < s"
    proof (rule ballI)
      fix u
      assume u: "u \<in> set us"
      then have "fst u \<noteq> s" using "2.prems"(1) True by force
      moreover have "fst u \<le> s" using "2.prems"(3) u by auto
      ultimately show "case u of (sn', v') \<Rightarrow> sn' < s" by (simp add: split_beta)
    qed
    with True "2.prems"(4) show ?thesis by (simp add: keep_newest_late alike_def)
  next
    case False
    with "2" show ?thesis by auto
  qed
qed simp

section \<open>Properties\<close>

text \<open>Property C13.  The handler and the dropper together are a machine on the registry's map: whatever
  sequence of updates a connected adapter receives, and whatever its policy, the registry ends
  with the map, and the adapter with the policy, that result from asking the policy about one
  update after the other and storing those that it lets through.\<close>

theorem updates_refine:
  assumes "wf_world env w" and "w_heap w i = Some a" and "m_registry a"
    and "message_type_to_num env MSG_UPDATE < MESSAGE_TYPE_COUNT env" and "list_all (is_update env) es"
  shows "\<exists>w' a'. on_finished_all env now w i es = Inr w' \<and> wf_world env w' \<and> w_heap w' i = Some a' \<and>
    (m_dropperPolicy a', registry_map w') =
      receive_all env (m_adapterId a) es (m_dropperPolicy a, registry_map w)"
  using on_finished_receive_all [OF assms] by blast

text \<open>Property C14.  With the lossy policy the order of arrival does not matter, under these conditions:
  the updates are of one entry, which is not \<^verbatim>\<open>CTRL_RESET_SEQ_NUMBERS\<close>; the receiving adapter is
  the one that the policy has on record for it; the updates' sequence numbers are all different,
  and they and the one on record lie within 50 of each other and all on the same side of 32768;
  the one on record is not greater than the greatest of them.  Then the registry ends with the value of the update with the greatest number, or one that
  compares equal to it, and no other entry changes.  Across 32768 this is false.\<close>

theorem newest_value_wins:
  assumes "wf_world env w" and "w_heap w i = Some a" and "m_registry a"
    and "message_type_to_num env MSG_UPDATE < MESSAGE_TYPE_COUNT env"
    and "m_dropperPolicy a = LossyPolicy rs" and "sub_at rs (Type_int t) j = Inr r"
    and "uint (er_adapterId r) = sint (m_adapterId a)"
    and "\<forall>e \<in> set es. update_of env e t j (payload e)"
    and "(t, j) \<noteq> (Bool, Bool_int CTRL_RESET_SEQ_NUMBERS)"
    and "distinct (map e_seq_number es)" and "winner \<in> set es"
    and "\<forall>e \<in> set es. e_seq_number e \<le> e_seq_number winner" and "er_sequentNumber r \<le> e_seq_number winner"
    and "\<forall>q \<in> insert (er_sequentNumber r) (e_seq_number ` set es). lo \<le> unat q \<and> unat q \<le> lo + 50"
    and "lo + 50 < 32768 \<or> 32768 \<le> lo"
  shows "\<exists>w' x. on_finished_all env now w i es = Inr w' \<and> registry_map w' (t, j) = Some x \<and>
    alike x (payload winner) \<and> (\<forall>k. k \<noteq> (t, j) \<longrightarrow> registry_map w' k = registry_map w k)"
proof -
  let ?ty = "e_type winner" and ?pid = "e_property winner"
  let ?us = "map (\<lambda>e. (e_seq_number e, payload e)) es"
  have u: "unat (e_type e) = Type_int t \<and> unat (e_property e) = j \<and> decoded env e = Some ((t, j), payload e)"
    if "e \<in> set es" for e
  proof -
    have v: "update_of env e t j (payload e)" using assms(8) that by blast
    then obtain s where "Type_of (unat (e_type e)) = Some t" "unat (e_property e) = j"
      by (rule update_ofD)
    with v show ?thesis by (simp add: Type_of_Some_iff update_of_def)
  qed
  have all: "\<forall>e \<in> set es. e_type e = ?ty \<and> e_property e = ?pid \<and> decoded env e = Some ((t, j), payload e)"
    using u assms(11) by (auto simp: word_unat_eq_iff)
  have nr: "\<not> is_reset_entry ?ty ?pid"
    using u [OF assms(11)] assms(9) by (cases t) (auto simp: is_reset_entry_def)
  have at: "sub_at rs (unat ?ty) (unat ?pid) = Inr r" using u [OF assms(11)] assms(6) by simp
  have valid: "valid_prop t j" using assms(8,11) by (auto simp: update_of_def)
  then obtain x where x: "registry_map w (t, j) = Some x" using registry_map_eq [OF assms(1)] by simp
  have upd: "list_all (is_update env) es" using assms(8) by (auto simp: list_all_iff is_update_def)
  obtain w' and a' :: adapter where w': "on_finished_all env now w i es = Inr w'"
    "(m_dropperPolicy a', registry_map w') =
      receive_all env (m_adapterId a) es (m_dropperPolicy a, registry_map w)"
    using on_finished_receive_all [OF assms(1-4) upd, of now] by blast
  from receive_lossy [where m = "registry_map w" and payload = payload, OF nr at assms(7) all assms(14,15) x] w'(2) assms(5)
  have m: "registry_map w' (t, j) = Some (keep_newest (er_sequentNumber r) x ?us)"
    "\<forall>k. k \<noteq> (t, j) \<longrightarrow> registry_map w' k = registry_map w k" by auto
  have "distinct (map fst ?us)" using assms(10) by (simp add: comp_def)
  then have "alike (keep_newest (er_sequentNumber r) x ?us) (payload winner)"
    by (rule keep_newest_last [where s = "e_seq_number winner"]) (use assms(11-13) in auto)
  with w'(1) m show ?thesis by blast
qed

definition lossy_update :: "16 word \<Rightarrow> 8 word \<Rightarrow> tb_entry" where
  "lossy_update sn b = example_entry\<lparr>e_seq_number := sn, e_data := Some [b, 0]\<rparr>"

lemma lossy_update_of: "update_of example_rcore (lossy_update sn b) Int16 2 (VInt16 (ucast b))"
proof -
  have "Type_of (unat (e_type (lossy_update sn b))) = Some Int16"
    by (simp add: Type_of_Some_iff lossy_update_def example_entry_def)
  moreover have "le_nat [b, 0] 2 = unat b" by (simp add: le_nat_def numeral_2_eq_2)
  then have "from_data example_rcore Int16 [b, 0] = Some (VInt16 (ucast b))"
    by (simp add: from_data_def enough_data_def example_rcore_def)
  ultimately show ?thesis
    by (simp add: update_of_def decoded_def valid_prop_def lossy_update_def example_entry_def)
qed

definition lossy_start :: world where
  "lossy_start = example_world\<lparr>w_heap :=
     [1 \<mapsto> example_adapter\<lparr>m_adapterId := 0, m_dropperPolicy := LossyPolicy Lossy_init\<rparr>]\<rparr>"

lemma wf_lossy_start: "wf_world example_rcore lossy_start"
proof -
  have "wf_adapter example_rcore (example_adapter\<lparr>m_adapterId := 0, m_dropperPolicy := LossyPolicy Lossy_init\<rparr>)"
    using wf_example_adapter by (simp add: wf_adapter_def Lossy_init_def)
  then show ?thesis using wf_example_world by (simp add: lossy_start_def wf_world_def)
qed

theorem updates_refine_witness:
  "\<exists>w' a'. on_finished_all example_rcore 0 lossy_start 1 [lossy_update 9 7, lossy_update 8 5] = Inr w' \<and>
    wf_world example_rcore w' \<and> w_heap w' 1 = Some a' \<and>
    (m_dropperPolicy a', registry_map w') =
      receive_all example_rcore
        (m_adapterId (example_adapter\<lparr>m_adapterId := 0, m_dropperPolicy := LossyPolicy Lossy_init\<rparr>))
        [lossy_update 9 7, lossy_update 8 5]
        (m_dropperPolicy (example_adapter\<lparr>m_adapterId := 0, m_dropperPolicy := LossyPolicy Lossy_init\<rparr>),
         registry_map lossy_start)"
proof (rule updates_refine [OF wf_lossy_start])
  show "list_all (is_update example_rcore) [lossy_update 9 7, lossy_update 8 5]"
    unfolding is_update_def list.pred_inject using lossy_update_of
    by (intro conjI) (blast, blast, simp)
qed (simp_all add: lossy_start_def example_adapter_def adapter_init_def example_rcore_def)

theorem newest_value_wins_witness:
  "\<exists>w' x. on_finished_all example_rcore 0 lossy_start 1
      [lossy_update 7 5, lossy_update 9 3, lossy_update 8 1] = Inr w' \<and>
    registry_map w' (Int16, 2) = Some x \<and>
    alike x ((\<lambda>e. VInt16 (ucast (hd (the (e_data e))))) (lossy_update 9 3)) \<and>
    (\<forall>k. k \<noteq> (Int16, 2) \<longrightarrow> registry_map w' k = registry_map lossy_start k)"
proof (rule newest_value_wins [OF wf_lossy_start, where lo = 0 and r = "EntryRecord_init 0" and
      a = "example_adapter\<lparr>m_adapterId := 0, m_dropperPolicy := LossyPolicy Lossy_init\<rparr>"])
  show "sub_at Lossy_init (Type_int Int16) 2 = Inr (EntryRecord_init 0)"
    unfolding Lossy_init_def by (simp only: sub_at_Init) (simp add: valid_prop_def)
  show "\<forall>e \<in> set [lossy_update 7 5, lossy_update 9 3, lossy_update 8 1].
      update_of example_rcore e Int16 2 (VInt16 (ucast (hd (the (e_data e)))))"
    using lossy_update_of [of 7 5] lossy_update_of [of 9 3] lossy_update_of [of 8 1]
    by (simp add: lossy_update_def)
qed (simp_all add: lossy_start_def lossy_update_def example_adapter_def adapter_init_def
    example_rcore_def EntryRecord_init_def)

end
