(* ===== verification/Tests.thy ===== *)
theory Tests
  imports Replicas Reception
begin

text \<open>
  The unit tests of the registry (\<^verbatim>\<open>RRegistry/test/lossy.cpp\<close>, \<^verbatim>\<open>RRegistry/test/adapter.cpp\<close>) run
  on the model: each test is translated to a program over the model's operations, and the
  theorem at the end shows that all they require holds, whatever the memory that the registries
  were constructed in. The RCore library is a parameter, of which \<open>library_ok\<close> states what the
  tests rely on: what one end sends, the other end's parser finishes.
\<close>

section \<open>The library\<close>

text \<open>
  RCore: its functions; the bytes of a value; the entry that the other end's parser finishes for
  a call on the sender's buffer, which may depend on the calls before it; what parsing an
  entry's frame returns.
\<close>

record test_library =
  t_env :: rcore
  t_enc :: "val \<Rightarrow> bytes"
  t_wire :: "tb_call list \<Rightarrow> tb_call \<Rightarrow> tb_entry"
  t_parse :: "tb_entry \<Rightarrow> rcore_event"

definition library_ok :: "test_library \<Rightarrow> bool" where
  "library_ok L \<longleftrightarrow>
     (\<forall>l c. tb_result (t_env L) l c = LRT_RCORE_OK) \<and>
     (\<forall>l c. received (t_enc L) c (t_wire L l c)) \<and>
     (\<forall>v. vtype v \<noteq> String \<longrightarrow> from_data (t_env L) (vtype v) (t_enc L v) = Some v) \<and>
     message_type_to_num (t_env L) MSG_UPDATE < MESSAGE_TYPE_COUNT (t_env L) \<and>
     (\<forall>e. t_parse L e = LRT_RCORE_OK)"

lemma library_okD:
  assumes "library_ok L"
  shows "tb_result (t_env L) l c = LRT_RCORE_OK" and "received (t_enc L) c (t_wire L l c)"
    and "vtype v \<noteq> String \<Longrightarrow> from_data (t_env L) (vtype v) (t_enc L v) = Some v"
    and "message_type_to_num (t_env L) MSG_UPDATE < MESSAGE_TYPE_COUNT (t_env L)"
    and "t_parse L e = LRT_RCORE_OK"
  using assms by (simp_all add: library_ok_def)

section \<open>Delayed packets get ignored\<close>

text \<open>
  \<^verbatim>\<open>StackAdapter\<close>: \<^verbatim>\<open>send\<close> numbers the updates of two entries itself and pushes what is sent on a
  stack, from which the frames go to the target in reverse order. A frame is the entry that the
  target's parser makes of it.
\<close>

record stack_adapter =
  sa_adapter :: adapter
  m_seq_num_forward :: "16 word"
  m_seq_num_steering :: "16 word"
  m_stack :: "tb_entry list"

definition stack_adapter_init :: "test_library \<Rightarrow> bool \<Rightarrow> stack_adapter" where
  "stack_adapter_init L registry =
     \<lparr>sa_adapter = adapter_init (t_env L) 0 registry True ''Unnamed Adapter'' 0,
      m_seq_num_forward = 255, m_seq_num_steering = 255, m_stack = []\<rparr>"

definition stack_send :: "stack_adapter \<Rightarrow> tb_entry \<Rightarrow> stack_adapter" where
  "stack_send s e =
     (if e_type e = word_of_nat (Type_int Int16) \<and>
         e_property e = word_of_nat (Int16_int MVMT_FORWARD_VELOCITY)
      then s\<lparr>m_seq_num_forward := m_seq_num_forward s + 1,
             m_stack := e\<lparr>e_seq_number := m_seq_num_forward s\<rparr> # m_stack s\<rparr>
      else if e_type e = word_of_nat (Type_int Int16) \<and>
              e_property e = word_of_nat (Int16_int MVMT_STEER_DIRECTION)
      then s\<lparr>m_seq_num_steering := m_seq_num_steering s + 1,
             m_stack := e\<lparr>e_seq_number := m_seq_num_steering s\<rparr> # m_stack s\<rparr>
      else s\<lparr>m_stack := e # m_stack s\<rparr>)"

text \<open>\<^verbatim>\<open>adapter.set(...)\<close>, required to return \<^verbatim>\<open>LRT_RCORE_OK\<close>; the buffer hands the entry to \<^verbatim>\<open>send\<close>.\<close>

definition stack_set ::
  "test_library \<Rightarrow> stack_adapter \<Rightarrow> Entries.Int16 \<Rightarrow> 16 word \<Rightarrow> Reliability \<Rightarrow> stack_adapter option" where
  "stack_set L s p v reliability =
     (case adapter_set (t_env L) (sa_adapter s) (prop_of_int (Int16_int p)) (VInt16 v) reliability of
        Inl _ \<Rightarrow> None
      | Inr (ev, a) \<Rightarrow>
          if ev \<noteq> LRT_RCORE_OK then None
          else Some (stack_send (s\<lparr>sa_adapter := a\<rparr>)
            (t_wire L (m_transmit_buffer (sa_adapter s)) (last (m_transmit_buffer a)))))"

fun stack_sets ::
  "test_library \<Rightarrow> (Entries.Int16 \<times> 16 word) list \<Rightarrow> Reliability \<Rightarrow> stack_adapter \<Rightarrow> stack_adapter option" where
  "stack_sets L [] reliability s = Some s"
| "stack_sets L ((p, v) # ps) reliability s =
     (case stack_set L s p v reliability of
        None \<Rightarrow> None
      | Some s1 \<Rightarrow> stack_sets L ps reliability s1)"

definition packets :: "(Entries.Int16 \<times> 16 word) list" where
  "packets = [(MVMT_FORWARD_VELOCITY, 20), (MVMT_FORWARD_VELOCITY, 10), (MVMT_STEER_DIRECTION, 20),
     (MVMT_FORWARD_VELOCITY, 30), (MVMT_STEER_DIRECTION, 10), (MVMT_FORWARD_VELOCITY, 20),
     (MVMT_STEER_DIRECTION, 70), (MVMT_FORWARD_VELOCITY, 30)]"

text \<open>\<^verbatim>\<open>sendPackets\<close> and \<^verbatim>\<open>sendStack\<close>, with the registry and the adapter of the target.\<close>

definition sendPackets ::
  "test_library \<Rightarrow> stack_adapter \<Rightarrow> Reliability \<Rightarrow> world \<Rightarrow> nat \<Rightarrow> (stack_adapter \<times> world) option" where
  "sendPackets L s reliability w target =
     (case stack_sets L packets reliability s of
        None \<Rightarrow> None
      | Some s1 \<Rightarrow>
          if list_all (\<lambda>e. t_parse L e = LRT_RCORE_OK) (m_stack s1)
          then (case on_finished_all (t_env L) 0 w target (m_stack s1) of
             Inl _ \<Rightarrow> None
           | Inr w1 \<Rightarrow> Some (s1\<lparr>m_stack := []\<rparr>, w1))
          else None)"

definition int16_is :: "world \<Rightarrow> Entries.Int16 \<Rightarrow> 16 word \<Rightarrow> bool" where
  "int16_is w p v \<longleftrightarrow> registry_get w Int16 (prop_of_int (Int16_int p)) = Inr (VInt16 v)"

definition lossy_test :: "test_library \<Rightarrow> arrays \<Rightarrow> bool" where
  "lossy_test L memory =
     (case registry_init (t_env L) memory of
        Inl _ \<Rightarrow> False
      | Inr w \<Rightarrow>
          let w0 = put_adapter w 2 (sa_adapter (stack_adapter_init L True)) in
          (case sendPackets L (stack_adapter_init L False) BasicDelivery w0 2 of
             None \<Rightarrow> False
           | Some (adapter1, w1) \<Rightarrow>
               int16_is w1 MVMT_FORWARD_VELOCITY 20 \<and> int16_is w1 MVMT_STEER_DIRECTION 20 \<and>
               (let w2 = change_adapter w1 2 (\<lambda>a. setDropperPolicy a (LossyPolicy Lossy_init)) in
                case sendPackets L adapter1 BasicDelivery w2 2 of
                  None \<Rightarrow> False
                | Some (adapter1, w3) \<Rightarrow>
                    int16_is w3 MVMT_FORWARD_VELOCITY 30 \<and> int16_is w3 MVMT_STEER_DIRECTION 70)))"

section \<open>What the sender puts on its stack\<close>

definition test_frame :: "test_library \<Rightarrow> Entries.Int16 \<Rightarrow> 16 word \<Rightarrow> 16 word \<Rightarrow> tb_entry" where
  "test_frame L p v sn = \<lparr>e_type = word_of_nat (Type_int Int16), e_property = word_of_nat (Int16_int p),
     e_message_type = MSG_UPDATE, e_seq_number = sn, e_reliable = False,
     e_data = Some (t_enc L (VInt16 v))\<rparr>"

abbreviation (input) movement :: "Entries.Int16 \<Rightarrow> bool" where
  "movement p \<equiv> p \<in> {MVMT_FORWARD_VELOCITY, MVMT_STEER_DIRECTION}"

fun numbered ::
  "(Entries.Int16 \<times> 16 word) list \<Rightarrow> 16 word \<Rightarrow> 16 word \<Rightarrow> (Entries.Int16 \<times> 16 word \<times> 16 word) list" where
  "numbered [] f st = []"
| "numbered ((p, v) # ps) f st =
     (if p = MVMT_FORWARD_VELOCITY then (p, v, f) # numbered ps (f + 1) st
      else (p, v, st) # numbered ps f (st + 1))"

abbreviation (input) counted :: "(Entries.Int16 \<times> 16 word) list \<Rightarrow> bool \<Rightarrow> 16 word" where
  "counted ps b \<equiv> word_of_nat (length (filter (\<lambda>q. (fst q = MVMT_FORWARD_VELOCITY) = b) ps))"

definition ready :: "stack_adapter \<Rightarrow> bool" where
  "ready s \<longleftrightarrow> m_acceptProperty (sa_adapter s) \<and>
     m_subscriptions (sa_adapter s) = InitSubscriptionMap True"

lemma stack_set_eq:
  assumes "ready s" and "movement p" and L: "library_ok L"
  shows "\<exists>s'. stack_set L s p v BasicDelivery = Some s' \<and> ready s' \<and>
    (if p = MVMT_FORWARD_VELOCITY
     then m_seq_num_forward s' = m_seq_num_forward s + 1 \<and> m_seq_num_steering s' = m_seq_num_steering s \<and>
          m_stack s' = test_frame L p v (m_seq_num_forward s) # m_stack s
     else m_seq_num_forward s' = m_seq_num_forward s \<and> m_seq_num_steering s' = m_seq_num_steering s + 1 \<and>
          m_stack s' = test_frame L p v (m_seq_num_steering s) # m_stack s)"
proof -
  let ?pid = "prop_of_int (Int16_int p)"
  have idx: "prop_index ?pid = Int16_int p" "(ucast ?pid :: 16 word) = word_of_nat (Int16_int p)"
    using assms(2) by (auto simp: prop_of_int_def prop_index_def)
  have valid: "valid_prop Int16 (Int16_int p)" using assms(2) by (auto simp: valid_prop_def)
  have sub: "sub_at (InitSubscriptionMap True) (Type_int Int16) (Int16_int p) = Inr True"
    using valid by (simp only: sub_at_Init if_True)
  have "adapter_set (t_env L) (sa_adapter s) ?pid (VInt16 v) BasicDelivery =
      Inr (LRT_RCORE_OK, (sa_adapter s)\<lparr>m_currentReliability := BasicDelivery,
        m_transmit_buffer := m_transmit_buffer (sa_adapter s) @
          [TbSend (word_of_nat (Type_int Int16)) (word_of_nat (Int16_int p)) (VInt16 v) False]\<rparr>)"
    using assms(1) sub library_okD(1) [OF L] by (simp add: ready_def adapter_set_def idx tb_do_def)
  moreover have "(t_wire L l (TbSend (word_of_nat (Type_int Int16)) (word_of_nat (Int16_int p))
      (VInt16 v) False))\<lparr>e_seq_number := sn\<rparr> = test_frame L p v sn"
    and "e_type (t_wire L l (TbSend (word_of_nat (Type_int Int16)) (word_of_nat (Int16_int p))
      (VInt16 v) False)) = word_of_nat (Type_int Int16)"
    and "e_property (t_wire L l (TbSend (word_of_nat (Type_int Int16)) (word_of_nat (Int16_int p))
      (VInt16 v) False)) = word_of_nat (Int16_int p)" for l sn
    using library_okD(2) [OF L, of "TbSend (word_of_nat (Type_int Int16))
      (word_of_nat (Int16_int p)) (VInt16 v) False" l]
    by (simp_all add: received_def test_frame_def)
  ultimately show ?thesis
    using assms(1,2) by (auto simp: ready_def stack_set_def stack_send_def)
qed

lemma stack_sets_eq:
  assumes "ready s" and "\<forall>(p, v) \<in> set ps. movement p" and L: "library_ok L"
  shows "\<exists>s'. stack_sets L ps BasicDelivery s = Some s' \<and> ready s' \<and>
    m_seq_num_forward s' = m_seq_num_forward s + counted ps True \<and>
    m_seq_num_steering s' = m_seq_num_steering s + counted ps False \<and>
    m_stack s' = rev (map (\<lambda>(p, v, sn). test_frame L p v sn)
      (numbered ps (m_seq_num_forward s) (m_seq_num_steering s))) @ m_stack s"
  using assms(1,2)
proof (induction ps arbitrary: s)
  case (Cons q ps)
  obtain p v where q: "q = (p, v)" by (cases q)
  with Cons.prems have "movement p" by auto
  from stack_set_eq [OF Cons.prems(1) this L, of v] obtain s1 where
    "stack_set L s p v BasicDelivery = Some s1" "ready s1"
    "if p = MVMT_FORWARD_VELOCITY
     then m_seq_num_forward s1 = m_seq_num_forward s + 1 \<and> m_seq_num_steering s1 = m_seq_num_steering s \<and>
          m_stack s1 = test_frame L p v (m_seq_num_forward s) # m_stack s
     else m_seq_num_forward s1 = m_seq_num_forward s \<and> m_seq_num_steering s1 = m_seq_num_steering s + 1 \<and>
          m_stack s1 = test_frame L p v (m_seq_num_steering s) # m_stack s"
    by blast
  with Cons.IH [of s1] Cons.prems(2) q show ?case by (auto split: if_splits)
qed simp

section \<open>What the receiver makes of it\<close>

lemma frame_update:
  assumes L: "library_ok L"
  shows "movement p \<Longrightarrow> update_of (t_env L) (test_frame L p v sn) Int16 (Int16_int p) (VInt16 v)"
proof -
  have "Type_of (Suc 0) = Some Int16" by (simp add: Type_of_Some_iff)
  then show "movement p \<Longrightarrow> ?thesis"
    using library_okD(3) [OF L, of "VInt16 v"]
    by (auto simp: update_of_def decoded_def test_frame_def valid_prop_def)
qed

lemma frame_decoded:
  "library_ok L \<Longrightarrow> movement p \<Longrightarrow>
   decoded (t_env L) (test_frame L p v sn) = Some ((Int16, Int16_int p), VInt16 v)"
  using frame_update [of L p v sn] by (simp add: update_of_def)

definition at_entries :: "((Type \<times> nat) \<rightharpoonup> val) \<Rightarrow> (Entries.Int16 \<Rightarrow> 16 word) \<Rightarrow> bool" where
  "at_entries m x \<longleftrightarrow> (\<forall>p. movement p \<longrightarrow> m (Int16, Int16_int p) = Some (VInt16 (x p)))"

definition on_record :: "records \<Rightarrow> (Entries.Int16 \<Rightarrow> EntryRecord) \<Rightarrow> bool" where
  "on_record rs r \<longleftrightarrow> (\<forall>p. movement p \<longrightarrow> sub_at rs (Type_int Int16) (Int16_int p) = Inr (r p))"

lemma at_entries_stored:
  "at_entries m x \<Longrightarrow> movement p \<Longrightarrow>
   at_entries (stored_in m (Int16, Int16_int p) (VInt16 v)) (x(p := v))"
  by (auto simp: at_entries_def stored_in_def)

text \<open>Without a filter the last frame of an entry counts; with the lossy one, the decision about it.\<close>

fun take_all ::
  "(Entries.Int16 \<times> 16 word \<times> 16 word) list \<Rightarrow> (Entries.Int16 \<Rightarrow> 16 word) \<Rightarrow> Entries.Int16 \<Rightarrow> 16 word" where
  "take_all [] x = x"
| "take_all ((p, v, sn) # fs) x = take_all fs (x(p := v))"

fun take_new ::
  "(Entries.Int16 \<times> 16 word \<times> 16 word) list \<Rightarrow> (Entries.Int16 \<Rightarrow> EntryRecord) \<Rightarrow>
     (Entries.Int16 \<Rightarrow> 16 word) \<Rightarrow> Entries.Int16 \<Rightarrow> 16 word" where
  "take_new [] r x = x"
| "take_new ((p, v, sn) # fs) r x =
     take_new fs (r(p := snd (decide (r p) sn 0))) (if fst (decide (r p) sn 0) then x else x(p := v))"

lemma receive_take_all:
  assumes "at_entries m x" and "\<forall>(p, v, sn) \<in> set fs. movement p" and L: "library_ok L"
  shows "\<exists>m'. receive_all (t_env L) aid (map (\<lambda>(p, v, sn). test_frame L p v sn) fs) (BasePolicy, m) =
    (BasePolicy, m') \<and> at_entries m' (take_all fs x)"
  using assms(1,2)
proof (induction fs x arbitrary: m rule: take_all.induct)
  case (2 p v sn fs x)
  then have "movement p" by auto
  with "2.IH" [OF at_entries_stored [OF "2.prems"(1) this]] "2.prems"(2) show ?case
    by (simp add: Base_shouldBeDropped_def frame_decoded [OF L] fun_upd_def)
qed simp

lemma on_record_updated:
  assumes "on_record rs r" and "movement p"
  shows "on_record (rs[Type_int Int16 := (rs ! Type_int Int16)[Int16_int p := y]]) (r(p := y))"
  using assms by (auto simp: on_record_def sub_at_def res_simps vec_at_Inr_iff nth_list_update)

lemma receive_take_new:
  assumes "at_entries m x" and "on_record rs r" and "\<forall>(p, v, sn) \<in> set fs. movement p"
    and L: "library_ok L"
  shows "\<exists>rs' m'. receive_all (t_env L) 0 (map (\<lambda>(p, v, sn). test_frame L p v sn) fs) (LossyPolicy rs, m) =
    (LossyPolicy rs', m') \<and> at_entries m' (take_new fs r x)"
  using assms(1-3)
proof (induction fs r x arbitrary: m rs rule: take_new.induct)
  case (2 p v sn fs r x)
  then have p: "movement p" by auto
  let ?d = "decide (r p) sn 0"
  let ?rs = "rs[Type_int Int16 := (rs ! Type_int Int16)[Int16_int p := snd ?d]]"
  let ?m = "if fst ?d then m else stored_in m (Int16, Int16_int p) (VInt16 v)"
  have idx: "unat (word_of_nat (Type_int Int16) :: 8 word) = Type_int Int16"
    "unat (word_of_nat (Int16_int p) :: 16 word) = Int16_int p" using p by auto
  have "sub_at rs (unat (word_of_nat (Type_int Int16) :: 8 word))
      (unat (word_of_nat (Int16_int p) :: 16 word)) = Inr (r p)"
    using "2.prems"(2) p unfolding idx on_record_def by blast
  from Lossy_decide [OF this, of False sn 0]
  have "Lossy_shouldBeDropped rs False (word_of_nat (Type_int Int16)) (word_of_nat (Int16_int p)) sn 0 =
      Inr (fst ?d, ?rs)"
    unfolding idx by (simp add: is_reset_entry_def)
  then have step: "receive_all (t_env L) 0 (map (\<lambda>(p, v, sn). test_frame L p v sn) ((p, v, sn) # fs))
      (LossyPolicy rs, m) =
      receive_all (t_env L) 0 (map (\<lambda>(p, v, sn). test_frame L p v sn) fs) (LossyPolicy ?rs, ?m)"
    using frame_decoded [OF L p, of v sn] by (simp add: test_frame_def)
  have "at_entries ?m (if fst ?d then x else x(p := v))"
    using "2.prems"(1) at_entries_stored [OF "2.prems"(1) p] by simp
  moreover have "\<forall>(p, v, sn) \<in> set fs. movement p" using "2.prems"(3) by auto
  ultimately show ?case
    unfolding step take_new.simps by (intro "2.IH" on_record_updated [OF "2.prems"(2) p])
qed simp

section \<open>The test passes\<close>

text \<open>A batch of the eight packets, sent by the one adapter and received by the other.\<close>

abbreviation (input) frames :: "16 word \<Rightarrow> 16 word \<Rightarrow> (Entries.Int16 \<times> 16 word \<times> 16 word) list" where
  "frames f st \<equiv> rev (numbered packets f st)"

lemma packets_movement: "\<forall>(p, v) \<in> set packets. movement p" "\<forall>(p, v, sn) \<in> set (frames f st). movement p"
  by (simp_all add: packets_def)

lemma sendPackets_eq:
  assumes "ready s" and "m_stack s = []" and "wf_world (t_env L) w" and "w_heap w i = Some a"
    and "m_registry a" and L: "library_ok L"
  shows "\<exists>s' w' a'. sendPackets L s BasicDelivery w i = Some (s', w') \<and> ready s' \<and> m_stack s' = [] \<and>
    m_seq_num_forward s' = m_seq_num_forward s + 5 \<and> m_seq_num_steering s' = m_seq_num_steering s + 3 \<and>
    wf_world (t_env L) w' \<and> w_heap w' i = Some a' \<and> m_registry a' \<and> m_adapterId a' = m_adapterId a \<and>
    (m_dropperPolicy a', registry_map w') = receive_all (t_env L) (m_adapterId a)
      (map (\<lambda>(p, v, sn). test_frame L p v sn) (frames (m_seq_num_forward s) (m_seq_num_steering s)))
      (m_dropperPolicy a, registry_map w)"
proof -
  let ?es = "map (\<lambda>(p, v, sn). test_frame L p v sn) (frames (m_seq_num_forward s) (m_seq_num_steering s))"
  from stack_sets_eq [OF assms(1) packets_movement(1) L] assms(2) obtain s1 where
    s1: "stack_sets L packets BasicDelivery s = Some s1" "ready s1" "m_stack s1 = ?es"
    "m_seq_num_forward s1 = m_seq_num_forward s + counted packets True"
    "m_seq_num_steering s1 = m_seq_num_steering s + counted packets False"
    by (auto simp: rev_map)
  have "is_update (t_env L) e" if "e \<in> set ?es" for e
    using that packets_movement(2) [of "m_seq_num_forward s" "m_seq_num_steering s"] frame_update [OF L]
    unfolding is_update_def by fastforce
  then have "list_all (is_update (t_env L)) ?es" by (simp only: list_all_iff) blast
  moreover have "message_type_to_num (t_env L) MSG_UPDATE < MESSAGE_TYPE_COUNT (t_env L)"
    by (rule library_okD(4) [OF L])
  ultimately obtain w' and a' :: adapter where
    "on_finished_all (t_env L) 0 w i ?es = Inr w'" "wf_world (t_env L) w'" "w_heap w' i = Some a'"
    "m_registry a'" "m_adapterId a' = m_adapterId a"
    "(m_dropperPolicy a', registry_map w') =
      receive_all (t_env L) (m_adapterId a) ?es (m_dropperPolicy a, registry_map w)"
    using on_finished_receive_all [OF assms(3-5), of ?es 0] by blast
  moreover have "list_all (\<lambda>e. t_parse L e = LRT_RCORE_OK) es" for es
    using library_okD(5) [OF L] by (simp add: list_all_iff)
  ultimately show ?thesis using s1 by (auto simp: sendPackets_def ready_def packets_def)
qed

text \<open>The registry's values of the two entries are of their type.\<close>

lemma registry_at_entries: "wf_world env w \<Longrightarrow> \<exists>x. at_entries (registry_map w) x"
proof -
  assume w: "wf_world env w"
  have "\<exists>v. m_arrays w Int16 ! Int16_int p = VInt16 v" if "movement p" for p
    using array_type [OF w, of Int16 "Int16_int p"] that
    by (cases "m_arrays w Int16 ! Int16_int p") (auto simp: valid_prop_def)
  then obtain x where "\<forall>p. movement p \<longrightarrow> m_arrays w Int16 ! Int16_int p = VInt16 (x p)" by metis
  moreover have "valid_prop Int16 (Int16_int p)" if "movement p" for p
    using that by (auto simp: valid_prop_def)
  ultimately have "registry_map w (Int16, Int16_int p) = Some (VInt16 (x p))" if "movement p" for p
    using that registry_map_eq [OF w, of Int16 "Int16_int p"] by metis
  then show ?thesis unfolding at_entries_def by blast
qed

lemma int16_is_iff:
  assumes "wf_world env w" and "at_entries (registry_map w) x" and "movement p"
  shows "int16_is w p v \<longleftrightarrow> x p = v"
proof -
  have "valid_prop Int16 (prop_index (prop_of_int (Int16_int p)))" "prop_index (prop_of_int (Int16_int p)) = Int16_int p"
    using assms(3) by (auto simp: valid_prop_def prop_of_int_def prop_index_def)
  moreover have "registry_map w (Int16, Int16_int p) = Some (VInt16 (x p))"
    using assms(2,3) unfolding at_entries_def by blast
  ultimately show ?thesis
    using registry_map_eq [OF assms(1), of Int16 "Int16_int p"]
    by (auto simp: int16_is_def registry_get_eq [OF assms(1)])
qed

lemma lossy_test_passes:
  assumes "wf_arrays memory" and L: "library_ok L"
  shows "lossy_test L memory"
proof -
  let ?a = "adapter_init (t_env L) 0 True True ''Unnamed Adapter'' 0"
  let ?F = MVMT_FORWARD_VELOCITY and ?S = MVMT_STEER_DIRECTION
  obtain w where w: "registry_init (t_env L) memory = Inr w" "wf_world (t_env L) w"
    using registry_init_ok [OF assms(1)] by blast
  have w0: "wf_world (t_env L) (put_adapter w 2 ?a)"
    by (intro wf_put_adapter w(2) wf_adapter_init)
  have "ready (stack_adapter_init L False)" by (simp add: ready_def stack_adapter_init_def adapter_init_def)
  from sendPackets_eq [OF this _ w0 _ _ L, of 2 ?a] obtain s1 w1 a1 where
    s1: "sendPackets L (stack_adapter_init L False) BasicDelivery (put_adapter w 2 ?a) 2 = Some (s1, w1)"
      "ready s1" "m_stack s1 = []" "m_seq_num_forward s1 = 260" "m_seq_num_steering s1 = 258"
      "wf_world (t_env L) w1" "w_heap w1 2 = Some a1" "m_registry a1" "m_adapterId a1 = 0"
      "(m_dropperPolicy a1, registry_map w1) = receive_all (t_env L) 0
        (map (\<lambda>(p, v, sn). test_frame L p v sn) (frames 255 255)) (BasePolicy, registry_map (put_adapter w 2 ?a))"
    by (auto simp: stack_adapter_init_def adapter_init_def)
  obtain x where "at_entries (registry_map (put_adapter w 2 ?a)) x" using registry_at_entries [OF w0] by blast
  from receive_take_all [OF this packets_movement(2) L, of 0 255 255] s1(10)
  have x1: "m_dropperPolicy a1 = BasePolicy" "at_entries (registry_map w1) (take_all (frames 255 255) x)"
    by auto
  have "take_all (frames 255 255) x ?F = 20 \<and> take_all (frames 255 255) x ?S = 20"
    by (simp add: packets_def)
  then have first: "int16_is w1 ?F 20" "int16_is w1 ?S 20"
    using int16_is_iff [OF s1(6) x1(2)] by simp_all
  let ?w2 = "change_adapter w1 2 (\<lambda>a. setDropperPolicy a (LossyPolicy Lossy_init))"
    and ?a2 = "setDropperPolicy a1 (LossyPolicy Lossy_init)"
  have "wf_adapter (t_env L) ?a2"
    using wf_world_adapter [OF s1(6,7)] by (simp add: setDropperPolicy_def wf_adapter_def Lossy_init_def)
  from wf_put_adapter [OF s1(6) this, of 2] have w2: "wf_world (t_env L) ?w2" "w_heap ?w2 2 = Some ?a2"
    using s1(7) by (simp_all add: change_adapter_def put_adapter_def)
  have a2: "m_registry ?a2" "m_dropperPolicy ?a2 = LossyPolicy Lossy_init" "m_adapterId ?a2 = 0"
    using s1(8,9) by (simp_all add: setDropperPolicy_def)
  from sendPackets_eq [OF s1(2,3) w2 a2(1) L] obtain s3 w3 and a3 :: adapter where
    s3: "sendPackets L s1 BasicDelivery ?w2 2 = Some (s3, w3)" "wf_world (t_env L) w3"
      "(m_dropperPolicy a3, registry_map w3) = receive_all (t_env L) 0
        (map (\<lambda>(p, v, sn). test_frame L p v sn) (frames 260 258)) (LossyPolicy Lossy_init, registry_map w1)"
    unfolding s1(4,5) a2(2,3) registry_map_def change_adapter_frame by blast
  have "on_record Lossy_init (\<lambda>_. EntryRecord_init 0)"
    unfolding on_record_def Lossy_init_def sub_at_Init by (simp add: valid_prop_def)
  from receive_take_new [OF x1(2) this packets_movement(2) [of 260 258] L] s3(3)
  have x3: "at_entries (registry_map w3)
      (take_new (frames 260 258) (\<lambda>_. EntryRecord_init 0) (take_all (frames 255 255) x))"
    by auto
  have "take_new (frames 260 258) (\<lambda>_. EntryRecord_init 0) y ?F = 30 \<and>
      take_new (frames 260 258) (\<lambda>_. EntryRecord_init 0) y ?S = 70" for y
    by (simp add: packets_def decide_def seq_distance_def EntryRecord_init_def)
  then have "int16_is w3 ?F 30" "int16_is w3 ?S 70"
    using int16_is_iff [OF s3(2) x3] by simp_all
  with first w(1) s1(1) s3(1) show ?thesis
    by (simp add: lossy_test_def stack_adapter_init_def)
qed

section \<open>Transmissions between two adapters of a registry\<close>

text \<open>
  \<^verbatim>\<open>RRegistry/test/adapter.cpp\<close>: adapter 1 sends to adapter 2, whose registry is the same; neither
  is registered there. \<^verbatim>\<open>checkValue\<close>, cast to the native type.
\<close>

fun checkValue :: "Type \<Rightarrow> val" where
  "checkValue Int8 = VInt8 100"
| "checkValue Int16 = VInt16 100"
| "checkValue Int32 = VInt32 100"
| "checkValue Int64 = VInt64 100"
| "checkValue Uint8 = VUint8 100"
| "checkValue Uint16 = VUint16 100"
| "checkValue Uint32 = VUint32 100"
| "checkValue Uint64 = VUint64 100"
| "checkValue Float = VFloat 0x42C80000"
| "checkValue Double = VDouble 0x4059000000000000"
| "checkValue Bool = VBool True"
| "checkValue String = VString ''''"

text \<open>\<^verbatim>\<open>adapter1.set(...)\<close>, with the frames of the calls on the buffer parsed by adapter 2.\<close>

definition transmit_set :: "test_library \<Rightarrow> world \<Rightarrow> property \<Rightarrow> val \<Rightarrow> Reliability \<Rightarrow> world res" where
  "transmit_set L w p v reliability =
     (case w_heap w 1 of
        None \<Rightarrow> Inl NullDeref
      | Some a \<Rightarrow>
          bindR (adapter_set (t_env L) a p v reliability) (\<lambda>(ev, a1).
            on_finished_all (t_env L) 0 (put_adapter w 1 a1) 2
              (map (t_wire L (m_transmit_buffer a))
                (drop (length (m_transmit_buffer a)) (m_transmit_buffer a1)))))"

text \<open>The two nested loops, over all types and entries; the default case does nothing.\<close>

fun set_variables :: "test_library \<Rightarrow> Reliability \<Rightarrow> (Type \<times> nat) list \<Rightarrow> world \<Rightarrow> world res" where
  "set_variables L reliability [] w = Inr w"
| "set_variables L reliability ((t, i) # es) w =
     (if t \<in> set CPPTYPELIST
      then bindR (transmit_set L w (prop_of_int i) (checkValue t) reliability)
             (set_variables L reliability es)
      else set_variables L reliability es w)"

definition check_variables :: "world \<Rightarrow> bool" where
  "check_variables w \<longleftrightarrow> list_all (\<lambda>(t, i). t \<in> set CPPTYPELIST \<longrightarrow>
     (case registry_get w t (prop_of_int i) of Inl _ \<Rightarrow> False | Inr x \<Rightarrow> val_eq x (checkValue t)))
     all_entries"

definition adapter_test :: "test_library \<Rightarrow> arrays \<Rightarrow> bool" where
  "adapter_test L memory =
     (let a = adapter_init (t_env L) 0 True True ''Unnamed Adapter'' 0 in
      case bindR (registry_init (t_env L) memory) (\<lambda>w.
             set_variables L DefaultReliability all_entries (put_adapter (put_adapter w 1 a) 2 a)) of
        Inl _ \<Rightarrow> False
      | Inr w1 \<Rightarrow> check_variables w1 \<and>
          (case set_variables L BasicDelivery all_entries w1 of
             Inl _ \<Rightarrow> False
           | Inr w2 \<Rightarrow> check_variables w2))"

text \<open>What every step of the test keeps.\<close>

definition in_test :: "test_library \<Rightarrow> world \<Rightarrow> bool" where
  "in_test L w \<longleftrightarrow> wf_world (t_env L) w \<and> m_adapters w = [] \<and>
     (\<exists>a1 a2. w_heap w 1 = Some a1 \<and> m_acceptProperty a1 \<and>
        m_subscriptions a1 = InitSubscriptionMap True \<and>
        w_heap w 2 = Some a2 \<and> m_registry a2 \<and> m_dropperPolicy a2 = BasePolicy)"

lemma transmit_set_ok:
  assumes "in_test L w" and "valid_prop (vtype v) i" and "vtype v \<noteq> String" and L: "library_ok L"
  shows "\<exists>w'. transmit_set L w (prop_of_int i) v rel = Inr w' \<and> in_test L w' \<and>
    registry_map w' = stored_in (registry_map w) (vtype v, i) v"
proof -
  obtain a1 a2 where w: "wf_world (t_env L) w" "m_adapters w = []"
    and a1: "w_heap w 1 = Some a1" "m_acceptProperty a1" "m_subscriptions a1 = InitSubscriptionMap True"
    and a2: "w_heap w 2 = Some a2" "m_registry a2" "m_dropperPolicy a2 = BasePolicy"
    using assms(1) by (auto simp: in_test_def)
  let ?p = "prop_of_int i" and ?b = "adapter_put (prop_of_int i) v rel a1"
  let ?e = "t_wire L (m_transmit_buffer a1) (value_call ?p v rel)" and ?w = "put_adapter w 1 (adapter_put (prop_of_int i) v rel a1)"
  have i: "prop_index ?p = i" using assms(2) GetEntryCount_le [of "vtype v"] by (simp add: valid_prop_def)
  then have valid: "valid_prop (vtype v) (prop_index ?p)" using assms(2) by simp
  have wf1: "wf_adapter (t_env L) a1" by (rule wf_world_adapter [OF w(1) a1(1)])
  have "subscribed_at a1 (vtype v) (prop_index ?p)"
    unfolding subscribed_at_def a1(3) sub_at_Init using valid by simp
  then have "m_transmit_buffer ?b = m_transmit_buffer a1 @ [value_call ?p v rel]"
    using a1(2) assms(3) by (simp add: adapter_put_def accepts_def)
  then have send: "transmit_set L w ?p v rel = on_finished_all (t_env L) 0 ?w 2 [?e]"
    using adapter_set_eq [OF _ valid, of a1 "t_env L" rel] wf1 a1(1) assms(3)
    by (simp add: transmit_set_def wf_adapter_def)
  have e: "e_message_type ?e = MSG_UPDATE" "Type_of (unat (e_type ?e)) = Some (vtype v)"
    "unat (e_property ?e) = i" "e_data ?e = Some (t_enc L v)"
    using i library_okD(2) [OF L, of "value_call ?p v rel" "m_transmit_buffer a1"]
    by (simp_all add: received_def value_call_def Type_of_Some_iff prop_index_def)
  have v: "valid_prop (vtype v) (unat (e_property ?e))" using assms(2) e(3) by simp
  have w': "wf_world (t_env L) ?w" using w(1) wf1 by (intro wf_put_adapter wf_adapter_put)
  have h2: "w_heap ?w 2 = Some a2" using a2(1) by simp
  have n: "message_type_to_num (t_env L) MSG_UPDATE < MESSAGE_TYPE_COUNT (t_env L)"
    by (rule library_okD(4) [OF L])
  have d: "shouldBeDropped (m_dropperPolicy a2) (e_reliable ?e) (e_type ?e) (e_property ?e)
      (e_seq_number ?e) (m_adapterId a2) = Inr (False, BasePolicy)"
    by (simp add: a2(3) Base_shouldBeDropped_def)
  let ?pid = "prop_of_id (e_property ?e)"
  let ?s = "stored_world ?w 2 a2 BasePolicy ?pid v"
  from on_finished_stored [OF w' h2 a2(2) n e(1,2) v e(4) library_okD(3) [OF L assms(3)] d, of 0]
  obtain c q where wf2: "wf_adapter (t_env L) a2" and
    fin: "on_finished (t_env L) 0 ?w 2 ?e = Inr (?s\<lparr>w_callbacks := c, m_persistencyPolicy := q\<rparr>)"
    by blast
  have "wf_world (t_env L) ?s \<and> registry_map ?s = stored_in (registry_map w) (vtype v, i) v"
    using stored_world_map [OF w' wf2, of BasePolicy v ?pid 2] v e(3) assms(2)
      registry_map_eq [OF w(1), of "vtype v" i] by (simp add: stored_in_def)
  moreover have "m_adapters ?s = [] \<and> w_heap ?s 1 = Some ?b"
    using w(2) by (simp add: stored_world_def set_result_def Let_def)
  moreover have "w_heap ?s 2 = Some (updating a2 BasePolicy\<lparr>m_acceptProperty := True\<rparr>)"
    by (rule stored_world_adapter)
  ultimately have "in_test L (?s\<lparr>w_callbacks := c, m_persistencyPolicy := q\<rparr>)"
    using a1(2,3) a2(2) by (simp add: in_test_def updating_def)
  then show ?thesis
    using send fin \<open>wf_world (t_env L) ?s \<and> _\<close> by simp
qed

definition checked :: "((Type \<times> nat) \<rightharpoonup> val) \<Rightarrow> Type \<times> nat \<Rightarrow> bool" where
  "checked m k \<longleftrightarrow> (\<exists>x. m k = Some x \<and> val_eq x (checkValue (fst k)))"

lemma vtype_checkValue [simp]: "vtype (checkValue t) = t"
  by (cases t) simp_all

lemma checkValue_refl: "val_eq (checkValue t) (checkValue t)"
  by (cases t) (simp_all add: float_eq_def double_eq_def float_is_nan_def double_is_nan_def)

lemma checked_stored:
  assumes "k \<in> dom m" and "checked m k' \<or> k' = k"
  shows "checked (stored_in m k (checkValue (fst k))) k'"
  using assms checkValue_refl by (auto simp: checked_def stored_in_def)

lemma set_variables_ok:
  assumes "in_test L w" and "\<forall>(t, i) \<in> set es. valid_prop t i" and L: "library_ok L"
  shows "\<exists>w'. set_variables L rel es w = Inr w' \<and> in_test L w' \<and>
    (\<forall>k. checked (registry_map w) k \<or> k \<in> set es \<and> fst k \<noteq> String \<longrightarrow> checked (registry_map w') k)"
  using assms(1,2)
proof (induction es arbitrary: w)
  case (Cons q es)
  obtain t i where q: "q = (t, i)" by (cases q)
  with Cons.prems have valid: "valid_prop t i" and es: "\<forall>(t, i) \<in> set es. valid_prop t i" by auto
  show ?case
  proof (cases "t = String")
    case False
    from transmit_set_ok [OF Cons.prems(1) _ _ L, of "checkValue t" i rel] valid False obtain w1 where
      w1: "transmit_set L w (prop_of_int i) (checkValue t) rel = Inr w1" "in_test L w1"
      "registry_map w1 = stored_in (registry_map w) (t, i) (checkValue t)" by auto
    have "wf_world (t_env L) w" using Cons.prems(1) by (simp add: in_test_def)
    then have "(t, i) \<in> dom (registry_map w)" using valid registry_map_eq by auto
    from checked_stored [OF this] w1(3)
    have "checked (registry_map w1) k" if "checked (registry_map w) k \<or> k = (t, i)" for k
      using that by simp
    moreover obtain w' where "set_variables L rel es w1 = Inr w'" "in_test L w'"
      "\<forall>k. checked (registry_map w1) k \<or> k \<in> set es \<and> fst k \<noteq> String \<longrightarrow> checked (registry_map w') k"
      using Cons.IH [OF w1(2) es] by blast
    ultimately show ?thesis using w1(1) False q by auto
  qed (use Cons.IH [OF Cons.prems(1) es] q in auto)
qed simp

lemma check_variables_iff:
  assumes "wf_world env w"
  shows "check_variables w \<longleftrightarrow> (\<forall>k \<in> set all_entries. fst k \<noteq> String \<longrightarrow> checked (registry_map w) k)"
proof -
  have "prop_index (prop_of_int i) = i" if "valid_prop t i" for t i
    using that GetEntryCount_le [of t] by (simp add: valid_prop_def)
  then show ?thesis
    by (fastforce simp: check_variables_def list_all_iff set_all_entries checked_def
        registry_get_eq [OF assms] registry_map_eq [OF assms])
qed

text \<open>Property C5.  The tests of the registry pass on the model, in whatever memory the registries are
  constructed, with any RCore library whose buffer accepts every call, whose parser finishes at
  the other end the entry that was sent, with success, and whose decoder inverts its encoder.
  Every entry but the strings, sent by one adapter, is in the registry of the other adapter,
  with both reliabilities; and of eight movement packets that arrive in the reverse order, the
  registry ends with the first two values without a dropper, and with the last two values when
  the lossy dropper is in place.\<close>

theorem registry_tests_pass:
  assumes "wf_arrays memory" and "library_ok L"
  shows "adapter_test L memory \<and> lossy_test L memory"
proof -
  let ?a = "adapter_init (t_env L) 0 True True ''Unnamed Adapter'' 0"
  obtain w where w: "registry_init (t_env L) memory = Inr w" "wf_world (t_env L) w"
    "m_adapters w = []" using registry_init_ok [OF assms(1)] by blast
  let ?w = "put_adapter (put_adapter w 1 ?a) 2 ?a"
  have "wf_world (t_env L) ?w" by (intro wf_put_adapter w(2) wf_adapter_init)
  then have "in_test L ?w" using w(3) by (simp add: in_test_def adapter_init_def)
  moreover have all: "\<forall>(t, i) \<in> set all_entries. valid_prop t i" by (simp add: set_all_entries)
  ultimately obtain w1 where w1: "set_variables L DefaultReliability all_entries ?w = Inr w1" "in_test L w1"
    "\<forall>k \<in> set all_entries. fst k \<noteq> String \<longrightarrow> checked (registry_map w1) k"
    using set_variables_ok [OF _ _ assms(2), of ?w all_entries DefaultReliability] by blast
  obtain w2 where w2: "set_variables L BasicDelivery all_entries w1 = Inr w2"
    "in_test L w2" "\<forall>k \<in> set all_entries. fst k \<noteq> String \<longrightarrow> checked (registry_map w2) k"
    using set_variables_ok [OF w1(2) all assms(2), of BasicDelivery] by blast
  have "wf_world (t_env L) w1" "wf_world (t_env L) w2"
    using w1(2) w2(2) by (simp_all add: in_test_def)
  then have "check_variables w1" "check_variables w2"
    using check_variables_iff w1(3) w2(3) by blast+
  then show ?thesis
    using w(1) w1(1) w2(1) lossy_test_passes [OF assms] by (simp add: adapter_test_def Let_def)
qed

definition example_library :: test_library where
  "example_library = \<lparr>t_env = example_rcore, t_enc = le_enc, t_wire = example_wire,
     t_parse = \<lambda>_. LRT_RCORE_OK\<rparr>"

lemma example_library_ok: "library_ok example_library"
proof -
  have "tb_result example_rcore l c = LRT_RCORE_OK"
    and "message_type_to_num example_rcore MSG_UPDATE < MESSAGE_TYPE_COUNT example_rcore" for l c
    by (simp_all add: example_rcore_def)
  then show ?thesis
    using le_enc_inverse
    by (auto simp: library_ok_def example_library_def example_wire_def received_def
        split: tb_call.split)
qed

theorem registry_tests_pass_witness:
  "adapter_test example_library (m_arrays zero_world) \<and>
   lossy_test example_library (m_arrays zero_world)"
  by (rule registry_tests_pass [OF _ example_library_ok])
    (use wf_zero_world [of example_rcore] in \<open>simp add: wf_world_def\<close>)

end
