(* ===== verification/ConsoleTest.thy ===== *)
theory ConsoleTest
  imports Replicas Console
begin

text \<open>
  The test of the console adapter (\<^verbatim>\<open>RSupport/test/consoleadapter.cpp\<close>) run on the model: two
  registries, each with a console adapter whose callback parses every line that the adapter
  writes with the other adapter. The theorem at the end shows that all that the test requires
  holds, whatever the memory that the registries were constructed in.

  The state is a network of theory \<open>Network\<close> with one link, and the consoles at its ends: a
  message in flight is one that the link's adapter has put on its buffer; it is piped when the
  operation that sent it has returned, which for the test is the same as piping it from inside
  that operation, because no message that it sends makes the other side send. What the RCore
  and RComm libraries and the Boost iterators do is a parameter.
\<close>

section \<open>The state\<close>

text \<open>
  The libraries: base64, the bytes of a message for a finished entry of the buffer, and the
  parser. \<open>rcomm_send_tb_entry\<close> hands the bytes to the callback that transmits.
\<close>

record console_lib =
  l_enc :: "bytes \<Rightarrow> string"
  l_dec :: "string \<Rightarrow> bytes option"
  l_pack :: "tb_entry \<Rightarrow> bytes"
  l_parse :: parser

definition send_packed ::
  "console_lib \<Rightarrow> (bytes \<Rightarrow> console \<Rightarrow> (rcore_event \<times> console) res) \<Rightarrow> tb_entry option \<Rightarrow> console \<Rightarrow>
     (rcore_event \<times> console) res" where
  "send_packed L transmit entry c =
     (case entry of None \<Rightarrow> Inl NullDeref | Some e \<Rightarrow> transmit (l_pack L e) c)"

text \<open>The programs 1 and 2, each with its adapter 1.\<close>

record joint =
  j_net :: net
  j_console :: "nat \<Rightarrow> console"

definition test_peer :: links where
  "test_peer = [(1, 1) \<mapsto> (2, 1), (2, 1) \<mapsto> (1, 1)]"

abbreviation other :: "nat \<Rightarrow> nat" where
  "other k \<equiv> 3 - k"

text \<open>The steps of the test, one after the other; \<open>None\<close> when the test fails.\<close>

fun run_steps :: "('s \<Rightarrow> 's option) list \<Rightarrow> 's \<Rightarrow> 's option" where
  "run_steps [] s = Some s"
| "run_steps (f # fs) s = (case f s of None \<Rightarrow> None | Some s1 \<Rightarrow> run_steps fs s1)"

section \<open>Piping data between the adapters\<close>

text \<open>
  The lambda that is the callback of the adapter of program \<open>other k\<close>: the line is shown, and
  parsed by the adapter of program \<open>k\<close>, which is required to succeed.
\<close>

definition test_callback :: "network_env \<Rightarrow> console_lib \<Rightarrow> nat \<Rightarrow> string \<Rightarrow> joint \<Rightarrow> joint option" where
  "test_callback T L k line s =
     (case extractBinaryStreamFromLine (l_dec L) line of
        None \<Rightarrow> None
      | Some binary \<Rightarrow>
          (case binaryStreamToBitRepresentation binary of
             Inl _ \<Rightarrow> None
           | Inr _ \<Rightarrow>
               (case parseLine (n_env T k) (l_dec L) (l_parse L) 0 1 line
                       (j_console s k, n_world (j_net s) k) of
                  Inl _ \<Rightarrow> None
                | Inr (ev, c, w) \<Rightarrow>
                    if ev \<noteq> LRT_RCORE_OK then None
                    else Some (s\<lparr>j_net := set_world (j_net s) k w,
                                 j_console := (j_console s)(k := c)\<rparr>))))"

text \<open>The buffer of program \<open>k\<close>'s adapter hands its next entry to \<^verbatim>\<open>send\<close>.\<close>

definition test_transmit :: "network_env \<Rightarrow> console_lib \<Rightarrow> nat \<Rightarrow> joint \<Rightarrow> joint option" where
  "test_transmit T L k s =
     (let n = j_net s; c0 = j_console s k in
      case in_flight n (k, 1) of
        [] \<Rightarrow> Some s
      | call # _ \<Rightarrow>
          (case console_send (send_packed L) (n_env T k) (l_enc L) c0
                  (Some (n_wire T (take (n_delivered n (k, 1)) (tb_log (n_world n k) 1)) call))
                  DefaultReliability of
             Inl _ \<Rightarrow> None
           | Inr (_, c1) \<Rightarrow>
               run_steps
                 (map (\<lambda>(cb, line). test_callback T L (other k) line)
                    (drop (length (c_calls c0)) (c_calls c1)))
                 (s\<lparr>j_net := take_message n (k, 1), j_console := (j_console s)(k := c1)\<rparr>)))"

text \<open>Until nothing is left to be handed over; the test needs a fuel of two.\<close>

fun test_settle :: "network_env \<Rightarrow> console_lib \<Rightarrow> nat \<Rightarrow> joint \<Rightarrow> joint option" where
  "test_settle T L 0 s = None"
| "test_settle T L (Suc fuel) s =
     (if in_flight (j_net s) (1, 1) \<noteq> []
      then (case test_transmit T L 1 s of None \<Rightarrow> None | Some s1 \<Rightarrow> test_settle T L fuel s1)
      else if in_flight (j_net s) (2, 1) \<noteq> []
      then (case test_transmit T L 2 s of None \<Rightarrow> None | Some s1 \<Rightarrow> test_settle T L fuel s1)
      else Some s)"

section \<open>The test\<close>

abbreviation int16 :: "Entries.Int16 \<Rightarrow> property" where
  "int16 p \<equiv> prop_of_int (Int16_int p)"

text \<open>\<^verbatim>\<open>REQUIRE(adapter->op(...) == LRT_RCORE_OK)\<close>, for the adapter of program \<open>k\<close>.\<close>

definition require_ok ::
  "network_env \<Rightarrow> console_lib \<Rightarrow> nat \<Rightarrow> (adapter \<Rightarrow> (rcore_event \<times> adapter) res) \<Rightarrow> joint \<Rightarrow>
     joint option" where
  "require_ok T L k op s =
     (case w_heap (n_world (j_net s) k) 1 of
        None \<Rightarrow> None
      | Some a \<Rightarrow>
          (case op a of
             Inl _ \<Rightarrow> None
           | Inr (ev, a1) \<Rightarrow>
               if ev \<noteq> LRT_RCORE_OK then None
               else test_settle T L 2 (s\<lparr>j_net := set_world (j_net s) k
                      (put_adapter (n_world (j_net s) k) 1 a1)\<rparr>)))"

definition test_subscribe ::
  "network_env \<Rightarrow> console_lib \<Rightarrow> nat \<Rightarrow> Entries.Int16 \<Rightarrow> joint \<Rightarrow> joint option" where
  "test_subscribe T L k p =
     require_ok T L k (\<lambda>a. subscribe (n_env T k) a Int16 (int16 p) DefaultReliability)"

definition test_adapter_set ::
  "network_env \<Rightarrow> console_lib \<Rightarrow> nat \<Rightarrow> Entries.Int16 \<Rightarrow> 16 word \<Rightarrow> joint \<Rightarrow> joint option" where
  "test_adapter_set T L k p v =
     require_ok T L k (\<lambda>a. adapter_set (n_env T k) a (int16 p) (VInt16 v) DefaultReliability)"

definition test_registry_set ::
  "network_env \<Rightarrow> console_lib \<Rightarrow> nat \<Rightarrow> Entries.Int16 \<Rightarrow> 16 word \<Rightarrow> joint \<Rightarrow> joint option" where
  "test_registry_set T L k p v s =
     (case registry_set (n_env T k) (n_world (j_net s) k) (int16 p) (VInt16 v) DefaultReliability of
        Inl _ \<Rightarrow> None
      | Inr w \<Rightarrow> test_settle T L 2 (s\<lparr>j_net := set_world (j_net s) k w\<rparr>))"

definition require_subscribed :: "nat \<Rightarrow> Entries.Int16 \<Rightarrow> joint \<Rightarrow> joint option" where
  "require_subscribed k p s =
     (case w_heap (n_world (j_net s) k) 1 of
        None \<Rightarrow> None
      | Some a \<Rightarrow> if isSubscribed a Int16 (int16 p) = Inr True then Some s else None)"

definition require_value :: "nat \<Rightarrow> Entries.Int16 \<Rightarrow> 16 word \<Rightarrow> joint \<Rightarrow> joint option" where
  "require_value k p v s =
     (if registry_get (n_world (j_net s) k) Int16 (int16 p) = Inr (VInt16 v) then Some s else None)"

text \<open>
  The registries with their registered adapters, and the adapters' consoles. The network is a
  function of all numbers, of which the test uses two.
\<close>

definition test_network ::
  "rcore \<Rightarrow> (val \<Rightarrow> bytes) \<Rightarrow> (tb_call list \<Rightarrow> tb_call \<Rightarrow> tb_entry) \<Rightarrow> network_env" where
  "test_network env venc wire =
     \<lparr>n_env = \<lambda>_. env, n_peer = test_peer, n_enc = venc, n_wire = wire, n_clock = \<lambda>_. 0\<rparr>"

definition test_world :: "rcore \<Rightarrow> world \<Rightarrow> world" where
  "test_world env w =
     registerAdapter (put_adapter w 1 (fst (ConsoleAdapter_new env 0 True False))) (Some 1)"

definition test_console :: "rcore \<Rightarrow> console" where
  "test_console env = addCallback (setMode (snd (ConsoleAdapter_new env 0 True False)) CALLBACK) 0"

definition test_start :: "rcore \<Rightarrow> world \<Rightarrow> world \<Rightarrow> joint" where
  "test_start env w1 w2 =
     \<lparr>j_net = \<lparr>n_world = \<lambda>k. test_world env (if k = 1 then w1 else w2), n_delivered = \<lambda>_. 0\<rparr>,
      j_console = \<lambda>_. test_console env\<rparr>"

definition console_test ::
  "rcore \<Rightarrow> (val \<Rightarrow> bytes) \<Rightarrow> (tb_call list \<Rightarrow> tb_call \<Rightarrow> tb_entry) \<Rightarrow> console_lib \<Rightarrow> arrays \<Rightarrow> arrays \<Rightarrow> bool"
  where
  "console_test env venc wire L memory1 memory2 =
     (let T = test_network env venc wire in
      case (registry_init env memory1, registry_init env memory2) of
        (Inr w1, Inr w2) \<Rightarrow>
          run_steps
            [test_subscribe T L 2 MVMT_FORWARD_VELOCITY,
             test_subscribe T L 2 MVMT_MOTOR_PWM_FL,
             require_subscribed 1 MVMT_FORWARD_VELOCITY,
             require_subscribed 1 MVMT_MOTOR_PWM_FL,
             test_adapter_set T L 1 MVMT_FORWARD_VELOCITY 10,
             test_adapter_set T L 1 MVMT_MOTOR_PWM_FL 10,
             require_value 2 MVMT_FORWARD_VELOCITY 10,
             require_value 2 MVMT_MOTOR_PWM_FL 10,
             require_value 2 MVMT_MOTOR_PWM_FR 0,
             test_registry_set T L 2 MVMT_MOTOR_PWM_FL 200,
             require_value 1 MVMT_MOTOR_PWM_FL 0,
             test_subscribe T L 1 MVMT_MOTOR_PWM_FL,
             test_adapter_set T L 2 MVMT_MOTOR_PWM_FL 200,
             require_value 1 MVMT_MOTOR_PWM_FL 200,
             test_registry_set T L 2 MVMT_MOTOR_PWM_FL 100,
             require_value 1 MVMT_MOTOR_PWM_FL 100]
            (test_start env w1 w2) \<noteq> None
      | _ \<Rightarrow> False)"

section \<open>Carrying one message\<close>

text \<open>What the libraries do for an entry: its bytes have the library's size and survive base64
  and the parser.\<close>

definition carried :: "console_lib \<Rightarrow> tb_entry \<Rightarrow> bool" where
  "carried L e \<longleftrightarrow> base64_on (l_enc L) (l_dec L) (l_pack L e) \<and> length (l_pack L e) mod 8 = 1 \<and>
     (\<forall>old. l_parse L old (l_pack L e) = ([e], LRT_RCORE_OK))"

text \<open>A console of the test: it writes to its one callback only.\<close>

definition piped :: "console \<Rightarrow> bool" where
  "piped c \<longleftrightarrow> m_mode c = CALLBACK \<and> m_callbacks c = [0]"

lemma console_transmit_piped:
  assumes "base64_on enc dec data" and "length data mod 8 = 1" and "piped c"
  shows "\<exists>c' line. console_transmit env enc c data = Inr (LRT_RCORE_OK, c') \<and> piped c' \<and>
    drop (length (c_calls c)) (c_calls c') = [(0, line)] \<and> receives dec line data"
proof -
  define p where "p = nat (writePaddChars (length data) + 1)"
  have w: "0 \<le> writePaddChars (length data)" and p: "p < 5"
    by (auto simp: p_def writePaddChars_def)
  have d: "data \<noteq> []" using assms(2) by auto
  have "length data = 8 * (length data div 8) + 1" using assms(2) by presburger
  from framed_line_received [OF assms(1) this p] show ?thesis
    using assms(3) d w by (auto simp: console_transmit_def pad_loop_eq Let_def p_def piped_def)
qed

lemma test_callback_line:
  assumes "receives (l_dec L) line (l_pack L e)" and "carried L e"
    and "on_finished (n_env T k) 0 (n_world (j_net s) k) 1 e = Inr w"
  shows "\<exists>c. test_callback T L k line s = Some (s\<lparr>j_net := set_world (j_net s) k w,
      j_console := (j_console s)(k := c)\<rparr>) \<and> (piped (j_console s k) \<longrightarrow> piped c)"
proof -
  obtain b where b: "l_dec L (base64_digits (drop 2 line)) = Some b" "parsed_bytes b = l_pack L e"
    "is_message_line line" using assms(1) by (auto simp: receives_def)
  obtain str where "binaryStreamToBitRepresentation b = Inr str"
    using binaryStreamToBitRepresentation_ok [of b] by (auto simp: is_ok_iff)
  with b assms(2,3) show ?thesis
    by (intro exI [of _ "j_console s k\<lparr>c_parsed := c_parsed (j_console s k) @ [l_pack L e]\<rparr>"])
      (simp add: test_callback_def extractBinaryStreamFromLine_def parseLine_def parseBase64_def
        carried_def piped_def)
qed

lemma test_transmit_delivers:
  assumes "piped (j_console s 1)" "piped (j_console s 2)" and k: "k = 1 \<or> k = 2"
    and "in_flight (j_net s) (k, 1) = call # calls" and "\<forall>l. carried L (n_wire T l call)"
    and "n_peer T = test_peer" "n_clock T = (\<lambda>_. 0)"
    and "net_do T (ADeliver (k, 1)) (j_net s) = Inr n"
  shows "\<exists>s'. test_transmit T L k s = Some s' \<and> j_net s' = n \<and>
    piped (j_console s' 1) \<and> piped (j_console s' 2)"
proof -
  let ?e = "n_wire T (take (n_delivered (j_net s) (k, 1)) (tb_log (n_world (j_net s) k) 1)) call"
  have peer: "n_peer T (k, 1) = Some (other k, 1)" using k assms(6) by (auto simp: test_peer_def)
  have piped: "piped (j_console s k)" and e: "carried L ?e" using assms(1,2,5) k by auto
  from e have packed: "base64_on (l_enc L) (l_dec L) (l_pack L ?e)" "length (l_pack L ?e) mod 8 = 1"
    by (simp_all add: carried_def)
  from assms(8) obtain w where w:
    "on_finished (n_env T (other k)) 0 (n_world (j_net s) (other k)) 1 ?e = Inr w"
    "n = set_world (take_message (j_net s) (k, 1)) (other k) w"
    using assms(4,7) peer by (auto simp: Let_def bindR_Inr_conv)
  from console_transmit_piped [OF packed piped] obtain c1 line where c1:
    "console_transmit (n_env T k) (l_enc L) (j_console s k) (l_pack L ?e) = Inr (LRT_RCORE_OK, c1)"
    "piped c1" "drop (length (c_calls (j_console s k))) (c_calls c1) = [(0, line)]"
    "receives (l_dec L) line (l_pack L ?e)" by blast
  let ?s = "s\<lparr>j_net := take_message (j_net s) (k, 1), j_console := (j_console s)(k := c1)\<rparr>"
  have "on_finished (n_env T (other k)) 0 (n_world (j_net ?s) (other k)) 1 ?e = Inr w" using w(1) by simp
  from test_callback_line [OF c1(4) e this] obtain c where
    c: "test_callback T L (other k) line ?s = Some (?s\<lparr>j_net := set_world (j_net ?s) (other k) w,
      j_console := (j_console ?s)(other k := c)\<rparr>)" "piped (j_console ?s (other k)) \<longrightarrow> piped c" by blast
  with c1 w(2) assms(1,2,4) k show ?thesis
    by (auto simp: test_transmit_def Let_def console_send_def send_packed_def)
qed

section \<open>Steps of the test\<close>

text \<open>The messages that the test sends.\<close>

definition test_messages :: "flow_msg list" where
  "test_messages =
     [FSubscribe (Int16, 1), FSubscribe (Int16, 2), FUpdate (Int16, 1) (VInt16 10),
      FUpdate (Int16, 2) (VInt16 10), FUpdate (Int16, 2) (VInt16 200), FUpdate (Int16, 2) (VInt16 100)]"

definition test_libraries :: "network_env \<Rightarrow> console_lib \<Rightarrow> bool" where
  "test_libraries T L \<longleftrightarrow> network_ok T \<and> n_peer T = test_peer \<and> n_clock T = (\<lambda>_. 0) \<and>
     (\<forall>k l c. tb_result (n_env T k) l c = LRT_RCORE_OK) \<and>
     (\<forall>l c. link_call c \<and> msg_of c \<in> set test_messages \<longrightarrow> carried L (n_wire T l c))"

text \<open>
  Between two steps nothing is in flight; \<open>V k i\<close> is the value of entry \<open>i\<close> in program \<open>k\<close>, and
  \<open>S k i\<close> whether its adapter sends it.
\<close>

definition at_rest ::
  "network_env \<Rightarrow> (nat \<Rightarrow> nat \<Rightarrow> 16 word) \<Rightarrow> (nat \<Rightarrow> nat \<Rightarrow> bool) \<Rightarrow> flow \<Rightarrow> bool" where
  "at_rest T V S f \<longleftrightarrow> (\<forall>k. k = 1 \<or> k = 2 \<longrightarrow> f_chan f (k, 1) = [] \<and>
     (\<forall>i < 10. f_val f k (Int16, i) = Some (VInt16 (V k i)) \<and> f_sub f (k, 1) (Int16, i) = S k i))"

definition settled ::
  "network_env \<Rightarrow> (nat \<Rightarrow> nat \<Rightarrow> 16 word) \<Rightarrow> (nat \<Rightarrow> nat \<Rightarrow> bool) \<Rightarrow> joint \<Rightarrow> bool" where
  "settled T V S s \<longleftrightarrow> wf_net T (j_net s) \<and> piped (j_console s 1) \<and> piped (j_console s 2) \<and>
     at_rest T V S (flow_of T (j_net s))"

lemma test_peer_simps [simp]:
  "test_peer (k, j) = (if j = 1 \<and> (k = 1 \<or> k = 2) then Some (other k, 1) else None)"
  by (auto simp: test_peer_def)

lemma flight_chan:
  assumes "n_peer T = test_peer" and "k = 1 \<or> k = 2"
  shows "f_chan (flow_of T n) (k, 1) = map msg_of (in_flight n (k, 1))"
  using assms by auto

lemma test_settle_empty:
  assumes "n_peer T = test_peer" and "at_rest T V S (flow_of T (j_net s))"
  shows "test_settle T L (Suc n) s = Some s"
  using assms flight_chan [OF assms(1)] by (simp add: at_rest_def)

text \<open>One message in flight is handed over, handled, and leaves nothing in flight.\<close>

lemma test_settle_message:
  assumes L: "test_libraries T L" and k: "k = 1 \<or> k = 2" and n: "wf_net T (j_net s)"
    and p: "piped (j_console s 1)" "piped (j_console s 2)"
    and c: "f_chan (flow_of T (j_net s)) (k, 1) = [m]"
      "f_chan (flow_of T (j_net s)) (other k, 1) = []"
    and m: "m \<in> set test_messages"
    and f: "at_rest T V S (flow_handle test_peer (other k, 1) m (flow_pop (k, 1) (flow_of T (j_net s))))"
  shows "\<exists>s'. test_settle T L 2 s = Some s' \<and> settled T V S s'"
proof -
  have T: "network_ok T" "n_peer T = test_peer" "n_clock T = (\<lambda>_. 0)"
    using L by (simp_all add: test_libraries_def)
  have k': "other k = 1 \<or> other k = 2" using k by auto
  obtain call where call: "in_flight (j_net s) (k, 1) = [call]" "msg_of call = m"
    "in_flight (j_net s) (other k, 1) = []"
    using c flight_chan [OF T(2) k] flight_chan [OF T(2) k'] by auto
  have "call \<in> set (tb_log (n_world (j_net s) k) 1)"
    using call(1) unfolding in_flight_def by (metis fst_conv snd_conv in_set_dropD list.set_intros(1))
  moreover have "link_adapter (n_world (j_net s) k) 1"
    using wf_netD(2) [OF n, of k 1] T(2) k by simp
  ultimately have "link_call call" by (auto simp: link_adapter_def tb_log_def list_all_iff)
  then have lib: "\<forall>l. carried L (n_wire T l call)"
    using L m call(2) by (auto simp: test_libraries_def)
  have "ok_action T (ADeliver (k, 1))" by simp
  from net_do_refines [OF T(1) n this] obtain n' where
    n': "net_do T (ADeliver (k, 1)) (j_net s) = Inr n'" "wf_net T n'"
    "flow_of T n' = flow_do test_peer (ADeliver (k, 1)) (flow_of T (j_net s))" using T(2) by auto
  from test_transmit_delivers [OF p k call(1) lib T(2,3) n'(1)] obtain s' where
    s': "test_transmit T L k s = Some s'" "j_net s' = n'" "piped (j_console s' 1)" "piped (j_console s' 2)"
    by blast
  have "flow_of T n' = flow_handle test_peer (other k, 1) m (flow_pop (k, 1) (flow_of T (j_net s)))"
    unfolding n'(3) using c(1) k by (simp del: flow_of_simps)
  with f n'(2) s' have "settled T V S s'" by (simp add: settled_def)
  moreover from this have "test_settle T L (Suc 0) s' = Some s'"
    using test_settle_empty [OF T(2), of V S s' L 0] by (simp add: settled_def)
  ultimately show ?thesis
    using k call(1,3) s'(1) by (auto simp: numeral_2_eq_2)
qed

lemma int16_index:
  assumes "i = Int16_int p" and "i < 10"
  shows "prop_index (int16 p) = i" and "unat (int16 p) = i"
    and "valid_prop Int16 (unat (int16 p))" and "valid_prop Int16 (prop_index (int16 p))"
proof -
  show "prop_index (int16 p) = i" "unat (int16 p) = i"
    using assms by (cases p; simp add: prop_of_int_def prop_index_def)+
  with assms(2) show "valid_prop Int16 (unat (int16 p))" "valid_prop Int16 (prop_index (int16 p))"
    by (simp_all add: valid_prop_def)
qed

lemma settled_adapter:
  assumes "test_libraries T L" and "settled T V S s" and "k = 1 \<or> k = 2"
  obtains a where "w_heap (n_world (j_net s) k) 1 = Some a" and "m_acceptProperty a"
    and "wf_adapter (n_env T k) a" and "\<And>i. i < 10 \<Longrightarrow> subscribed_at a Int16 i \<longleftrightarrow> S k i"
proof -
  have n: "wf_net T (j_net s)" using assms(2) by (simp add: settled_def)
  have peer: "n_peer T (k, 1) = Some (other k, 1)"
    using assms(1,3) by (auto simp: test_libraries_def)
  from wf_netD(2) [OF n peer] obtain a where a: "w_heap (n_world (j_net s) k) 1 = Some a"
    "m_acceptProperty a" by (auto simp: link_adapter_def)
  have "f_sub (flow_of T (j_net s)) (k, 1) (Int16, i) = S k i" if "i < 10" for i
    using assms(2,3) that unfolding settled_def at_rest_def by blast
  with a(1) peer have "subscribed_at a Int16 i \<longleftrightarrow> S k i" if "i < 10" for i
    using that by (simp add: world_sub_def)
  with a wf_world_adapter [OF wf_netD(1) [OF n] a(1)] that show thesis by blast
qed

text \<open>A message that a step puts on the buffer of an adapter.\<close>

lemma settle_sent:
  assumes "test_libraries T L" and "k = 1 \<or> k = 2" and "settled T V S s"
    and "wf_net T n" and "flow_of T n = flow_send (k, 1) m f"
    and "f_chan f = f_chan (flow_of T (j_net s))" and "m \<in> set test_messages"
    and "at_rest T V' S' (flow_handle test_peer (other k, 1) m f)"
  shows "\<exists>s'. test_settle T L 2 (s\<lparr>j_net := n\<rparr>) = Some s' \<and> settled T V' S' s'"
proof (rule test_settle_message [OF assms(1,2)])
  have empty: "f_chan f (k, 1) = []" "f_chan f (other k, 1) = []"
    unfolding assms(6) using assms(2,3) by (auto simp: settled_def at_rest_def simp del: flow_of_simps)
  then have "flow_pop (k, 1) (flow_send (k, 1) m f) = f"
    by (intro flow_eqI) (auto simp: flow_send_def)
  then show "at_rest T V' S' (flow_handle test_peer (other k, 1) m
      (flow_pop (k, 1) (flow_of T (j_net (s\<lparr>j_net := n\<rparr>)))))"
    using assms(5,8) by simp
  show "f_chan (flow_of T (j_net (s\<lparr>j_net := n\<rparr>))) (k, 1) = [m]"
    "f_chan (flow_of T (j_net (s\<lparr>j_net := n\<rparr>))) (other k, 1) = []"
    using empty assms(2,5) by (auto simp: flow_send_def simp del: flow_of_simps)
qed (use assms(3,4,7) in \<open>simp_all add: settled_def\<close>)

lemma at_rest_subscribe:
  assumes "at_rest T V S f" and "k = 1 \<or> k = 2"
  shows "at_rest T V (S(k := (S k)(i := True))) (flow_subscription (k, 1) (Int16, i) True f)"
  using assms(2,1) by (elim disjE) (simp_all add: at_rest_def)

lemma test_subscribe_ok:
  assumes L: "test_libraries T L" and k: "k = 1 \<or> k = 2" and s: "settled T V S s"
    and i: "i = Int16_int p" "i < 10" and m: "FSubscribe (Int16, i) \<in> set test_messages"
  shows "\<exists>s'. test_subscribe T L k p s = Some s' \<and>
    settled T V (S(other k := (S (other k))(i := True))) s'"
proof -
  have T: "network_ok T" "n_peer T = test_peer" and n: "wf_net T (j_net s)"
    using L s by (simp_all add: test_libraries_def settled_def)
  obtain a where a: "w_heap (n_world (j_net s) k) 1 = Some a" using settled_adapter [OF L s k] .
  have "ok_action T (ASubscribe (k, 1) Int16 (int16 p) DefaultReliability)"
    using T(2) k int16_index(3) [OF i] by auto
  from net_do_refines [OF T(1) n this] obtain n' where
    n': "net_do T (ASubscribe (k, 1) Int16 (int16 p) DefaultReliability) (j_net s) = Inr n'" "wf_net T n'"
      "flow_of T n' = flow_do (n_peer T) (ASubscribe (k, 1) Int16 (int16 p) DefaultReliability)
        (flow_of T (j_net s))" by blast
  obtain r where r: "subscribe (n_env T k) a Int16 (int16 p) DefaultReliability = Inr r"
    "n' = set_world (j_net s) k (put_adapter (n_world (j_net s) k) 1 (snd r))"
    using n'(1) a by (auto simp: adapter_do_def Let_def bindR_Inr_conv)
  have f: "flow_of T n' = flow_send (k, 1) (FSubscribe (Int16, i)) (flow_of T (j_net s))"
    unfolding n'(3) T(2) using k int16_index(1) [OF i] by auto
  have "fst r = LRT_RCORE_OK"
    using r(1) L by (auto simp: subscribe_def sendRequestSubscribeUpdate_def tb_do_def res_simps test_libraries_def)
  moreover have "other k = 1 \<or> other k = 2" using k by auto
  from at_rest_subscribe [OF _ this] s
  have "at_rest T V (S(other k := (S (other k))(i := True)))
      (flow_handle test_peer (other k, 1) (FSubscribe (Int16, i)) (flow_of T (j_net s)))"
    by (simp add: settled_def)
  ultimately show ?thesis
    using settle_sent [OF L k s n'(2) f refl m] a r
    by (cases r) (simp add: test_subscribe_def require_ok_def)
qed

lemma at_rest_store:
  assumes "at_rest T V S f" and "k = 1 \<or> k = 2" and "i < 10"
  shows "at_rest T (V(k := (V k)(i := v))) S (flow_store test_peer k (Some 1) (Int16, i) (VInt16 v) f)"
proof -
  have "f_val f k (Int16, i) = Some (VInt16 (V k i))" using assms unfolding at_rest_def by blast
  then show ?thesis
    using assms(1) by (auto simp: at_rest_def flow_store_def forwards_def)
qed

lemma test_adapter_set_ok:
  assumes L: "test_libraries T L" and k: "k = 1 \<or> k = 2" and s: "settled T V S s"
    and i: "i = Int16_int p" "i < 10" and m: "FUpdate (Int16, i) (VInt16 v) \<in> set test_messages"
    and sub: "S k i"
  shows "\<exists>s'. test_adapter_set T L k p v s = Some s' \<and>
    settled T (V(other k := (V (other k))(i := v))) S s'"
proof -
  have T: "network_ok T" "n_peer T = test_peer" and n: "wf_net T (j_net s)"
    and rest: "at_rest T V S (flow_of T (j_net s))"
    using L s by (simp_all add: test_libraries_def settled_def)
  obtain a where a: "w_heap (n_world (j_net s) k) 1 = Some a" "m_acceptProperty a"
    "wf_adapter (n_env T k) a" "subscribed_at a Int16 i"
    using settled_adapter [OF L s k] sub i(2) by metis
  let ?v = "VInt16 v" and ?pid = "int16 p" and ?w = "n_world (j_net s) k"
  let ?a = "adapter_put ?pid ?v DefaultReliability a"
  have valid: "valid_prop (vtype ?v) (prop_index ?pid)" using int16_index(4) [OF i] by simp
  have acc: "accepts a ?v ?pid" using a(2,4) int16_index(1) [OF i] by (simp add: accepts_def)
  have set: "adapter_set (n_env T k) a ?pid ?v DefaultReliability = Inr (LRT_RCORE_OK, ?a)"
    using adapter_set_eq [OF _ valid, of a "n_env T k"] a(3) acc L
    by (simp add: wf_adapter_def adapter_event_def accepts_def test_libraries_def)
  have "wf_net T (set_world (j_net s) k (put_adapter ?w 1 ?a)) \<and>
      flow_of T (set_world (j_net s) k (put_adapter ?w 1 ?a)) =
        flow_send (k, 1) (msg_of (value_call ?pid ?v DefaultReliability)) (flow_of T (j_net s))"
    by (rule send_refines [OF n _ a(1) wf_put_adapter [OF wf_netD(1) [OF n] wf_adapter_put [OF a(3)]],
          where a' = ?a])
      (use T(2) k acc valid in \<open>auto simp: put_adapter_def transmit_buffer_put link_call_value\<close>)
  then have n': "wf_net T (set_world (j_net s) k (put_adapter ?w 1 ?a))"
    "flow_of T (set_world (j_net s) k (put_adapter ?w 1 ?a)) =
      flow_send (k, 1) (FUpdate (Int16, i) ?v) (flow_of T (j_net s))"
    using int16_index(1) [OF i] by simp_all
  have "other k = 1 \<or> other k = 2" using k by auto
  from at_rest_store [OF rest this i(2), of v]
  have "at_rest T (V(other k := (V (other k))(i := v))) S
      (flow_handle test_peer (other k, 1) (FUpdate (Int16, i) ?v) (flow_of T (j_net s)))" by simp
  with settle_sent [OF L k s n' refl m] set a(1) show ?thesis
    by (simp add: test_adapter_set_def require_ok_def)
qed

lemma test_registry_set_ok:
  assumes L: "test_libraries T L" and k: "k = 1 \<or> k = 2" and s: "settled T V S s"
    and i: "i = Int16_int p" "i < 10" and new: "V k i \<noteq> v"
    and m: "S k i \<longrightarrow> FUpdate (Int16, i) (VInt16 v) \<in> set test_messages"
  shows "\<exists>s'. test_registry_set T L k p v s = Some s' \<and> settled T
    (if S k i then V(k := (V k)(i := v), other k := (V (other k))(i := v)) else V(k := (V k)(i := v))) S s'"
proof -
  have T: "network_ok T" "n_peer T = test_peer" and n: "wf_net T (j_net s)"
    and rest: "at_rest T V S (flow_of T (j_net s))"
    using L s by (simp_all add: test_libraries_def settled_def)
  let ?f = "flow_of T (j_net s)" and ?e = "(Int16, i)"
  let ?g = "?f\<lparr>f_val := (f_val ?f)(k := (f_val ?f k)(?e \<mapsto> VInt16 v))\<rparr>"
  have "ok_action T (ASet k (int16 p) (VInt16 v) DefaultReliability)" using int16_index(4) [OF i] by simp
  from net_do_refines [OF T(1) n this] obtain w where
    w: "registry_set (n_env T k) (n_world (j_net s) k) (int16 p) (VInt16 v) DefaultReliability = Inr w" and
    n': "wf_net T (set_world (j_net s) k w)"
      "flow_of T (set_world (j_net s) k w) = flow_store test_peer k None ?e (VInt16 v) ?f"
    using T(2) int16_index(1) [OF i] by (auto simp: res_simps simp del: flow_of_simps)
  have old: "f_val ?f k ?e = Some (VInt16 (V k i))" "f_sub ?f (k, 1) ?e = S k i"
    using rest k i(2) unfolding at_rest_def by blast+
  have k': "other k = 1 \<or> other k = 2" "k \<noteq> other k" using k by auto
  have chan: "forwards test_peer k None ?e ?f ep \<longleftrightarrow> S k i \<and> ep = (k, 1)" for ep
    using old(2) k by (cases ep) (auto simp: forwards_def simp del: flow_of_simps)
  have store: "flow_of T (set_world (j_net s) k w) =
      (if S k i then flow_send (k, 1) (FUpdate ?e (VInt16 v)) ?g else ?g)"
    unfolding n'(2) flow_store_def old(1) using new chan
    by (intro flow_eqI) (auto simp: flow_send_def simp del: flow_of_simps)
  have g: "at_rest T (V(k := (V k)(i := v))) S ?g"
    using rest by (auto simp: at_rest_def simp del: flow_of_simps)
  show ?thesis
  proof (cases "S k i")
    case True
    from at_rest_store [OF g k'(1) i(2), of v] k'(2)
    have "at_rest T (V(k := (V k)(i := v), other k := (V (other k))(i := v))) S
        (flow_handle test_peer (other k, 1) (FUpdate ?e (VInt16 v)) ?g)" by simp
    from settle_sent [OF L k s n'(1) _ _ _ this] store True m w show ?thesis
      by (simp add: test_registry_set_def del: flow_of_simps)
  next
    case False
    with store g have "at_rest T (V(k := (V k)(i := v))) S (flow_of T (set_world (j_net s) k w))" by simp
    with test_settle_empty [OF T(2), of _ S "s\<lparr>j_net := set_world (j_net s) k w\<rparr>" L 1] False s n'(1) w
    show ?thesis by (auto simp: test_registry_set_def settled_def numeral_2_eq_2 simp del: flow_of_simps)
  qed
qed

lemma require_value_ok:
  assumes "settled T V S s" and "k = 1 \<or> k = 2" and "i = Int16_int p" "i < 10" and "V k i = v"
  shows "require_value k p v s = Some s"
proof -
  have w: "wf_world (n_env T k) (n_world (j_net s) k)"
    using assms(1) wf_netD(1) by (simp add: settled_def)
  have "f_val (flow_of T (j_net s)) k (Int16, i) = Some (VInt16 v)"
    using assms unfolding settled_def at_rest_def by blast
  then show ?thesis
    using int16_index [OF assms(3,4)] registry_map_eq [OF w, of Int16 i]
    by (simp add: require_value_def registry_get_eq [OF w] split: if_splits)
qed

lemma require_subscribed_ok:
  assumes "test_libraries T L" and "settled T V S s" and "k = 1 \<or> k = 2"
    and "i = Int16_int p" "i < 10" and "S k i"
  shows "require_subscribed k p s = Some s"
proof -
  obtain a where "w_heap (n_world (j_net s) k) 1 = Some a" "subscribed_at a Int16 i"
    using settled_adapter [OF assms(1-3)] assms(5,6) by metis
  then show ?thesis
    using int16_index(2) [OF assms(4,5)]
    by (simp add: require_subscribed_def isSubscribed_def subscribed_at_def)
qed

section \<open>The start\<close>

lemma test_world_ok:
  assumes "wf_world env w" and "m_adapters w = []"
  shows "wf_world env (test_world env w)" and "link_adapter (test_world env w) 1"
    and "tb_log (test_world env w) 1 = []" and "registry_map (test_world env w) = registry_map w"
    and "i < 10 \<Longrightarrow> \<not> world_sub (test_world env w) 1 (Int16, i)"
proof -
  let ?a = "fst (ConsoleAdapter_new env 0 True False)"
  have a: "?a = adapter_init env 0 True False ''Unnamed Adapter'' 0"
    by (simp add: ConsoleAdapter_new_def)
  have "wf_world env (put_adapter w 1 ?a)"
    unfolding a by (rule wf_put_adapter [OF assms(1) wf_adapter_init])
  then show "wf_world env (test_world env w)"
    by (simp add: test_world_def registerAdapter_def wf_world_def)
  show "link_adapter (test_world env w) 1" "tb_log (test_world env w) 1 = []"
    "registry_map (test_world env w) = registry_map w"
    using assms(2) by (simp_all add: test_world_def registerAdapter_def link_adapter_def tb_log_def a
        adapter_init_def put_adapter_def registry_map_def)
  show "\<not> world_sub (test_world env w) 1 (Int16, i)" if "i < 10"
    using that sub_at_Init [of False Int16 i]
    by (simp add: test_world_def registerAdapter_def world_sub_def a adapter_init_def
        put_adapter_def subscribed_at_def valid_prop_def)
qed

lemma Int16_defaults: "i < 10 \<Longrightarrow> entry_defaults Int16 ! i = VInt16 0"
proof -
  have "entry_defaults Int16 = replicate 10 (VInt16 0)"
    by (simp add: Int16Detail_def numeral_eq_Suc)
  then show "i < 10 \<Longrightarrow> ?thesis" by simp
qed

lemma settled_start:
  assumes "registry_init env memory1 = Inr w1" "registry_init env memory2 = Inr w2"
    and "wf_arrays memory1" "wf_arrays memory2"
  shows "settled (test_network env venc wire) (\<lambda>k i. 0) (\<lambda>k i. False) (test_start env w1 w2)"
proof -
  let ?T = "test_network env venc wire" and ?w = "\<lambda>k :: nat. if k = 1 then w1 else w2"
  have start: "wf_world env w \<and> m_adapters w = [] \<and>
      (\<forall>i < 10. registry_map w (Int16, i) = Some (VInt16 (0)))"
    if "registry_init env memory = Inr w" "wf_arrays memory" for memory w
  proof -
    have v: "wf_world env w" "m_adapters w = []"
      "\<And>t i. valid_prop t i \<Longrightarrow> t \<noteq> String \<Longrightarrow>
        \<exists>v. registry_map w (t, i) = Some v \<and> val_eq v (entry_defaults t ! i)"
      using registry_init_ok [OF that(2), of env] that(1) by auto
    have "v = VInt16 0" if "val_eq v (VInt16 0)" for v using that by (cases v) auto
    with v(3) [of Int16] Int16_defaults have "registry_map w (Int16, i) = Some (VInt16 0)" if "i < 10" for i
      using that by (fastforce simp: valid_prop_def)
    with v(1,2) show ?thesis by blast
  qed
  have w: "wf_world env (?w k)" "m_adapters (?w k) = []"
    "i < 10 \<Longrightarrow> registry_map (?w k) (Int16, i) = Some (VInt16 (0))" for k i
    using start [OF assms(1,3)] start [OF assms(2,4)] by auto
  note ok = test_world_ok [OF w(1,2)]
  have "wf_net ?T (j_net (test_start env w1 w2))"
    using ok(1) ok(2) [of 1] ok(2) [of 2] unfolding wf_net_def
    by (simp add: test_network_def test_start_def split_paired_all del: One_nat_def)
  moreover have "piped (test_console env)"
    by (simp add: piped_def test_console_def addCallback_def setMode_def ConsoleAdapter_new_def
        console_init_def)
  moreover have "at_rest ?T (\<lambda>k i. 0) (\<lambda>k i. False) (flow_of ?T (j_net (test_start env w1 w2)))"
    using ok(3-5) w(3) unfolding at_rest_def
    by (simp add: test_network_def test_start_def in_flight_def)
  ultimately show ?thesis by (simp add: settled_def test_start_def)
qed

section \<open>The test passes\<close>

text \<open>A step that succeeds, followed by steps that do.\<close>

lemma run_value:
  assumes "settled T V S s" and "k = 1 \<or> k = 2" and "Int16_int p < 10" and "V k (Int16_int p) = v"
    and "\<And>s'. settled T V S s' \<Longrightarrow> run_steps fs s' \<noteq> None"
  shows "run_steps (require_value k p v # fs) s \<noteq> None"
  using require_value_ok [OF assms(1,2) refl assms(3,4)] assms(1,5) by simp

lemma run_is_subscribed:
  assumes "test_libraries T L" and "settled T V S s" and "k = 1 \<or> k = 2" and "Int16_int p < 10" and "S k (Int16_int p)"
    and "\<And>s'. settled T V S s' \<Longrightarrow> run_steps fs s' \<noteq> None"
  shows "run_steps (require_subscribed k p # fs) s \<noteq> None"
  using require_subscribed_ok [OF assms(1-3) refl assms(4,5)] assms(2,6) by simp

lemma run_subscribe:
  assumes "test_libraries T L" and "settled T V S s" and "k = 1 \<or> k = 2" and "Int16_int p < 10"
    and "FSubscribe (Int16, Int16_int p) \<in> set test_messages"
    and "\<And>s'. settled T V (S(other k := (S (other k))(Int16_int p := True))) s' \<Longrightarrow> run_steps fs s' \<noteq> None"
  shows "run_steps (test_subscribe T L k p # fs) s \<noteq> None"
  using test_subscribe_ok [OF assms(1,3,2) refl assms(4,5)] assms(6) by auto

lemma run_adapter_set:
  assumes "test_libraries T L" and "settled T V S s" and "k = 1 \<or> k = 2" and "Int16_int p < 10"
    and "FUpdate (Int16, Int16_int p) (VInt16 v) \<in> set test_messages" and "S k (Int16_int p)"
    and "\<And>s'. settled T (V(other k := (V (other k))(Int16_int p := v))) S s' \<Longrightarrow> run_steps fs s' \<noteq> None"
  shows "run_steps (test_adapter_set T L k p v # fs) s \<noteq> None"
  using test_adapter_set_ok [OF assms(1,3,2) refl assms(4-6)] assms(7) by auto

lemma run_registry_set:
  assumes "test_libraries T L" and "settled T V S s" and "k = 1 \<or> k = 2" and "Int16_int p < 10" and "V k (Int16_int p) \<noteq> v"
    and "S k (Int16_int p) \<longrightarrow> FUpdate (Int16, Int16_int p) (VInt16 v) \<in> set test_messages"
    and "\<And>s'. settled T (if S k (Int16_int p)
        then V(k := (V k)(Int16_int p := v), other k := (V (other k))(Int16_int p := v))
        else V(k := (V k)(Int16_int p := v))) S s' \<Longrightarrow> run_steps fs s' \<noteq> None"
  shows "run_steps (test_registry_set T L k p v # fs) s \<noteq> None"
  using test_registry_set_ok [OF assms(1,3,2) refl assms(4-6)] assms(7) by fastforce

lemmas run_intros = run_is_subscribed run_subscribe run_adapter_set run_registry_set

text \<open>Property C6.  The test of the console adapter passes on the model.  Two programs pipe the lines of
  their console adapters into each other; with libraries that carry the six messages the test
  sends, every step of the test succeeds: subscriptions switch sending on, values sent by an
  adapter arrive in the other registry, values set in a registry arrive once they are
  subscribed and not before, whatever the memory that the registries were constructed in.\<close>

theorem console_test_passes:
  assumes "test_libraries (test_network env venc wire) L"
    and "wf_arrays memory1" and "wf_arrays memory2"
  shows "console_test env venc wire L memory1 memory2"
proof -
  obtain w1 w2 where w: "registry_init env memory1 = Inr w1" "registry_init env memory2 = Inr w2"
    using registry_init_ok [OF assms(2), of env] registry_init_ok [OF assms(3), of env] by blast
  note start = settled_start [OF w assms(2,3), of venc wire]
  show ?thesis
    unfolding console_test_def Let_def w prod.case sum.case
    by (rule run_intros [OF assms(1)], rule start, (simp add: test_messages_def; fail)+,
        ((rule run_intros [OF assms(1)] run_value), assumption, (simp add: test_messages_def; fail)+)+)
qed

section \<open>Libraries that carry the messages\<close>

text \<open>A message of nine bytes: the entry's fields and two bytes of data.\<close>

definition example_pack :: "tb_entry \<Rightarrow> bytes" where
  "example_pack e =
     [e_type e, ucast (e_property e), ucast (drop_bit 8 (e_property e)),
      word_of_nat (message_type_to_num example_rcore (e_message_type e)),
      ucast (e_seq_number e), ucast (drop_bit 8 (e_seq_number e)), of_bool (e_reliable e)] @
     take 2 ((case e_data e of None \<Rightarrow> [] | Some s \<Rightarrow> s) @ [0, 0])"

fun example_unpack :: "bytes \<Rightarrow> tb_entry" where
  "example_unpack [ty, p0, p1, mt, s0, s1, rel, d0, d1] =
     \<lparr>e_type = ty, e_property = ucast p0 + 256 * ucast p1,
      e_message_type = (if mt = 0 then MSG_UPDATE else if mt = 1 then MSG_REQUEST else MSG_SUBSCRIBE),
      e_seq_number = ucast s0 + 256 * ucast s1, e_reliable = rel \<noteq> 0,
      e_data = Some (if mt = 0 then [d0, d1] else [])\<rparr>"
| "example_unpack s = example_entry"

definition example_lib :: console_lib where
  "example_lib = \<lparr>l_enc = example_enc, l_dec = example_dec, l_pack = example_pack,
     l_parse = \<lambda>old s. ([example_unpack s], LRT_RCORE_OK)\<rparr>"

text \<open>A wire that does not count the messages, and what it makes of those of the test.\<close>

definition plain_wire :: "tb_call list \<Rightarrow> tb_call \<Rightarrow> tb_entry" where
  "plain_wire l c = example_wire [] c"

fun message_call :: "flow_msg \<Rightarrow> bool \<Rightarrow> tb_call" where
  "message_call (FUpdate (t, i) v) ack = TbSend (word_of_nat (Type_int t)) (word_of_nat i) v ack"
| "message_call (FRequest (t, i)) ack = TbCtrl (word_of_nat (Type_int t)) (word_of_nat i) MSG_REQUEST ack"
| "message_call (FSubscribe (t, i)) ack =
     TbCtrl (word_of_nat (Type_int t)) (word_of_nat i) MSG_SUBSCRIBE ack"
| "message_call (FUnsubscribe (t, i)) ack =
     TbCtrl (word_of_nat (Type_int t)) (word_of_nat i) MSG_UNSUBSCRIBE ack"

lemma link_call_message:
  assumes "link_call c"
  shows "\<exists>ack. c = message_call (msg_of c) ack"
proof -
  have ty: "word_of_nat (Type_int t) = (ty :: 8 word)" if "unat ty = Type_int t" for ty t
    using that [symmetric] by simp
  have word: "word_of_nat (unat p) = p" for p :: "16 word" by simp
  show ?thesis
    using assms by (cases c) (auto simp: link_call_def msg_of_def Let_def ty)
qed

lemma length_example_pack: "length (example_pack e) = 9"
  by (simp add: example_pack_def)

lemma example_unpacked:
  "list_all (\<lambda>m. list_all (\<lambda>ack. example_unpack (example_pack (plain_wire [] (message_call m ack))) =
       plain_wire [] (message_call m ack)) [False, True]) test_messages"
  by code_simp

lemma example_libraries: "test_libraries (test_network example_rcore le_enc plain_wire) example_lib"
proof -
  let ?T = "test_network example_rcore le_enc plain_wire"
  have carried: "carried example_lib (plain_wire l c)" if "link_call c" "msg_of c \<in> set test_messages" for l c
  proof -
    from link_call_message [OF that(1)] obtain ack where c: "c = message_call (msg_of c) ack" by blast
    let ?e = "plain_wire [] (message_call (msg_of c) ack)"
    have "example_unpack (example_pack ?e) = ?e"
      using example_unpacked that(2) unfolding list_all_iff by (cases ack; simp)
    moreover have "plain_wire l c = ?e" by (subst c) (simp add: plain_wire_def)
    ultimately show ?thesis
      using example_base64_on [of "example_pack ?e"]
      by (simp add: carried_def example_lib_def length_example_pack)
  qed
  have "network_ok ?T"
  proof -
    have ok: "network_ok (example_network test_peer)"
      by (rule example_network_ok) (auto simp: test_peer_def split: if_splits)
    have sel: "n_peer ?T = n_peer (example_network test_peer)" "n_enc ?T = n_enc (example_network test_peer)"
      "n_env ?T = n_env (example_network test_peer)" "n_wire ?T l = n_wire (example_network test_peer) []" for l
      by (simp_all add: test_network_def example_network_def plain_wire_def fun_eq_iff)
    show ?thesis using ok unfolding network_ok_def sel by blast
  qed
  then show ?thesis
    using carried by (simp add: test_libraries_def test_network_def) (simp add: example_rcore_def)
qed

theorem console_test_passes_witness:
  "console_test example_rcore le_enc plain_wire example_lib (m_arrays zero_world) (m_arrays zero_world)"
  by (rule console_test_passes [OF example_libraries])
    (use wf_zero_world [of example_rcore] in \<open>simp_all add: wf_world_def\<close>)
end
