(* ===== verification/Spec2Isabelle.thy ===== *)
theory Spec2Isabelle
  imports CInterface Session Logging Tests ConsoleTest
begin

text \<open>
  RBase keeps the values that the parts of the VERNER robot share. A \<^bold>\<open>registry\<close> holds one value
  for each entry of a fixed catalogue; \<^bold>\<open>adapters\<close> connect registries of different processes and
  exchange messages (update, request, subscribe, unsubscribe) through a transport; \<^bold>\<open>receivers\<close>
  in the process hear of changes; a \<^bold>\<open>persistency policy\<close> writes what is received to a database;
  the \<^bold>\<open>support library\<close> gives a regulation kernel one handle to all of it. This development
  models these parts as they are written and proves what they do, faults included.

  \<^bold>\<open>Theories and sources.\<close> Paths are relative to the root of the sources.

  \<^item> \<open>Prelude\<close>: results with faults, the accesses of arrays and vectors, \<^verbatim>\<open>std::remove_if\<close>, and
    loops that may not end with their fuel.
  \<^item> \<open>Entries\<close> (\<^verbatim>\<open>RRegistry/include/RRegistry/Entries.hpp\<close>): the enumerations of the catalogue.
  \<^item> \<open>TypeConverter\<close> (\<^verbatim>\<open>TypeConverter.hpp\<close>): native types, their values and comparison, entry
    counts and the casts between numbers and entries.
  \<^item> \<open>Detail\<close>, \<open>DetailFunctions\<close> (\<^verbatim>\<open>Detail.hpp\<close>): the tables of names, texts, defaults and ranges,
    and the functions over them.
  \<^item> \<open>SubscriptionMap\<close> (\<^verbatim>\<open>SubscriptionMap.hpp\<close>): the map from entries to flags or records. Its
    interface is the locale \<open>entry_map\<close>, which the value arrays of the registry provide too.
  \<^item> \<open>Reliability\<close>, \<open>Dropper\<close> (\<^verbatim>\<open>RComm/include/RComm/LiteCommReliability.hpp\<close>,
    \<^verbatim>\<open>LiteCommDropper.hpp\<close>): flags of a message and the policies that drop delayed updates; the
    contract of the virtual method is the locale \<open>dropper_policy\<close>.
  \<^item> \<open>Adapter\<close>, \<open>LiteComm\<close> (\<^verbatim>\<open>LiteCommAdapter.hpp\<close>): the adapter's state and its calls of the
    transmit buffer, and the handler \<open>on_finished\<close> of received messages.
  \<^item> \<open>FloatDouble\<close>: the conversion of a \<^verbatim>\<open>float\<close> to a \<^verbatim>\<open>double\<close> on bit patterns, which quiets a NaN,
    and its inverse on every other value.
  \<^item> \<open>DBPersistency\<close> (\<^verbatim>\<open>PersistencyPolicy.hpp\<close>, \<^verbatim>\<open>DBPersistencyPolicy.hpp\<close>,
    \<^verbatim>\<open>RRegistry/src/DBPersistencyPolicy.cpp\<close>): the queue, the worker thread as a step function
    whose interleavings with the other operations are sequences of steps, and the calls made on
    SQLite; the contract of a policy is the locale \<open>persistency_policy\<close>.
  \<^item> \<open>Registry\<close> (\<^verbatim>\<open>Registry.hpp\<close>): the record \<open>registry\<close> has its members, \<open>world\<close> adds the objects
    that its pointers name.
  \<^item> \<open>Console\<close>, \<open>Socket\<close> (\<^verbatim>\<open>RSupport/src/ConsoleAdapter.cpp\<close>, \<^verbatim>\<open>SocketClientAdapter.cpp\<close> and their
    headers): the two transports, lines of base64 and a stream socket. Both provide the locale
    \<open>message_source\<close> of theory \<open>LiteComm\<close>.
  \<^item> \<open>Status\<close>, \<open>Pacing\<close>, \<open>RSupport\<close> (\<^verbatim>\<open>RSupport/src/RSupport.cpp\<close>, \<^verbatim>\<open>RSupport.hpp\<close>): status codes and
    their names, the loop that paces a frame by the console, and the handle.
  \<^item> \<open>CInterface\<close> (\<^verbatim>\<open>RSupport.hpp\<close>): the typed accessors of the C interface. \<open>Session\<close>: a handle's
    life, any sequence of calls of the C interface between creating and freeing.
  \<^item> \<open>Logging\<close> (\<^verbatim>\<open>RUtil/src/Logging.cpp\<close>, \<^verbatim>\<open>Logging.hpp\<close>): severities and their texts, initialisation and
    macros as the calls that they make on Boost.Log, and the formats of the two sinks.
  \<^item> \<open>Flow\<close>: an abstract specification of programs connected by links: the value of each entry in
    each program, what each end of a link sends, and the messages in flight. \<open>Network\<close>: the
    registries, adapters and handlers of the code, connected by links (\<open>net_do\<close>), and the proof
    that they implement \<open>Flow\<close> step by step; the abstraction is \<open>flow_of\<close>. \<open>Replicas\<close>: what
    follows for the code, with three example networks.
  \<^item> \<open>Reception\<close>: sequences of received updates through dropper and handler.
  \<^item> \<open>Tests\<close> (\<^verbatim>\<open>RRegistry/test/adapter.cpp\<close>, \<^verbatim>\<open>lossy.cpp\<close>): the tests of the registry, run on the
    model. \<open>ConsoleTest\<close> (\<^verbatim>\<open>RSupport/test/consoleadapter.cpp\<close>): the test of the console
    adapter, a network of theory \<open>Network\<close> whose link is a pair of consoles.
  \<^item> This theory: what two processes do together, down to the bytes on console and socket.

  \<^bold>\<open>How they interact.\<close> \<open>registry_set\<close> stores a value, forwards it to every adapter that is alive
  (\<open>adapter_set\<close>, one call of the transmit buffer when the entry is subscribed) and notifies the
  receivers. A transport gives the bytes it reads to the library's parser; every message that
  this finishes goes to \<open>on_finished\<close>, which asks the dropper, writes to the registry while the
  adapter itself does not accept properties, answers, records subscriptions, calls the client's
  callback and pushes to the persistency policy. \<open>rsupport_handle_service\<close> is one frame: the
  movement burst, the delay (a sleep, or the console's pacing loop), then the socket.

  \<^bold>\<open>What the lemmas show.\<close> Each theory has a well-formedness predicate (\<open>wf_map\<close>, \<open>wf_dropper\<close>,
  \<open>wf_adapter\<close>, \<open>wf_arrays\<close>, \<open>wf_world\<close>, \<open>wf_socket\<close>, \<open>wf_handle\<close>) that its operations keep, in the
  collection \<open>wf_intros\<close>, and equations (\<open>registry_set_eq\<close>, \<open>on_finished_stored\<close>,
  \<open>socket_service_eq\<close>) that give an operation's result without its faults on well-formed states.
  The properties, each after a text with its number, are: refinement of a whole network to its
  specification, and from it that values have a source, that deliveries end where links form no
  loop, that registries agree in the end when one program writes, and how they can fail to (two
  writers swap their values, two links between the same programs keep updates circulating);
  refinement of the registry to a map
  and replication between two of them, also end to end over the console and the socket; what the
  handler does for every kind of message, and that it is safe; that the newest value wins behind
  the lossy dropper, in whatever order updates arrive; exactly-once storing of records and the ways
  the worker can be stopped; what droppers deliver; what the console and the socket do to bytes;
  when the pacing loop ends; what a frame and a connection do; that a sequence of calls of the C
  interface leaves defined behaviour only by servicing a socket's handle at the frequency 0; what
  the log macros ask of the logging library; and the defects that the code has, stated as what
  it really does.

  \<^bold>\<open>Faults.\<close> What leaves defined behaviour is a value of the type of faults, and a result is a fault
  or a state. So the safety properties are exact where they can be: \<open>defined_entry\<close> says for which
  messages the handler is defined. It is not for an update with fewer bytes than its type has
  (\<open>from_data\<close>: the code never looks at the length of the data), for a message type that has no
  callback slot, and for a string that is requested in a debug build or pushed to a policy that
  is recording. The delay of a frame converts an infinite duration to an integer when the
  frequency is 0 (\<open>infinite_sleep\<close>).

  \<^bold>\<open>Bounds and fuel.\<close> Integers have the width of the code; a property is 32 bits, its index in an
  array 16. The trigger's counter is a signed word of 32 bits that wraps; \<open>DB_counter_bound\<close> shows
  that it does not for any trigger below its maximum. \<open>worker_run\<close> takes the number of steps that the
  worker makes while another thread waits in \<^verbatim>\<open>join\<close>, and whether a spurious wakeup
  wakes it while it waits; \<open>join_fuel_enough\<close> shows that after the six steps it is given it can make no
  more. The pacing loop is a partial function, \<open>None\<close> when it does not end; \<open>pace_bounded\<close> shows that as many rounds as
  there are ignored reads and lines, and one, decide it. \<open>test_settle\<close> of the console's test hands
  over at most one message, for which its fuel of two is enough: with less the test would not
  pass. Every other loop is structural or has a measure.

  \<^bold>\<open>Parameters.\<close> The RCore library (a submodule that is not part of the sources) gives the results
  of the transmit buffer, the numbering of message types, the decoders and the parser; Boost
  gives base64; the operating system gives the results of system calls, the clock and the
  environment; SQLite and Boost.Log are the sequences of calls made on them. What is relied on
  is named: \<open>base64_on\<close>, \<open>link_message\<close>, \<open>safe_parser\<close>, \<open>honest_reads\<close>, \<open>fresh_descriptors\<close>,
  \<open>network_ok\<close> (the library hands on what was sent, and its decoders invert its encoding),
  \<open>test_libraries\<close> (what \<open>network_ok\<close> says, for messages carried by a console), \<open>library_ok\<close> (the
  same for the adapters of the registry's tests) and \<open>encodes_as\<close> (an entry is sent as one frame by
  one call of the callback). Every witness instantiates them with one concrete library,
  \<open>example_rcore\<close> with \<open>example_wire\<close> or \<open>example_send\<close>. Nothing is assumed of Boost.Log: any call on it may throw.

  \<^bold>\<open>Not modelled.\<close> Text for the user on standard streams; the floating-point arithmetic of a finite
  sleep, whose operands are recorded; what SQLite does with the calls, but for a NaN, which is
  bound as a value that reads back as nothing; what Boost.Log makes of its calls; a transport that delivers
  inside the call that sends, so that two handlers would nest; the code of receivers and
  callbacks, whose calls are recorded; the SWIG and CMake files and the Python example, which
  have no logic of their own.
\<close>

section \<open>Replication\<close>

text \<open>
  The receiving side: a received entry that carries a value is stored, whatever the registry
  held, and the adapter has had an update.
\<close>

lemma received_stored:
  assumes "wf_world env w" and "w_heap w i = Some b" and "m_registry b"
    and "m_dropperPolicy b = BasePolicy"
    and "message_type_to_num env MSG_UPDATE < MESSAGE_TYPE_COUNT env"
    and "valid_prop (vtype v) (prop_index pid)" and "from_data env (vtype v) (enc v) = Some v"
    and "received enc (value_call pid v rel) e"
  shows "\<exists>w' x b'. on_finished env now w i e = Inr w' \<and> wf_world env w' \<and>
    w_heap w' i = Some b' \<and> m_registry b' \<and> m_hadUpdate b' \<and>
    registry_get w' (vtype v) pid = Inr x \<and> (x = v \<or> val_eq x v)"
proof -
  let ?t = "vtype v"
  have e: "e_type e = word_of_nat (Type_int ?t)" "e_property e = ucast pid"
    "e_message_type e = MSG_UPDATE" "e_data e = Some (enc v)"
    using assms(8) by (simp_all add: received_def value_call_def)
  have ty: "unat (e_type e) = Type_int ?t" by (cases ?t) (simp_all add: e(1))
  have p: "unat (e_property e) = prop_index pid" by (simp add: e(2) prop_index_def)
  have drop: "shouldBeDropped (m_dropperPolicy b) (e_reliable e) (e_type e) (e_property e)
      (e_seq_number e) (m_adapterId b) = Inr (False, BasePolicy)"
    by (simp add: assms(4) Base_shouldBeDropped_def)
  have t: "Type_of (unat (e_type e)) = Some ?t" by (simp add: ty)
  have valid: "valid_prop ?t (unat (e_property e))" by (simp add: p assms(6))
  let ?w = "stored_world w i b BasePolicy (prop_of_id (e_property e)) v"
  from on_finished_stored [OF assms(1-3,5) e(3) t valid e(4) assms(7) drop, of now]
  obtain c q where wfb: "wf_adapter env b" "wf_dropper BasePolicy" and
    fin: "on_finished env now w i e = Inr (?w\<lparr>w_callbacks := c, m_persistencyPolicy := q\<rparr>)"
    by auto
  have wf: "wf_world env ?w" and
    map: "registry_map ?w = (if val_eq (m_arrays w ?t ! prop_index pid) v then registry_map w
      else (registry_map w)((?t, prop_index pid) \<mapsto> v))"
    using stored_world_map [OF assms(1) wfb, of v "prop_of_id (e_property e)" i] assms(6)
    by (simp_all add: p)
  then have "registry_get ?w ?t pid = Inr (if val_eq (m_arrays w ?t ! prop_index pid) v
      then m_arrays w ?t ! prop_index pid else v)"
    using assms(6) registry_map_eq [OF wf, of ?t "prop_index pid"]
      registry_map_eq [OF assms(1), of ?t "prop_index pid"] registry_get_eq [OF wf, of ?t pid]
    by (auto split: if_splits)
  with fin wf assms(3) show ?thesis
    using stored_world_adapter [of w i b BasePolicy "prop_of_id (e_property e)" v]
    by (auto simp: registry_get_def)
qed

text \<open>Property C7.  A value set on one registry arrives at the other: an adapter that is registered
  once, accepts properties and has the entry subscribed sends one message, and an adapter of
  another registry whose policy drops nothing stores from the corresponding entry the value
  that was set, provided the library's decoder inverts its encoder on it.\<close>

theorem value_replicates:
  assumes "wf_world envA wA" and "w_heap wA iA = Some a" and "m_acceptProperty a"
    and "subscribed_at a (vtype v) (prop_index pid)" and "count_list (m_adapters wA) (Some iA) = 1"
    and "valid_prop (vtype v) (prop_index pid)" and "vtype v \<noteq> String"
    and "registry_get wA (vtype v) pid = Inr old" and "\<not> val_eq old v"
    and "wf_world envB wB" and "w_heap wB iB = Some b" and "m_registry b"
    and "m_dropperPolicy b = BasePolicy"
    and "message_type_to_num envB MSG_UPDATE < MESSAGE_TYPE_COUNT envB"
    and "from_data envB (vtype v) (enc v) = Some v"
  shows "\<exists>wA' a' c. registry_set envA wA pid v rel = Inr wA' \<and> w_heap wA' iA = Some a' \<and>
    m_transmit_buffer a' = m_transmit_buffer a @ [c] \<and>
    (\<forall>e. received enc c e \<longrightarrow>
      (\<exists>wB' x. on_finished envB now wB iB e = Inr wB' \<and> wf_world envB wB' \<and>
         registry_get wB' (vtype v) pid = Inr x \<and> (x = v \<or> val_eq x v)))"
proof -
  let ?t = "vtype v" and ?c = "value_call pid v rel"
  have sent: "\<exists>a'. w_heap (set_result wA pid v rel) iA = Some a' \<and>
      m_transmit_buffer a' = m_transmit_buffer a @ [?c]"
    using forwarded_heap [OF assms(2), of v pid rel] assms(3-9) registry_get_eq [OF assms(1)]
    by simp
  have "\<exists>wB' x. on_finished envB now wB iB e = Inr wB' \<and> wf_world envB wB' \<and>
      registry_get wB' ?t pid = Inr x \<and> (x = v \<or> val_eq x v)" if "received enc ?c e" for e
    using received_stored [OF assms(10-14,6,15) that] by blast
  with sent registry_set_eq [OF assms(1,6), of rel] assms(7) show ?thesis by blast
qed

definition sender_world :: world where
  "sender_world = zero_world\<lparr>m_adapters := [Some 1], w_heap := [1 \<mapsto> example_adapter]\<rparr>"

theorem value_replicates_witness:
  "\<exists>wA' a' c. registry_set example_rcore sender_world 2 (VInt16 258) BasicDelivery = Inr wA' \<and>
    w_heap wA' 1 = Some a' \<and> m_transmit_buffer a' = m_transmit_buffer example_adapter @ [c] \<and>
    (\<forall>e. received (\<lambda>_. [2, 1]) c e \<longrightarrow>
      (\<exists>wB' x. on_finished example_rcore 0 example_world 1 e = Inr wB' \<and>
         wf_world example_rcore wB' \<and>
         registry_get wB' (vtype (VInt16 258)) 2 = Inr x \<and>
         (x = VInt16 258 \<or> val_eq x (VInt16 258))))"
proof (rule value_replicates)
  show wf: "wf_world example_rcore sender_world"
    using wf_zero_world [of example_rcore] by (simp add: sender_world_def wf_world_def)
  show "registry_get sender_world (vtype (VInt16 258)) 2 = Inr (VInt16 0)"
    using registry_get_eq [OF wf, of Int16 2]
    by (simp add: valid_prop_def prop_index_def sender_world_def zero_world_def)
  show "subscribed_at example_adapter (vtype (VInt16 258)) (prop_index 2)"
    using sub_at_Init [of True Int16 2]
    by (simp add: subscribed_at_def example_adapter_def adapter_init_def valid_prop_def
        prop_index_def)
  show "from_data example_rcore (vtype (VInt16 258)) [2, 1] = Some (VInt16 258)" by code_simp
  show "w_heap sender_world 1 = Some example_adapter" by (simp add: sender_world_def)
  show "w_heap example_world 1 = Some example_adapter" by (rule example_heap)
  show "wf_world example_rcore example_world" by simp
qed (simp_all add: sender_world_def example_adapter_def adapter_init_def valid_prop_def
    prop_index_def example_rcore_def)

section \<open>Two programs connected by the console\<close>

text \<open>
  What the console link relies on of the library for one message: its serialised form \<open>frame\<close>
  has a size that the library uses, base64 works on it, and the parser makes of it, whatever it
  has parsed before, the entry of the message.
\<close>

definition link_message ::
  "(bytes \<Rightarrow> string) \<Rightarrow> (string \<Rightarrow> bytes option) \<Rightarrow> parser \<Rightarrow> (val \<Rightarrow> bytes) \<Rightarrow> tb_call \<Rightarrow> bytes \<Rightarrow>
     bool" where
  "link_message enc dec parse benc c frame \<longleftrightarrow> base64_on enc dec frame \<and>
     length frame mod 8 = 1 \<and>
     (\<forall>old. \<exists>e ev. parse old frame = ([e], ev) \<and> received benc c e)"

text \<open>The receiving handle after the burst of its frame, with an adapter that it has.\<close>

lemma burst_adapter:
  assumes "wf_handle env h" and "w_heap (h_world h) i = Some b"
  shows "\<exists>w b'. service_burst env h = Inr (h\<lparr>h_world := w\<rparr>) \<and> wf_world env w \<and>
    w_heap w i = Some b' \<and> m_registry b' = m_registry b \<and> m_dropperPolicy b' = m_dropperPolicy b"
proof -
  note wf = wf_handleD [OF assms(1)]
  have pow: "m_dropperPolicy ((adapter_put pid v rel ^^ n) b) = m_dropperPolicy b" for pid v rel n
    by (induction n) simp_all
  let ?w = "set_result (h_world h) burst_property (VBool True) DefaultReliability"
  have "\<exists>b'. w_heap ?w i = Some b' \<and> m_registry b' = m_registry b \<and>
      m_dropperPolicy b' = m_dropperPolicy b"
    using assms(2) by (simp add: set_result_def Let_def pow)
  then show ?thesis
    using service_burst_eq [OF wf(1)] wf_set_result [OF wf(1)] wf(1) assms(2)
    by (cases "auto_burst h") (fastforce, intro exI [of _ "h_world h"], simp)
qed

lemma own_adapter_registry:
  assumes "wf_handle env h" and "w_heap (h_world h) (own_adapter h) = Some b"
  shows "m_registry b"
  using wf_handleD(3) [OF assms(1)] assms(2) by (simp add: connected_to_def)

text \<open>A paced frame returns when a line of the input carries a message with a value.\<close>

lemma paced_frame:
  assumes "wf_world env w" and "w_heap w console_id = Some b" and "m_registry b"
    and "m_dropperPolicy b = BasePolicy"
    and "message_type_to_num env MSG_UPDATE < MESSAGE_TYPE_COUNT env"
    and "valid_prop (vtype v) (prop_index pid)" and "from_data env (vtype v) (benc v) = Some v"
    and "receives dec line frame"
    and "\<forall>old. \<exists>e ev. parse old frame = ([e], ev) \<and> received benc (value_call pid v rel) e"
    and "\<forall>l \<in> set noise. \<not> is_message_line l"
  shows "\<exists>c' w' x. pace env dec parse clock console_id 0 (c, w, noise @ line # rest) =
      Some (Inr (c', w', rest)) \<and> wf_world env w' \<and> connected_to w' console_id \<and>
    registry_get w' (vtype v) pid = Inr x \<and> (x = v \<or> val_eq x v)"
proof -
  have alive: "w_heap w console_id \<noteq> None" using assms(2) by simp
  from pace_reaches [OF alive assms(10)] obtain k c0 where ready: "\<not> m_readTimeout c0 < 10"
    and skip: "pace env dec parse clock console_id 0 (c, w, noise @ line # rest) =
      pace env dec parse clock console_id k (c0, w, line # rest)" .
  have w: "wf_world env (reset_update w console_id)"
    unfolding reset_update_def using assms(1)
    by (rule wf_change_adapter) (simp add: wf_adapter_def resetHadUpdate_def)
  obtain e ev where e: "parse (c_parsed c0) frame = ([e], ev)"
    "received benc (value_call pid v rel) e" using assms(9) by blast
  have "w_heap (reset_update w console_id) console_id = Some (resetHadUpdate b)"
    by (simp add: assms(2))
  from received_stored [OF w this _ _ assms(5-7) e(2), of "clock k"] assms(3,4)
  obtain w' x b' where w': "on_finished env (clock k) (reset_update w console_id) console_id e = Inr w'"
    "wf_world env w'" "w_heap w' console_id = Some b'" "m_registry b'" "m_hadUpdate b'"
    "registry_get w' (vtype v) pid = Inr x" "x = v \<or> val_eq x v"
    by (auto simp: resetHadUpdate_def)
  have "pace env dec parse clock console_id k (c0, w, line # rest) =
      Some (Inr (c0\<lparr>c_parsed := c_parsed c0 @ [frame]\<rparr>, w', rest))"
    by (rule pace_ends [where es = "[e]" and ev = ev and a = b'])
      (use alive ready assms(8) e(1) w'(1,3,5) in simp_all)
  with skip w' show ?thesis by (auto simp: connected_to_def)
qed

lemma service_paced:
  assumes "wf_handle env h" and "consoleAdapter h = Some c" and "auto_frequency h"
    and "w_heap (h_world h) console_id = Some b" and "m_dropperPolicy b = BasePolicy"
    and "message_type_to_num env MSG_UPDATE < MESSAGE_TYPE_COUNT env"
    and "valid_prop (vtype v) (unat p)" and "from_data env (vtype v) (benc v) = Some v"
    and "receives dec line frame"
    and "\<forall>old. \<exists>e ev. parse old frame = ([e], ev) \<and>
      received benc (value_call (prop_of_id p) v rel) e"
    and "h_input h = noise @ line # rest" and "\<forall>l \<in> set noise. \<not> is_message_line l"
  shows "\<exists>h' x. rsupport_handle_service env os dec parse clock frameEnd next now h =
      Some (Inr (RSupportStatus_Ok, h')) \<and> h_input h' = rest \<and>
    rsupport_handle_get h' (vtype v) p = Inr x \<and> (x = v \<or> val_eq x v)"
proof -
  have "own_adapter h = console_id"
    using assms(1,2) by (simp add: wf_handle_def own_adapter_def)
  then have "m_registry b" using own_adapter_registry [OF assms(1)] assms(4) by simp
  with burst_adapter [OF assms(1,4)] obtain w b' where
    w: "service_burst env h = Inr (h\<lparr>h_world := w\<rparr>)" "wf_world env w"
      "w_heap w console_id = Some b'" "m_registry b'" "m_dropperPolicy b' = BasePolicy"
    using assms(5) by auto
  obtain n where n: "registry_get w Uint8 frequency_property = Inr (VUint8 n)"
    using frequency_value [OF w(2)] by blast
  have v: "valid_prop (vtype v) (prop_index (prop_of_id p))" using assms(7) by simp
  from paced_frame [where v = v and benc = benc and parse = parse and noise = noise,
      OF w(2-5) assms(6) v assms(8-10,12), of clock c rest]
  obtain c' w' x where p: "pace env dec parse clock console_id 0 (c, w, h_input h) =
      Some (Inr (c', w', rest))" and x: "registry_get w' (vtype v) (prop_of_id p) = Inr x"
    "x = v \<or> val_eq x v" by (auto simp: assms(11))
  have none: "socketClientAdapter h = None" using assms(1,2) by (simp add: wf_handle_def)
  show ?thesis
    using w(1) n p x none assms(2,3)
    by (simp add: rsupport_handle_service_def service_delay_def service_socket_def Let_def
        rsupport_handle_get_option_def rsupport_handle_get_def)
qed


definition console_handle :: handle where
  "console_handle =
     \<lparr>h_world = zero_world\<lparr>m_adapters := [Some console_id], w_heap := [console_id \<mapsto> example_adapter]\<rparr>,
      socketClientAdapter = None, consoleAdapter = Some console_init, options = [True, True],
      frameStart = 100, frameTime = 0,
      h_input = [''hello'', ''!:'' @ example_enc example_message @ ''=='', ''bye''], h_sleeps = []\<rparr>"

lemma console_handle_simps [simp]:
  "m_adapters (h_world console_handle) = [Some console_id]"
  "w_heap (h_world console_handle) = [console_id \<mapsto> example_adapter]"
  "consoleAdapter console_handle = Some console_init" "auto_frequency console_handle"
  by (simp_all add: console_handle_def rsupport_handle_get_option_def)

lemma wf_console_handle: "wf_handle example_rcore console_handle"
  using wf_zero_world [of example_rcore, unfolded wf_world_def] example_heap
  by (simp add: wf_handle_def connected_to_def own_adapter_def)
    (simp add: console_handle_def wf_world_def)

definition example_parser :: parser where
  "example_parser old new =
     ([\<lparr>e_type = 1, e_property = 2, e_message_type = MSG_UPDATE, e_seq_number = 0,
        e_reliable = reliability_contains DefaultReliability Acknowledged,
        e_data = Some [2, 1]\<rparr>], LRT_RCORE_OK)"

lemma example_link:
  "link_message example_enc example_dec example_parser (\<lambda>_. [2, 1])
     (value_call (prop_of_id 2) (VInt16 258) DefaultReliability) example_message"
  using example_base64
  by (simp add: link_message_def example_message_def example_parser_def received_def value_call_def
      prop_of_id_def)


section \<open>Two programs connected by a socket\<close>

lemma service_stored:
  assumes "wf_handle env h" and "socketClientAdapter h = Some s" and "honest_reads os"
    and "os_read os (s_trace s) (Sys_read (m_fd s) (length (m_buffer s))) = frame"
    and "frame \<noteq> []" and "parse (s_parsed s) frame = ([e], ev)"
    and "received benc (value_call (prop_of_id p) v rel) e"
    and "w_heap (h_world h) socket_id = Some b" and "m_dropperPolicy b = BasePolicy"
    and "message_type_to_num env MSG_UPDATE < MESSAGE_TYPE_COUNT env"
    and "valid_prop (vtype v) (unat p)" and "from_data env (vtype v) (benc v) = Some v"
    and "\<not> infinite_sleep h"
  shows "\<exists>h' x. rsupport_handle_service env os dec parse clock frameEnd next now h =
      Some (Inr (RSupportStatus_Updates, h')) \<and>
    rsupport_handle_get h' (vtype v) p = Inr x \<and> (x = v \<or> val_eq x v)"
proof -
  have "own_adapter h = socket_id" using assms(2) by (simp add: own_adapter_def)
  then have "m_registry b" using own_adapter_registry [OF assms(1)] assms(8) by simp
  with burst_adapter [OF assms(1,8)] obtain w b' where
    w: "service_burst env h = Inr (h\<lparr>h_world := w\<rparr>)" "wf_world env w"
      "w_heap w socket_id = Some b'" "m_registry b'" "m_dropperPolicy b' = BasePolicy"
    using assms(9) by auto
  from service_burst_wf [OF assms(1)] w(1) have "m_arrays w Uint8 = m_arrays (h_world h) Uint8"
    by (auto dest!: arg_cong [of _ _ h_world])
  then have finite: "\<not> infinite_sleep (h\<lparr>h_world := w\<rparr>)"
    using assms(13) by (simp add: infinite_sleep_def rsupport_handle_get_option_def
        registry_get_def getFromArray_def arr_at_def)
  have none: "consoleAdapter h = None" using assms(1,2) by (simp add: wf_handle_def)
  obtain h2 where h2: "service_delay env dec parse clock frameEnd next (h\<lparr>h_world := w\<rparr>) =
      Some (Inr h2)" "h_world h2 = w" "socketClientAdapter h2 = Some s"
    using none assms(2) w(2) finite
      service_delay_socket [of "h\<lparr>h_world := w\<rparr>" env dec parse clock frameEnd "next"]
    by auto
  have v: "valid_prop (vtype v) (prop_index (prop_of_id p))" using assms(11) by simp
  from received_stored [OF w(2-5) assms(10) v assms(12,7), of now] obtain w' x where
    e: "on_finished env now w socket_id e = Inr w'" and
    x: "registry_get w' (vtype v) (prop_of_id p) = Inr x" "x = v \<or> val_eq x v" by blast
  have "0 < os_result os (s_trace s) (Sys_read (m_fd s) (length (m_buffer s)))"
  proof -
    have "length frame = nat (os_result os (s_trace s) (Sys_read (m_fd s) (length (m_buffer s))))"
      using assms(3) unfolding assms(4) [symmetric] by (simp add: honest_reads_def)
    with assms(5) show ?thesis by (cases frame) auto
  qed
  then have "\<exists>s1. socket_service env os parse now socket_id (s, w) =
      Inr (RSupportStatus_Updates, s1, w')"
    using assms(4-6) e by (simp add: socket_service_eq [OF assms(3)] Let_def read_status_def)
  then show ?thesis
    using w(1) h2 x
    by (auto simp: rsupport_handle_service_def service_socket_def rsupport_handle_get_def)
qed

text \<open>
  The transmit buffer hands each entry that it makes of a call to the callback that the adapter's
  constructor registered, which gives it to \<^verbatim>\<open>send\<close>: so the socket writes while the set runs.
  \<open>wire\<close> is the library's entry for a call, \<open>send\<close> its function \<^verbatim>\<open>rcomm_send_tb_entry\<close>.
\<close>

type_synonym tb_sender =
  "(bytes \<Rightarrow> socket \<Rightarrow> rcore_event \<times> socket) \<Rightarrow> tb_entry option \<Rightarrow> socket \<Rightarrow> rcore_event \<times> socket"

fun entries_ready ::
  "rcore \<Rightarrow> tb_sender \<Rightarrow> os \<Rightarrow> adapter \<Rightarrow> tb_entry list \<Rightarrow> socket \<Rightarrow> socket res" where
  "entries_ready env send os a [] s = Inr s"
| "entries_ready env send os a (e # es) s =
     bindR (data_ready env (\<lambda>entry reliability. Inr (socket_send send os s entry reliability)) a (Some e))
       (\<lambda>(_, s1). entries_ready env send os a es s1)"

definition socket_calls :: "handle \<Rightarrow> tb_call list" where
  "socket_calls h = (case w_heap (h_world h) socket_id of
     None \<Rightarrow> [] | Some a \<Rightarrow> m_transmit_buffer a)"

definition handle_set_sending ::
  "rcore \<Rightarrow> (tb_call \<Rightarrow> tb_entry) \<Rightarrow> tb_sender \<Rightarrow> os \<Rightarrow> handle \<Rightarrow> 16 word \<Rightarrow> val \<Rightarrow> handle res" where
  "handle_set_sending env wire send os h p v =
     bindR (rsupport_handle_set env h p v) (\<lambda>h1.
       case (w_heap (h_world h1) socket_id, socketClientAdapter h1) of
         (Some a, Some s) \<Rightarrow>
           bindR (entries_ready env send os a
               (map wire (drop (length (socket_calls h)) (socket_calls h1))) s)
             (\<lambda>s1. Inr (h1\<lparr>socketClientAdapter := Some s1\<rparr>))
       | _ \<Rightarrow> Inr h1)"

text \<open>The library encodes an entry, which has data, as a frame and transmits it by one call of the
  callback.\<close>

definition encodes_as :: "tb_sender \<Rightarrow> tb_entry \<Rightarrow> bytes \<Rightarrow> bool" where
  "encodes_as send entry frame \<longleftrightarrow> e_data entry \<noteq> None \<and>
     (\<forall>transmit s. send transmit (Some entry) s = transmit frame s)"

lemma entry_ready_writes:
  assumes "encodes_as send entry frame" and "0 < m_fd s"
  shows "entries_ready env send os a [entry] s = Inr (snd (sys os s (Sys_write (m_fd s) frame)))"
  using assms
  by (auto simp: data_ready_def socket_send_def encodes_as_def socket_transmit_def split: prod.split)

text \<open>Property C9.  Two programs on one socket replicate a value. Setting it through a connected
  handle queues one message and makes exactly one system call, a write of the message's frame,
  whatever that write returns: a write that takes only a part of the frame is reported as a
  transmission error and its rest is never written. When the write took the whole frame and a
  read of the other program gives the bytes it took, servicing that program's handle, unless it
  adjusts frames to a frequency of 0, reports updates and leaves the value in its registry.\<close>

theorem socket_link:
  assumes "wf_handle envA hA" and "socketClientAdapter hA = Some sA" and "0 < m_fd sA"
    and "encodes_as send (wire (value_call (prop_of_id p) v DefaultReliability)) frame"
    and "w_heap (h_world hA) socket_id = Some a" and "m_acceptProperty a"
    and "subscribed_at a (vtype v) (unat p)"
    and "count_list (m_adapters (h_world hA)) (Some socket_id) = 1"
    and "rsupport_handle_get hA (vtype v) p = Inr old" and "\<not> val_eq old v"
    and "valid_prop (vtype v) (unat p)" and "vtype v \<noteq> String"
    and "wf_handle envB hB" and "socketClientAdapter hB = Some sB" and "honest_reads osB"
    and "\<not> infinite_sleep hB"
    and "frame \<noteq> []" and "parse (s_parsed sB) frame = ([e], ev)"
    and "received benc (value_call (prop_of_id p) v DefaultReliability) e"
    and "w_heap (h_world hB) socket_id = Some b" and "m_dropperPolicy b = BasePolicy"
    and "message_type_to_num envB MSG_UPDATE < MESSAGE_TYPE_COUNT envB"
    and "from_data envB (vtype v) (benc v) = Some v"
    and "r = os_result osA (s_trace sA) (Sys_write (m_fd sA) frame)"
    and "os_read osB (s_trace sB) (Sys_read (m_fd sB) (length (m_buffer sB))) = take (nat r) frame"
  shows "\<exists>hA' a' sA'. handle_set_sending envA wire send osA hA p v = Inr hA' \<and>
    w_heap (h_world hA') socket_id = Some a' \<and> socketClientAdapter hA' = Some sA' \<and>
    m_transmit_buffer a' =
      m_transmit_buffer a @ [value_call (prop_of_id p) v DefaultReliability] \<and>
    s_trace sA' = s_trace sA @ [(Sys_write (m_fd sA) frame, r)] \<and>
    fst (socket_transmit osA sA frame) =
      (if r = int (length frame) then LRT_RCORE_OK else LRT_RCORE_TRANSMIT_ERROR) \<and>
    (r = int (length frame) \<longrightarrow>
      (\<exists>hB' x. rsupport_handle_service envB osB dec parse clock frameEnd next now hB =
          Some (Inr (RSupportStatus_Updates, hB')) \<and>
        rsupport_handle_get hB' (vtype v) p = Inr x \<and> (x = v \<or> val_eq x v)))"
proof -
  let ?wA = "set_result (h_world hA) (prop_of_id p) v DefaultReliability"
  let ?call = "value_call (prop_of_id p) v DefaultReliability"
  note wfA = wf_handleD [OF assms(1)]
  have set: "rsupport_handle_set envA hA p v = Inr (hA\<lparr>h_world := ?wA\<rparr>)"
    using registry_set_eq [OF wfA(1), of v "prop_of_id p"] assms(11,12)
    by (simp add: rsupport_handle_set_def)
  obtain a' where a': "w_heap ?wA socket_id = Some a'"
    "m_transmit_buffer a' = m_transmit_buffer a @ [?call]"
    using forwarded_heap [OF assms(5), of v "prop_of_id p" DefaultReliability] assms(6-12)
      registry_get_eq [OF wfA(1), of "vtype v" "prop_of_id p"]
    by (auto simp: rsupport_handle_get_def)
  let ?sA = "snd (sys osA sA (Sys_write (m_fd sA) frame))"
  have "handle_set_sending envA wire send osA hA p v =
      Inr (hA\<lparr>h_world := ?wA, socketClientAdapter := Some ?sA\<rparr>)"
    using set a' assms(2,5) entry_ready_writes [OF assms(4,3)]
    by (simp add: handle_set_sending_def socket_calls_def)
  moreover have "s_trace ?sA = s_trace sA @ [(Sys_write (m_fd sA) frame, r)]"
    using assms(24) by (simp add: sys_def Let_def)
  moreover have "fst (socket_transmit osA sA frame) =
      (if r = int (length frame) then LRT_RCORE_OK else LRT_RCORE_TRANSMIT_ERROR)"
    using assms(3,24) by (simp add: socket_transmit_def sys_def Let_def)
  moreover have "\<exists>hB' x. rsupport_handle_service envB osB dec parse clock frameEnd next now hB =
          Some (Inr (RSupportStatus_Updates, hB')) \<and>
        rsupport_handle_get hB' (vtype v) p = Inr x \<and> (x = v \<or> val_eq x v)"
    if "r = int (length frame)"
    using service_stored [where benc = benc and parse = parse, OF assms(13-15) _ assms(17-22,11,23,16),
        of dec clock frameEnd "next" now] assms(25) that by simp
  ultimately show ?thesis using a'
    by (intro exI [of _ "hA\<lparr>h_world := ?wA, socketClientAdapter := Some ?sA\<rparr>"] exI [of _ a']
        exI [of _ ?sA]) simp
qed

fun link_read :: "syscall \<Rightarrow> bytes" where
  "link_read (Sys_read fd n) = (if 9 \<le> n then example_message else [])"
| "link_read _ = []"

definition link_os :: os where
  "link_os = \<lparr>os_result = \<lambda>t c. case c of Sys_read fd n \<Rightarrow> int (length (link_read c))
       | _ \<Rightarrow> example_result t c, os_errno = \<lambda>t c. EAGAIN, os_read = \<lambda>t c. link_read c\<rparr>"

lemma link_os_honest: "honest_reads link_os"
  by (simp add: honest_reads_def link_os_def example_message_def)

definition link_entry :: tb_entry where
  "link_entry = hd (fst (example_parser [] []))"

text \<open>A library for the witness: every entry is the example's nine bytes.\<close>

definition example_send :: tb_sender where
  "example_send transmit entry s =
     (case entry of None \<Rightarrow> (LRT_RCORE_OK, s) | Some e \<Rightarrow> transmit example_message s)"

theorem socket_link_witness:
  "\<exists>hA' a' sA'. handle_set_sending example_rcore (\<lambda>_. link_entry) example_send example_os
      example_handle 2 (VInt16 258) = Inr hA' \<and>
    w_heap (h_world hA') socket_id = Some a' \<and> socketClientAdapter hA' = Some sA' \<and>
    m_transmit_buffer a' = m_transmit_buffer example_adapter @
      [value_call (prop_of_id 2) (VInt16 258) DefaultReliability] \<and>
    s_trace sA' = s_trace example_connected @ [(Sys_write (m_fd example_connected) example_message, 9)] \<and>
    fst (socket_transmit example_os example_connected example_message) =
      (if 9 = int (length example_message) then LRT_RCORE_OK else LRT_RCORE_TRANSMIT_ERROR) \<and>
    (9 = int (length example_message) \<longrightarrow>
      (\<exists>hB' x. rsupport_handle_service example_rcore link_os example_dec example_parser (\<lambda>k. 0)
          500 700 9 example_handle = Some (Inr (RSupportStatus_Updates, hB')) \<and>
        rsupport_handle_get hB' (vtype (VInt16 258)) 2 = Inr x \<and>
        (x = VInt16 258 \<or> val_eq x (VInt16 258))))"
proof (rule socket_link [OF wf_example_handle])
  show "rsupport_handle_get example_handle (vtype (VInt16 258)) 2 = Inr (VInt16 0)"
    using registry_get_eq [OF wf_handleD(1) [OF wf_example_handle], of Int16 "prop_of_id 2"]
    by (simp add: rsupport_handle_get_def valid_prop_def example_handle_def paced_world_arrays)
      (simp add: zero_world_def)
  show "subscribed_at example_adapter (vtype (VInt16 258)) (unat (2 :: 16 word))"
    using sub_at_Init [of True Int16 2]
    by (simp add: subscribed_at_def example_adapter_def adapter_init_def valid_prop_def)
  show "from_data example_rcore (vtype (VInt16 258)) [2, 1] = Some (VInt16 258)" by code_simp
  show "honest_reads link_os" by (rule link_os_honest)
  show "os_read link_os (s_trace example_connected)
      (Sys_read (m_fd example_connected) (length (m_buffer example_connected))) =
      take (nat 9) example_message"
    by (simp add: link_os_def example_connected_simps example_message_def)
  show "encodes_as example_send link_entry example_message"
    by (simp add: encodes_as_def example_send_def link_entry_def example_parser_def)
  show "\<not> infinite_sleep example_handle" by (simp add: infinite_sleep_def example_frequency)
  show "example_parser (s_parsed example_connected) example_message = ([link_entry], LRT_RCORE_OK)"
    by (simp add: example_parser_def link_entry_def)
  show "received (\<lambda>_. [2, 1]) (value_call (prop_of_id 2) (VInt16 258) DefaultReliability) link_entry"
    by (simp add: link_entry_def example_parser_def received_def value_call_def prop_of_id_def)
  show "wf_handle example_rcore example_handle" by (rule wf_example_handle)
  show "m_dropperPolicy example_adapter = BasePolicy"
    by (simp add: example_adapter_def adapter_init_def)
  show "message_type_to_num example_rcore MSG_UPDATE < MESSAGE_TYPE_COUNT example_rcore"
    by (simp add: example_rcore_def)
qed (simp_all add: example_connected_simps example_adapter_def adapter_init_def valid_prop_def
    example_message_def)

end
